(* ===== verification/Prelude.thy ===== *)
theory Prelude
  imports
    Main
    "HOL-Library.Word"
    "HOL-Library.AList"
    "HOL-Library.Sublist"
begin

text \<open>
  Shared vocabulary of the development: machine integers, the outcome of a Rust call
  (a value, an \<^verbatim>\<open>Err\<close>, a panic, a process crash, or a loop that does not return),
  state-passing combinators over it with a weakest-precondition calculus, decimal
  printing and parsing of \<^verbatim>\<open>usize\<close> values as the server uses them for file names,
  and the byte-range update of a file's content.
\<close>

section \<open>Types\<close>

type_synonym u64 = "64 word"
type_synonym u32 = "32 word"
type_synonym u16 = "16 word"
type_synonym byte = "8 word"
type_synonym bytes = "byte list"

text \<open>
  A Rust \<^verbatim>\<open>usize\<close> (64-bit target), \<^verbatim>\<open>u64\<close> or \<^verbatim>\<open>i64\<close> is a 64-bit word: \<^verbatim>\<open>unat\<close> reads the
  first two, \<^verbatim>\<open>sint\<close> the third, and the casts \<^verbatim>\<open>as usize\<close>, \<^verbatim>\<open>as u64\<close>, \<^verbatim>\<open>as i64\<close> between
  them keep the bits, so they are the identity here.
\<close>

named_theorems monad_simps "unfolding of the combinators on a given state"
named_theorems wp_rules "weakest-precondition rules"

section \<open>Outcomes\<close>

datatype ('e, 'a) outcome =
    Ok 'a
  | Err 'e
  | Panic string
  | Crash
  | Hang

type_synonym ('s, 'e, 'a) M = "'s \<Rightarrow> ('e, 'a) outcome \<times> 's"

definition retM :: "'a \<Rightarrow> ('s, 'e, 'a) M" where
  "retM x = (\<lambda>s. (Ok x, s))"

definition errM :: "'e \<Rightarrow> ('s, 'e, 'a) M" where
  "errM e = (\<lambda>s. (Err e, s))"

definition panicM :: "string \<Rightarrow> ('s, 'e, 'a) M" where
  "panicM msg = (\<lambda>s. (Panic msg, s))"

definition hangM :: "('s, 'e, 'a) M" where
  "hangM = (\<lambda>s. (Hang, s))"

definition getsM :: "('s \<Rightarrow> 'a) \<Rightarrow> ('s, 'e, 'a) M" where
  "getsM f = (\<lambda>s. (Ok (f s), s))"

definition modifyM :: "('s \<Rightarrow> 's) \<Rightarrow> ('s, 'e, unit) M" where
  "modifyM f = (\<lambda>s. (Ok (), f s))"

text \<open>The two continuations of an outcome: only \<^const>\<open>Ok\<close> goes on.\<close>

fun bind_out :: "('e, 'a) outcome \<Rightarrow> 's \<Rightarrow> ('a \<Rightarrow> ('s, 'e, 'b) M) \<Rightarrow> ('e, 'b) outcome \<times> 's" where
  "bind_out (Ok x) s f = f x s"
| "bind_out (Err e) s f = (Err e, s)"
| "bind_out (Panic p) s f = (Panic p, s)"
| "bind_out Crash s f = (Crash, s)"
| "bind_out Hang s f = (Hang, s)"

definition bindM :: "('s, 'e, 'a) M \<Rightarrow> ('a \<Rightarrow> ('s, 'e, 'b) M) \<Rightarrow> ('s, 'e, 'b) M" where
  "bindM m f = (\<lambda>s. case m s of (r, s') \<Rightarrow> bind_out r s' f)"

definition thenM :: "('s, 'e, 'a) M \<Rightarrow> ('s, 'e, 'b) M \<Rightarrow> ('s, 'e, 'b) M" where
  "thenM m k = bindM m (\<lambda>_. k)"

text \<open>\<^verbatim>\<open>assert!\<close>\<close>

definition assertM :: "bool \<Rightarrow> string \<Rightarrow> ('s, 'e, unit) M" where
  "assertM b msg = (if b then retM () else panicM msg)"

text \<open>\<^verbatim>\<open>map_err\<close>, also the error conversion of \<^verbatim>\<open>?\<close>\<close>

fun map_err_out :: "('e \<Rightarrow> 'f) \<Rightarrow> ('e, 'a) outcome \<Rightarrow> ('f, 'a) outcome" where
  "map_err_out g (Ok x) = Ok x"
| "map_err_out g (Err e) = Err (g e)"
| "map_err_out g (Panic p) = Panic p"
| "map_err_out g Crash = Crash"
| "map_err_out g Hang = Hang"

definition map_errM :: "('e \<Rightarrow> 'f) \<Rightarrow> ('s, 'e, 'a) M \<Rightarrow> ('s, 'f, 'a) M" where
  "map_errM g m = (\<lambda>s. case m s of (r, s') \<Rightarrow> (map_err_out g r, s'))"

text \<open>\<^verbatim>\<open>Result::unwrap\<close>\<close>

fun unwrap_out :: "('e, 'a) outcome \<Rightarrow> ('f, 'a) outcome" where
  "unwrap_out (Ok x) = Ok x"
| "unwrap_out (Err e) = Panic ''unwrap''"
| "unwrap_out (Panic p) = Panic p"
| "unwrap_out Crash = Crash"
| "unwrap_out Hang = Hang"

definition unwrapM :: "('s, 'e, 'a) M \<Rightarrow> ('s, 'f, 'a) M" where
  "unwrapM m = (\<lambda>s. case m s of (r, s') \<Rightarrow> (unwrap_out r, s'))"

text \<open>\<^verbatim>\<open>Option::unwrap\<close>\<close>

definition unwrap_optM :: "'a option \<Rightarrow> ('s, 'e, 'a) M" where
  "unwrap_optM x = (case x of None \<Rightarrow> panicM ''unwrap'' | Some v \<Rightarrow> retM v)"

text \<open>Binding a \<^verbatim>\<open>Result\<close> to a variable without \<^verbatim>\<open>?\<close>\<close>

fun attempt_out :: "('e, 'a) outcome \<Rightarrow> ('f, 'e + 'a) outcome" where
  "attempt_out (Ok x) = Ok (Inr x)"
| "attempt_out (Err e) = Ok (Inl e)"
| "attempt_out (Panic p) = Panic p"
| "attempt_out Crash = Crash"
| "attempt_out Hang = Hang"

definition attemptM :: "('s, 'e, 'a) M \<Rightarrow> ('s, 'f, 'e + 'a) M" where
  "attemptM m = (\<lambda>s. case m s of (r, s') \<Rightarrow> (attempt_out r, s'))"

fun mapM :: "('a \<Rightarrow> ('s, 'e, 'b) M) \<Rightarrow> 'a list \<Rightarrow> ('s, 'e, 'b list) M" where
  "mapM f [] = retM []"
| "mapM f (x # xs) = bindM (f x) (\<lambda>y. bindM (mapM f xs) (\<lambda>ys. retM (y # ys)))"

section \<open>Computing with the combinators\<close>

lemma retM_apply [monad_simps]: "retM x s = (Ok x, s)"
  by (simp add: retM_def)

lemma errM_apply [monad_simps]: "errM e s = (Err e, s)"
  by (simp add: errM_def)

lemma panicM_apply [monad_simps]: "panicM p s = (Panic p, s)"
  by (simp add: panicM_def)

lemma hangM_apply [monad_simps]: "hangM s = (Hang, s)"
  by (simp add: hangM_def)

lemma getsM_apply [monad_simps]: "getsM f s = (Ok (f s), s)"
  by (simp add: getsM_def)

lemma modifyM_apply [monad_simps]: "modifyM f s = (Ok (), f s)"
  by (simp add: modifyM_def)

lemma assertM_apply [monad_simps]:
  "assertM b msg s = (if b then (Ok (), s) else (Panic msg, s))"
  by (simp add: assertM_def retM_def panicM_def)

lemma unwrap_optM_Some [simp, monad_simps]: "unwrap_optM (Some v) = retM v"
  by (simp add: unwrap_optM_def)

lemma unwrap_optM_None [simp, monad_simps]: "unwrap_optM None = panicM ''unwrap''"
  by (simp add: unwrap_optM_def)

lemma bindM_apply [monad_simps]: "bindM m f s = (case m s of (r, s') \<Rightarrow> bind_out r s' f)"
  by (simp add: bindM_def)

lemma thenM_apply [monad_simps]: "thenM m k s = (case m s of (r, s') \<Rightarrow> bind_out r s' (\<lambda>_. k))"
  by (simp add: thenM_def bindM_def)

lemma map_errM_apply [monad_simps]: "map_errM g m s = (case m s of (r, s') \<Rightarrow> (map_err_out g r, s'))"
  by (simp add: map_errM_def)

lemma unwrapM_apply [monad_simps]: "unwrapM m s = (case m s of (r, s') \<Rightarrow> (unwrap_out r, s'))"
  by (simp add: unwrapM_def)

lemma attemptM_apply [monad_simps]: "attemptM m s = (case m s of (r, s') \<Rightarrow> (attempt_out r, s'))"
  by (simp add: attemptM_def)

lemma bindM_retM [simp]: "bindM (retM x) f = f x"
  by (simp add: bindM_def retM_def fun_eq_iff)

lemma bindM_assoc: "bindM (bindM m f) g = bindM m (\<lambda>x. bindM (f x) g)"
proof
  fix s show "bindM (bindM m f) g s = bindM m (\<lambda>x. bindM (f x) g) s"
    by (cases "m s"; cases "fst (m s)") (auto simp: bindM_def)
qed

section \<open>Weakest preconditions over every outcome\<close>

text \<open>
  \<open>wp m Q s\<close>: whatever outcome \<open>m\<close> has from \<open>s\<close>, errors, panics and crashes included,
  the outcome and the state it leaves satisfy \<open>Q\<close>.
\<close>

definition wp :: "('s, 'e, 'a) M \<Rightarrow> (('e, 'a) outcome \<Rightarrow> 's \<Rightarrow> bool) \<Rightarrow> 's \<Rightarrow> bool" where
  "wp m Q s = (case m s of (r, s') \<Rightarrow> Q r s')"

lemma wpD: "wp m Q s \<Longrightarrow> m s = (r, s') \<Longrightarrow> Q r s'"
  by (simp add: wp_def)

lemma wpI: "(\<And>r s'. m s = (r, s') \<Longrightarrow> Q r s') \<Longrightarrow> wp m Q s"
  by (cases "m s") (simp add: wp_def)

lemma wp_mono: "wp m P s \<Longrightarrow> (\<And>r s'. P r s' \<Longrightarrow> Q r s') \<Longrightarrow> wp m Q s"
  by (auto simp: wp_def split: prod.splits)

lemma wp_retM [wp_rules]: "wp (retM x) Q s = Q (Ok x) s"
  by (simp add: wp_def monad_simps)

lemma wp_errM [wp_rules]: "wp (errM e) Q s = Q (Err e) s"
  by (simp add: wp_def monad_simps)

lemma wp_panicM [wp_rules]: "wp (panicM p) Q s = Q (Panic p) s"
  by (simp add: wp_def monad_simps)

lemma wp_hangM [wp_rules]: "wp hangM Q s = Q Hang s"
  by (simp add: wp_def monad_simps)

lemma wp_getsM [wp_rules]: "wp (getsM f) Q s = Q (Ok (f s)) s"
  by (simp add: wp_def monad_simps)

lemma wp_modifyM [wp_rules]: "wp (modifyM f) Q s = Q (Ok ()) (f s)"
  by (simp add: wp_def monad_simps)

lemma wp_assertM [wp_rules]: "wp (assertM b msg) Q s = (if b then Q (Ok ()) s else Q (Panic msg) s)"
  by (simp add: wp_def monad_simps)

fun bind_post :: "('a \<Rightarrow> ('s, 'e, 'b) M) \<Rightarrow> (('e, 'b) outcome \<Rightarrow> 's \<Rightarrow> bool)
    \<Rightarrow> ('e, 'a) outcome \<Rightarrow> 's \<Rightarrow> bool" where
  "bind_post f Q (Ok x) s = wp (f x) Q s"
| "bind_post f Q (Err e) s = Q (Err e) s"
| "bind_post f Q (Panic p) s = Q (Panic p) s"
| "bind_post f Q Crash s = Q Crash s"
| "bind_post f Q Hang s = Q Hang s"

lemma wp_bindM [wp_rules]: "wp (bindM m f) Q s = wp m (bind_post f Q) s"
  by (cases "m s"; cases "fst (m s)") (auto simp: wp_def bindM_def)

lemma wp_thenM [wp_rules]: "wp (thenM m k) Q s = wp m (bind_post (\<lambda>_. k) Q) s"
  by (simp add: thenM_def wp_bindM)

lemma wp_map_errM [wp_rules]: "wp (map_errM g m) Q s = wp m (\<lambda>r. Q (map_err_out g r)) s"
  by (simp add: wp_def map_errM_def split: prod.split)

lemma wp_unwrapM [wp_rules]: "wp (unwrapM m) Q s = wp m (\<lambda>r. Q (unwrap_out r)) s"
  by (simp add: wp_def unwrapM_def split: prod.split)

lemma wp_attemptM [wp_rules]: "wp (attemptM m) Q s = wp m (\<lambda>r. Q (attempt_out r)) s"
  by (simp add: wp_def attemptM_def split: prod.split)

lemma wp_conj: "wp m P s \<Longrightarrow> wp m Q s \<Longrightarrow> wp m (\<lambda>r s'. P r s' \<and> Q r s') s"
  by (auto simp: wp_def split: prod.splits)

section \<open>Decimal numerals\<close>

definition digit_char :: "nat \<Rightarrow> char" where
  "digit_char d = ''0123456789'' ! d"

definition digit_val :: "char \<Rightarrow> nat option" where
  "digit_val c = map_of (zip ''0123456789'' [0..<10]) c"

definition is_digit :: "char \<Rightarrow> bool" where
  "is_digit c = (digit_val c \<noteq> None)"

text \<open>\<^verbatim>\<open>format!("{}", n)\<close> and \<^verbatim>\<open>n.to_string()\<close> of an unsigned integer\<close>

fun show_nat :: "nat \<Rightarrow> string" where
  "show_nat n = (if n < 10 then [digit_char n] else show_nat (n div 10) @ [digit_char (n mod 10)])"

declare show_nat.simps [simp del]

fun digits_val :: "nat \<Rightarrow> string \<Rightarrow> nat option" where
  "digits_val acc [] = Some acc"
| "digits_val acc (c # cs) =
     (case digit_val c of None \<Rightarrow> None | Some d \<Rightarrow> digits_val (10 * acc + d) cs)"

definition show_u64 :: "u64 \<Rightarrow> string" where
  "show_u64 w = show_nat (unat w)"

text \<open>
  \<^verbatim>\<open>str::parse::<u64>()\<close> (and \<^verbatim>\<open>usize\<close>): an optional plus sign, at least one digit, no
  other character, and a value below \<^verbatim>\<open>2^64\<close>.
\<close>

definition parse_u64 :: "string \<Rightarrow> u64 option" where
  "parse_u64 s =
     (let ds = (if s \<noteq> [] \<and> hd s = CHR ''+'' then tl s else s)
      in if ds = [] then None
         else case digits_val 0 ds of
                None \<Rightarrow> None
              | Some n \<Rightarrow> if n < 2 ^ 64 then Some (of_nat n) else None)"

lemma digit_val_digit_char: "d < 10 \<Longrightarrow> digit_val (digit_char d) = Some d"
proof -
  assume "d < 10"
  then have "d \<in> {0, 1, 2, 3, 4, 5, 6, 7, 8, 9}" by auto
  then show ?thesis
    by (auto simp: digit_val_def digit_char_def upt_rec)
qed

lemma is_digit_digit_char [simp]: "d < 10 \<Longrightarrow> is_digit (digit_char d)"
  by (simp add: is_digit_def digit_val_digit_char)

lemma not_digit [simp]: "\<not> is_digit CHR ''.''" "\<not> is_digit CHR ''+''" "\<not> is_digit CHR ''/''"
    "\<not> is_digit (CHR 0x00)"
  by (simp_all add: is_digit_def digit_val_def upt_rec)

lemma show_nat_nonempty [simp]: "show_nat n \<noteq> []"
  by (subst show_nat.simps) simp

lemma show_nat_digits: "list_all is_digit (show_nat n)"
proof (induction n rule: show_nat.induct)
  case (1 n)
  then show ?case by (subst show_nat.simps) simp
qed

lemma digits_val_append:
  "digits_val acc (xs @ ys) =
     (case digits_val acc xs of None \<Rightarrow> None | Some a \<Rightarrow> digits_val a ys)"
  by (induction xs arbitrary: acc) (auto split: option.splits)

lemma digits_val_show_nat: "digits_val 0 (show_nat n) = Some n"
proof (induction n rule: show_nat.induct)
  case (1 n)
  then show ?case
    by (subst show_nat.simps) (auto simp: digits_val_append digit_val_digit_char)
qed

lemma show_u64_nonempty [simp]: "show_u64 w \<noteq> []"
  by (simp add: show_u64_def)

lemma show_u64_digits: "list_all is_digit (show_u64 w)"
  by (simp add: show_u64_def show_nat_digits)

lemma show_u64_digit_set: "c \<in> set (show_u64 w) \<Longrightarrow> is_digit c"
  using show_u64_digits by (auto simp: list_all_iff)

lemma show_nat_length: "n < 10 ^ Suc k \<Longrightarrow> length (show_nat n) \<le> Suc k"
proof (induction k arbitrary: n)
  case 0
  then show ?case by (subst show_nat.simps) simp
next
  case (Suc k)
  then have "length (show_nat (n div 10)) \<le> Suc k" by simp
  then show ?case by (subst show_nat.simps) simp
qed

lemma show_u64_length: "length (show_u64 w) \<le> 20"
proof -
  have "unat w < 2 ^ 64" using unsigned_less [of w, where 'a = nat] by simp
  then show ?thesis using show_nat_length [of "unat w" 19] by (simp add: show_u64_def)
qed

lemma parse_show_u64 [simp]: "parse_u64 (show_u64 w) = Some w"
proof -
  have "hd (show_u64 w) \<noteq> CHR ''+''"
    using show_u64_digit_set [of "hd (show_u64 w)" w] by auto
  moreover have "unat w < 2 ^ 64"
    using unsigned_less [of w, where 'a = nat] by simp
  ultimately show ?thesis
    by (simp add: parse_u64_def Let_def show_u64_def digits_val_show_nat)
qed

lemma show_u64_inj [simp]: "show_u64 a = show_u64 b \<longleftrightarrow> a = b"
proof
  assume "show_u64 a = show_u64 b"
  then have "parse_u64 (show_u64 a) = parse_u64 (show_u64 b)" by simp
  then show "a = b" by simp
qed simp

lemma show_u64_no_dot [simp]: "CHR ''.'' \<notin> set (show_u64 w)"
  using show_u64_digit_set by force

lemma takeWhile_show_u64 [simp]:
  "takeWhile (\<lambda>c. c \<noteq> CHR ''.'') (show_u64 w @ CHR ''.'' # nm) = show_u64 w"
  by (subst takeWhile_append2) (auto dest: show_u64_digit_set)

lemma dropWhile_show_u64 [simp]:
  "dropWhile (\<lambda>c. c \<noteq> CHR ''.'') (show_u64 w @ CHR ''.'' # nm) = CHR ''.'' # nm"
  by (subst dropWhile_append2) (auto dest: show_u64_digit_set)

section \<open>Byte ranges\<close>

text \<open>
  The content of a file after \<^verbatim>\<open>write_all(data)\<close> at offset \<open>off\<close>: a gap past the old
  end reads as zeros, and writing nothing changes nothing.
\<close>

definition write_at :: "nat \<Rightarrow> bytes \<Rightarrow> bytes \<Rightarrow> bytes" where
  "write_at off data old =
     (if data = [] then old
      else take off old @ replicate (off - length old) 0 @ data @ drop (off + length data) old)"

text \<open>The content after \<^verbatim>\<open>set_len(n)\<close>.\<close>

definition resize_bytes :: "nat \<Rightarrow> bytes \<Rightarrow> bytes" where
  "resize_bytes n old = take n old @ replicate (n - length old) 0"

lemma write_at_Nil [simp]: "write_at off [] old = old"
  by (simp add: write_at_def)

lemma length_write_at:
  "length (write_at off data old) =
     (if data = [] then length old else max (length old) (off + length data))"
  by (auto simp: write_at_def)

lemma length_resize_bytes [simp]: "length (resize_bytes n old) = n"
  by (simp add: resize_bytes_def)

lemma nth_write_at:
  assumes "data \<noteq> []" "i < length (write_at off data old)"
  shows "write_at off data old ! i =
     (if off \<le> i \<and> i < off + length data then data ! (i - off)
      else if i < length old then old ! i else 0)"
  using assms by (auto simp: write_at_def nth_append min_def split: if_splits)

text \<open>Reading back the range just written.\<close>

lemma take_drop_write_at: "take (length data) (drop off (write_at off data old)) = data"
  by (cases "data = []") (auto simp: write_at_def)

text \<open>Two adjacent writes are one write: a buffer may be sent in pieces.\<close>

lemma write_at_append:
  "write_at (off + length xs) ys (write_at off xs old) = write_at off (xs @ ys) old"
proof (cases "xs = [] \<or> ys = []")
  case True
  then show ?thesis by (auto simp: write_at_def)
next
  case False
  then show ?thesis
    by (intro nth_equalityI) (auto simp: length_write_at nth_write_at nth_append)
qed

section \<open>Lists\<close>

lemma prefix_butlast_iff: "p \<noteq> [] \<Longrightarrow> prefix q p \<longleftrightarrow> q = p \<or> prefix q (butlast p)"
  by (cases p rule: rev_cases) auto

lemma map_of_update [simp]: "map_of (AList.update k v al) = (map_of al)(k \<mapsto> v)"
  by (rule update_conv')

lemma map_of_delete_at [simp]: "map_of (AList.delete k al) = (map_of al)(k := None)"
  by (rule delete_conv')

lemma distinct_keys_update [simp]:
  "distinct (map fst al) \<Longrightarrow> distinct (map fst (AList.update k v al))"
  by (rule distinct_update)

lemma distinct_keys_delete [simp]:
  "distinct (map fst al) \<Longrightarrow> distinct (map fst (AList.delete k al))"
  by (rule distinct_delete)

end
