(* ===== verification/HostFs.thy ===== *)
theory HostFs
  imports Prelude
begin

text \<open>
  The server's host file system below \<^verbatim>\<open>data_dir\<close>, as far as \<^verbatim>\<open>std::fs\<close> and \<^verbatim>\<open>libc\<close> show
  it to the server: a finite store of path names with Linux semantics for the calls the
  server makes. Every call first consumes one entry of a fault schedule, so that a call may
  fail with an I/O error or the process may die just before it takes effect; a theorem
  about all schedules is a theorem about every I/O error and every crash point.
\<close>

section \<open>Objects and paths\<close>

type_synonym path = "string list"

text \<open>Seconds since the epoch (an \<^verbatim>\<open>i64\<close>) and nanoseconds.\<close>

type_synonym tspec = "u64 \<times> u32"

record stamps =
  st_atime :: tspec
  st_mtime :: tspec
  st_btime :: "tspec option"

datatype obj = RegFile stamps bytes | DirObj stamps

type_synonym disk = "(path \<times> obj) list"

datatype io_error =
    ENOENT | EEXIST | ENOTDIR | EISDIR | ENOTEMPTY | EINVAL | ENAMETOOLONG | EBUSY | EIO | ENOSPC
  | InvalidInput

datatype fault = FailWith io_error | PowerCut

record host =
  h_disk :: disk
  h_faults :: "fault option list"
  h_clock :: tspec

definition NAME_MAX :: nat where
  "NAME_MAX = 255"

text \<open>A birth time is reported only where the host file system keeps one.\<close>

definition fresh_stamps :: "tspec \<Rightarrow> stamps" where
  "fresh_stamps now = \<lparr>st_atime = now, st_mtime = now, st_btime = None\<rparr>"

section \<open>Pure file-system functions\<close>

definition is_dir_at :: "disk \<Rightarrow> path \<Rightarrow> bool" where
  "is_dir_at d p = (case map_of d p of Some (DirObj _) \<Rightarrow> True | _ \<Rightarrow> False)"

definition is_file_at :: "disk \<Rightarrow> path \<Rightarrow> bool" where
  "is_file_at d p = (case map_of d p of Some (RegFile _ _) \<Rightarrow> True | _ \<Rightarrow> False)"

definition exists_at :: "disk \<Rightarrow> path \<Rightarrow> bool" where
  "exists_at d p = (map_of d p \<noteq> None)"

definition children :: "disk \<Rightarrow> path \<Rightarrow> string list" where
  "children d p = map (last \<circ> fst) (filter (\<lambda>(q, _). q \<noteq> [] \<and> butlast q = p) d)"

text \<open>The error of a path that does not resolve.\<close>

definition walk_err :: "disk \<Rightarrow> path \<Rightarrow> io_error" where
  "walk_err d p = (if list_ex (\<lambda>q. is_file_at d q) (prefixes (butlast p)) then ENOTDIR else ENOENT)"

text \<open>
  What the kernel does with a last path component it cannot use as a name. A component that
  contains a slash is several components; the server only ever appends such text after a
  decimal number and a dot, and makes no directory of that form, so it does not resolve.
\<close>

definition comp_err :: "disk \<Rightarrow> path \<Rightarrow> string \<Rightarrow> io_error option" where
  "comp_err d par c =
     (if CHR 0x00 \<in> set c then Some EINVAL
      else if CHR ''/'' \<in> set c
        then Some (if is_file_at d (par @ [takeWhile (\<lambda>x. x \<noteq> CHR ''/'') c]) then ENOTDIR else ENOENT)
      else if NAME_MAX < length c then Some ENAMETOOLONG
      else None)"

definition k_new :: "obj \<Rightarrow> path \<Rightarrow> disk \<Rightarrow> io_error + unit \<times> disk" where
  "k_new ob p d =
     (if p = [] then Inl EEXIST
      else if \<not> is_dir_at d (butlast p) then Inl (walk_err d p)
      else case comp_err d (butlast p) (last p) of
        Some e \<Rightarrow> Inl e
      | None \<Rightarrow> if exists_at d p then Inl EEXIST else Inr ((), AList.update p ob d))"

text \<open>\<^verbatim>\<open>OpenOptions::new().read(true).write(true).create_new(true).open(p)\<close>\<close>

definition k_create_new :: "tspec \<Rightarrow> path \<Rightarrow> disk \<Rightarrow> io_error + unit \<times> disk" where
  "k_create_new now p d = k_new (RegFile (fresh_stamps now) []) p d"

text \<open>\<^verbatim>\<open>create_dir(p)\<close>\<close>

definition k_mkdir :: "tspec \<Rightarrow> path \<Rightarrow> disk \<Rightarrow> io_error + unit \<times> disk" where
  "k_mkdir now p d = k_new (DirObj (fresh_stamps now)) p d"

text \<open>\<^verbatim>\<open>File::create(p)\<close>: make it, or truncate it\<close>

definition k_create :: "tspec \<Rightarrow> path \<Rightarrow> disk \<Rightarrow> io_error + unit \<times> disk" where
  "k_create now p d =
     (case map_of d p of
        Some (RegFile st _) \<Rightarrow> Inr ((), AList.update p (RegFile (st\<lparr>st_mtime := now\<rparr>) []) d)
      | Some (DirObj _) \<Rightarrow> Inl EISDIR
      | None \<Rightarrow> k_new (RegFile (fresh_stamps now) []) p d)"

text \<open>\<^verbatim>\<open>remove_file(p)\<close>\<close>

definition k_unlink :: "path \<Rightarrow> disk \<Rightarrow> io_error + unit \<times> disk" where
  "k_unlink p d =
     (case map_of d p of
        None \<Rightarrow>
          if p = [] then Inl ENOENT
          else Inl (case comp_err d (butlast p) (last p) of Some e \<Rightarrow> e | None \<Rightarrow> walk_err d p)
      | Some (DirObj _) \<Rightarrow> Inl EISDIR
      | Some (RegFile _ _) \<Rightarrow> Inr ((), AList.delete p d))"

text \<open>\<^verbatim>\<open>remove_dir(p)\<close>\<close>

definition k_rmdir :: "path \<Rightarrow> disk \<Rightarrow> io_error + unit \<times> disk" where
  "k_rmdir p d =
     (case map_of d p of
        None \<Rightarrow> Inl (walk_err d p)
      | Some (RegFile _ _) \<Rightarrow> Inl ENOTDIR
      | Some (DirObj _) \<Rightarrow>
          if p = [] then Inl EBUSY
          else if children d p \<noteq> [] then Inl ENOTEMPTY
          else Inr ((), AList.delete p d))"

definition move_path :: "path \<Rightarrow> path \<Rightarrow> path \<Rightarrow> path" where
  "move_path a b q = (if prefix a q then b @ drop (length a) q else q)"

definition relocate :: "path \<Rightarrow> path \<Rightarrow> disk \<Rightarrow> disk" where
  "relocate a b d = map (\<lambda>(q, x). (move_path a b q, x)) d"

text \<open>\<^verbatim>\<open>rename(a, b)\<close>: replaces a file, or an empty directory by a directory\<close>

definition k_rename :: "path \<Rightarrow> path \<Rightarrow> disk \<Rightarrow> io_error + unit \<times> disk" where
  "k_rename a b d =
     (case map_of d a of
        None \<Rightarrow> Inl (walk_err d a)
      | Some oa \<Rightarrow>
          if a = [] \<or> b = [] then Inl EBUSY
          else if \<not> is_dir_at d (butlast b) then Inl (walk_err d b)
          else case comp_err d (butlast b) (last b) of
            Some e \<Rightarrow> Inl e
          | None \<Rightarrow>
              if a = b then Inr ((), d)
              else if prefix a b then Inl EINVAL
              else case map_of d b of
                None \<Rightarrow> Inr ((), relocate a b d)
              | Some (RegFile _ _) \<Rightarrow>
                  (case oa of DirObj _ \<Rightarrow> Inl ENOTDIR
                   | RegFile _ _ \<Rightarrow> Inr ((), relocate a b (AList.delete b d)))
              | Some (DirObj _) \<Rightarrow>
                  (case oa of RegFile _ _ \<Rightarrow> Inl EISDIR
                   | DirObj _ \<Rightarrow>
                       if children d b \<noteq> [] then Inl ENOTEMPTY
                       else Inr ((), relocate a b (AList.delete b d))))"

text \<open>\<^verbatim>\<open>File::open(p)\<close>; opening for writing refuses a directory\<close>

definition k_open :: "bool \<Rightarrow> path \<Rightarrow> disk \<Rightarrow> io_error + unit \<times> disk" where
  "k_open write p d =
     (case map_of d p of
        None \<Rightarrow> Inl (walk_err d p)
      | Some (DirObj _) \<Rightarrow> if write then Inl EISDIR else Inr ((), d)
      | Some (RegFile _ _) \<Rightarrow> Inr ((), d))"

definition k_read_dir :: "path \<Rightarrow> disk \<Rightarrow> io_error + string list \<times> disk" where
  "k_read_dir p d =
     (case map_of d p of
        None \<Rightarrow> Inl (walk_err d p)
      | Some (RegFile _ _) \<Rightarrow> Inl ENOTDIR
      | Some (DirObj _) \<Rightarrow> Inr (children d p, d))"

definition k_metadata :: "path \<Rightarrow> disk \<Rightarrow> io_error + obj \<times> disk" where
  "k_metadata p d = (case map_of d p of None \<Rightarrow> Inl (walk_err d p) | Some ob \<Rightarrow> Inr (ob, d))"

text \<open>The content of a regular file; \<^verbatim>\<open>read\<close> on a directory fails.\<close>

definition k_content :: "path \<Rightarrow> disk \<Rightarrow> io_error + bytes \<times> disk" where
  "k_content p d =
     (case map_of d p of
        None \<Rightarrow> Inl (walk_err d p)
      | Some (DirObj _) \<Rightarrow> Inl EISDIR
      | Some (RegFile _ bs) \<Rightarrow> Inr (bs, d))"

definition k_modify :: "tspec \<Rightarrow> (bytes \<Rightarrow> bytes) \<Rightarrow> path \<Rightarrow> disk \<Rightarrow> io_error + unit \<times> disk" where
  "k_modify now f p d =
     (case map_of d p of
        None \<Rightarrow> Inl (walk_err d p)
      | Some (DirObj _) \<Rightarrow> Inl EISDIR
      | Some (RegFile st bs) \<Rightarrow>
          Inr ((), AList.update p (RegFile (st\<lparr>st_mtime := now\<rparr>) (f bs)) d))"

fun set_times :: "tspec \<Rightarrow> tspec \<Rightarrow> obj \<Rightarrow> obj" where
  "set_times a m (RegFile st bs) = RegFile (st\<lparr>st_atime := a, st_mtime := m\<rparr>) bs"
| "set_times a m (DirObj st) = DirObj (st\<lparr>st_atime := a, st_mtime := m\<rparr>)"

definition k_utimens :: "tspec \<Rightarrow> tspec \<Rightarrow> path \<Rightarrow> disk \<Rightarrow> io_error + unit \<times> disk" where
  "k_utimens a m p d =
     (case map_of d p of
        None \<Rightarrow> Inl (walk_err d p)
      | Some ob \<Rightarrow> Inr ((), AList.update p (set_times a m ob) d))"

section \<open>System calls with a fault schedule\<close>

definition run_call :: "(tspec \<Rightarrow> disk \<Rightarrow> io_error + 'a \<times> disk) \<Rightarrow> ('r host_scheme, io_error, 'a) M" where
  "run_call k s =
     (case k (h_clock s) (h_disk s) of
        Inl e \<Rightarrow> (Err e, s)
      | Inr (x, d) \<Rightarrow> (Ok x, s\<lparr>h_disk := d\<rparr>))"

definition next_fault :: "'r host_scheme \<Rightarrow> fault option" where
  "next_fault s = (case h_faults s of [] \<Rightarrow> None | f # _ \<Rightarrow> f)"

definition drop_fault :: "'r host_scheme \<Rightarrow> 'r host_scheme" where
  "drop_fault s = s\<lparr>h_faults := tl (h_faults s)\<rparr>"

definition sysM :: "(tspec \<Rightarrow> disk \<Rightarrow> io_error + 'a \<times> disk) \<Rightarrow> ('r host_scheme, io_error, 'a) M" where
  "sysM k s =
     (case next_fault s of
        None \<Rightarrow> run_call k (drop_fault s)
      | Some (FailWith e) \<Rightarrow> (Err e, drop_fault s)
      | Some PowerCut \<Rightarrow> (Crash, drop_fault s))"

text \<open>\<^verbatim>\<open>Path::is_dir\<close>, \<^verbatim>\<open>is_file\<close> and \<^verbatim>\<open>exists\<close> answer false when the call behind them fails.\<close>

definition queryM :: "(disk \<Rightarrow> bool) \<Rightarrow> ('r host_scheme, 'e, bool) M" where
  "queryM q s =
     (case next_fault s of
        None \<Rightarrow> (Ok (q (h_disk s)), drop_fault s)
      | Some (FailWith e) \<Rightarrow> (Ok False, drop_fault s)
      | Some PowerCut \<Rightarrow> (Crash, drop_fault s))"

definition fs_is_dir :: "path \<Rightarrow> ('r host_scheme, 'e, bool) M" where
  "fs_is_dir p = queryM (\<lambda>d. is_dir_at d p)"

definition fs_is_file :: "path \<Rightarrow> ('r host_scheme, 'e, bool) M" where
  "fs_is_file p = queryM (\<lambda>d. is_file_at d p)"

definition fs_exists :: "path \<Rightarrow> ('r host_scheme, 'e, bool) M" where
  "fs_exists p = queryM (\<lambda>d. exists_at d p)"

definition read_dir_sys :: "path \<Rightarrow> ('r host_scheme, io_error, string list) M" where
  "read_dir_sys p = sysM (\<lambda>_. k_read_dir p)"

definition open_sys :: "path \<Rightarrow> ('r host_scheme, io_error, unit) M" where
  "open_sys p = sysM (\<lambda>_. k_open False p)"

definition open_write_sys :: "path \<Rightarrow> ('r host_scheme, io_error, unit) M" where
  "open_write_sys p = sysM (\<lambda>_. k_open True p)"

definition create_new_sys :: "path \<Rightarrow> ('r host_scheme, io_error, unit) M" where
  "create_new_sys p = sysM (\<lambda>now. k_create_new now p)"

definition create_dir_sys :: "path \<Rightarrow> ('r host_scheme, io_error, unit) M" where
  "create_dir_sys p = sysM (\<lambda>now. k_mkdir now p)"

definition file_create_sys :: "path \<Rightarrow> ('r host_scheme, io_error, unit) M" where
  "file_create_sys p = sysM (\<lambda>now. k_create now p)"

definition remove_file_sys :: "path \<Rightarrow> ('r host_scheme, io_error, unit) M" where
  "remove_file_sys p = sysM (\<lambda>_. k_unlink p)"

definition remove_dir_sys :: "path \<Rightarrow> ('r host_scheme, io_error, unit) M" where
  "remove_dir_sys p = sysM (\<lambda>_. k_rmdir p)"

definition rename_sys :: "path \<Rightarrow> path \<Rightarrow> ('r host_scheme, io_error, unit) M" where
  "rename_sys a b = sysM (\<lambda>_. k_rename a b)"

text \<open>\<^verbatim>\<open>fsync\<close> changes nothing the model can see, but it can fail.\<close>

definition sync_sys :: "('r host_scheme, io_error, unit) M" where
  "sync_sys = sysM (\<lambda>_ d. Inr ((), d))"

definition metadata_sys :: "path \<Rightarrow> ('r host_scheme, io_error, obj) M" where
  "metadata_sys p = sysM (\<lambda>_. k_metadata p)"

text \<open>A file offset past \<^verbatim>\<open>2^63 - 1\<close> is negative to the kernel.\<close>

definition seek_sys :: "u64 \<Rightarrow> ('r host_scheme, io_error, unit) M" where
  "seek_sys off = sysM (\<lambda>_ d. if unat off < 2 ^ 63 then Inr ((), d) else Inl EINVAL)"

definition write_all_sys :: "path \<Rightarrow> u64 \<Rightarrow> bytes \<Rightarrow> ('r host_scheme, io_error, unit) M" where
  "write_all_sys p off data =
     (if data = [] then retM () else sysM (\<lambda>now. k_modify now (write_at (unat off) data) p))"

definition set_len_sys :: "path \<Rightarrow> u64 \<Rightarrow> ('r host_scheme, io_error, unit) M" where
  "set_len_sys p n =
     sysM (\<lambda>now d. if unat n < 2 ^ 63 then k_modify now (resize_bytes (unat n)) p d else Inl EINVAL)"

text \<open>\<^verbatim>\<open>FileExt::read_at\<close> into a buffer of \<open>n\<close> bytes\<close>

definition read_at_sys :: "path \<Rightarrow> u64 \<Rightarrow> nat \<Rightarrow> ('r host_scheme, io_error, bytes) M" where
  "read_at_sys p off n =
     sysM (\<lambda>_ d. if unat off < 2 ^ 63
       then case k_content p d of Inl e \<Rightarrow> Inl e | Inr (bs, d') \<Rightarrow> Inr (take n (drop (unat off) bs), d')
       else Inl EINVAL)"

text \<open>\<^verbatim>\<open>futimens\<close> takes nanoseconds as a signed 64-bit number and checks their range.\<close>

definition valid_nsec :: "u64 \<Rightarrow> bool" where
  "valid_nsec n = (unat n < 1000000000)"

definition futimens_sys ::
  "path \<Rightarrow> u64 \<times> u64 \<Rightarrow> u64 \<times> u64 \<Rightarrow> ('r host_scheme, io_error, unit) M" where
  "futimens_sys p a m =
     sysM (\<lambda>_ d. if valid_nsec (snd a) \<and> valid_nsec (snd m)
       then k_utimens (fst a, ucast (snd a)) (fst m, ucast (snd m)) p d else Inl EINVAL)"

text \<open>
  \<^verbatim>\<open>std::fs::copy(a, b)\<close>: refuses a source that is not a regular file, creates or truncates
  the target, then copies the bytes.
\<close>

definition copy_sys :: "path \<Rightarrow> path \<Rightarrow> ('r host_scheme, io_error, unit) M" where
  "copy_sys a b =
     bindM (fs_is_file a) (\<lambda>f.
     if \<not> f then errM InvalidInput
     else bindM (sysM (\<lambda>_. k_content a)) (\<lambda>bs.
          thenM (file_create_sys b)
                (sysM (\<lambda>now. k_modify now (\<lambda>_. bs) b))))"


section \<open>Running the calls\<close>

lemma drop_fault_calm: "h_faults s = [] \<Longrightarrow> drop_fault s = s"
  by (cases s) (simp add: drop_fault_def)

lemma next_fault_calm: "h_faults s = [] \<Longrightarrow> next_fault s = None"
  by (simp add: next_fault_def)

text \<open>With an empty schedule a call does what the kernel function says.\<close>

lemma sysM_calm:
  "h_faults s = [] \<Longrightarrow>
     sysM k s = (case k (h_clock s) (h_disk s) of
        Inl e \<Rightarrow> (Err e, s) | Inr (x, d) \<Rightarrow> (Ok x, s\<lparr>h_disk := d\<rparr>))"
  by (simp add: sysM_def run_call_def drop_fault_calm next_fault_calm)

lemma queryM_calm: "h_faults s = [] \<Longrightarrow> queryM q s = (Ok (q (h_disk s)), s)"
  by (simp add: queryM_def drop_fault_calm next_fault_calm)

named_theorems calm "calls under an empty fault schedule"

lemma read_calls_calm [calm]:
  assumes "h_faults s = []"
  shows "fs_is_dir p s = (Ok (is_dir_at (h_disk s) p), s)"
    and "fs_is_file p s = (Ok (is_file_at (h_disk s) p), s)"
    and "fs_exists p s = (Ok (exists_at (h_disk s) p), s)"
    and "sync_sys s = (Ok (), s)"
    and "is_dir_at (h_disk s) p \<Longrightarrow> read_dir_sys p s = (Ok (children (h_disk s) p), s)"
  using assms
  by (auto simp: fs_is_dir_def fs_is_file_def fs_exists_def sync_sys_def read_dir_sys_def
      queryM_calm sysM_calm k_read_dir_def is_dir_at_def split: option.splits obj.splits)

text \<open>
  With any schedule: the call fails, or the process dies, or the kernel function decides;
  in the first two cases nothing but the schedule changed.
\<close>

lemma wp_sysM [wp_rules]:
  assumes "\<And>fs. Q Crash (s\<lparr>h_faults := fs\<rparr>)"
    and "\<And>fs e. Q (Err e) (s\<lparr>h_faults := fs\<rparr>)"
    and "\<And>fs x d. k (h_clock s) (h_disk s) = Inr (x, d) \<Longrightarrow>
           Q (Ok x) (s\<lparr>h_faults := fs, h_disk := d\<rparr>)"
  shows "wp (sysM k) Q s"
  using assms
  by (auto simp: wp_def sysM_def run_call_def drop_fault_def
      split: option.split fault.split sum.split)

lemma wp_queryM [wp_rules]:
  assumes "\<And>fs. Q Crash (s\<lparr>h_faults := fs\<rparr>)"
    and "\<And>fs b. b \<longrightarrow> q (h_disk s) \<Longrightarrow> Q (Ok b) (s\<lparr>h_faults := fs\<rparr>)"
  shows "wp (queryM q) Q s"
  using assms(1) assms(2) [of False] assms(2) [of "q (h_disk s)"]
  by (auto simp: wp_def queryM_def drop_fault_def split: option.split fault.split)

text \<open>
  A computation that only reads: under any schedule it returns, changes nothing but the
  schedule, and a value it returns satisfies \<open>P\<close>.
\<close>

definition reads :: "('r host_scheme, 'e, 'a) M \<Rightarrow> ('a \<Rightarrow> bool) \<Rightarrow> 'r host_scheme \<Rightarrow> bool" where
  "reads m P s = wp m (\<lambda>r s'. (\<exists>fs. s' = s\<lparr>h_faults := fs\<rparr>) \<and> r \<noteq> Hang \<and> (\<forall>x. r = Ok x \<longrightarrow> P x)) s"

named_theorems reads_rules "computations that only read"

lemma keep_faults [simp]: "\<exists>fs. s = s\<lparr>h_faults := fs\<rparr>"
  by (rule exI [of _ "h_faults s"]) simp

lemma reads_bindM [reads_rules]:
  assumes "reads m P s" and "\<And>fs x. P x \<Longrightarrow> reads (f x) Q (s\<lparr>h_faults := fs\<rparr>)"
  shows "reads (bindM m f) Q s"
proof -
  obtain r s' where m: "m s = (r, s')" by (cases "m s")
  with assms(1) obtain fs where s': "s' = s\<lparr>h_faults := fs\<rparr>"
      and r: "r \<noteq> Hang" "\<And>x. r = Ok x \<Longrightarrow> P x"
    by (auto simp: reads_def wp_def)
  show ?thesis
  proof (cases r)
    case (Ok x)
    then show ?thesis
      using assms(2) [of x fs] r(2) m s' by (auto simp: reads_def wp_def bindM_apply)
  qed (use m s' r in \<open>auto simp: reads_def wp_def bindM_apply\<close>)
qed

lemma reads_thenM [reads_rules]:
  "reads m P s \<Longrightarrow> (\<And>fs x. P x \<Longrightarrow> reads k Q (s\<lparr>h_faults := fs\<rparr>)) \<Longrightarrow> reads (thenM m k) Q s"
  unfolding thenM_def by (rule reads_bindM)

lemma reads_retM [reads_rules]: "P x \<Longrightarrow> reads (retM x) P s"
  by (simp add: reads_def wp_def retM_def)

lemma reads_assertM [reads_rules]: "(b \<Longrightarrow> P ()) \<Longrightarrow> reads (assertM b msg) P s"
  by (simp add: reads_def wp_def monad_simps)

lemma reads_getsM [reads_rules]: "P (f s) \<Longrightarrow> reads (getsM f) P s"
  by (simp add: reads_def wp_def monad_simps)

lemma reads_unwrap_optM [reads_rules]: "(\<And>v. x = Some v \<Longrightarrow> P v) \<Longrightarrow> reads (unwrap_optM x) P s"
  by (cases x) (simp_all add: reads_def wp_def monad_simps)

lemma reads_map_errM [reads_rules]: "reads m P s \<Longrightarrow> reads (map_errM g m) P s"
  unfolding reads_def wp_map_errM
  by (erule wp_mono) (auto elim!: map_err_out.elims)

lemma reads_mono: "reads m P s \<Longrightarrow> (\<And>x. P x \<Longrightarrow> Q x) \<Longrightarrow> reads m Q s"
  unfolding reads_def by (erule wp_mono) auto

lemma reads_sysM:
  assumes "\<And>x d. k (h_clock s) (h_disk s) = Inr (x, d) \<Longrightarrow> d = h_disk s \<and> P x"
  shows "reads (sysM k) P s"
  unfolding reads_def by (rule wp_sysM) (use assms in auto)

lemma reads_queryM: "(\<And>b. b \<longrightarrow> q (h_disk s) \<Longrightarrow> P b) \<Longrightarrow> reads (queryM q) P s"
  unfolding reads_def by (rule wp_queryM) auto

lemma reads_fs_is_dir [reads_rules]:
  "(\<And>b. b \<longrightarrow> is_dir_at (h_disk s) p \<Longrightarrow> P b) \<Longrightarrow> reads (fs_is_dir p) P s"
  unfolding fs_is_dir_def by (rule reads_queryM) blast

lemma reads_fs_is_file [reads_rules]:
  "(\<And>b. b \<longrightarrow> is_file_at (h_disk s) p \<Longrightarrow> P b) \<Longrightarrow> reads (fs_is_file p) P s"
  unfolding fs_is_file_def by (rule reads_queryM) blast

lemma reads_fs_exists [reads_rules]:
  "(\<And>b. b \<longrightarrow> exists_at (h_disk s) p \<Longrightarrow> P b) \<Longrightarrow> reads (fs_exists p) P s"
  unfolding fs_exists_def by (rule reads_queryM) blast

lemma reads_read_dir [reads_rules]:
  "P (children (h_disk s) p) \<Longrightarrow> reads (read_dir_sys p) P s"
  unfolding read_dir_sys_def
  by (rule reads_sysM) (auto simp: k_read_dir_def split: option.splits obj.splits)

section \<open>Effect of the kernel functions on the store\<close>

lemma is_dir_at_iff: "is_dir_at d p \<longleftrightarrow> (\<exists>st. map_of d p = Some (DirObj st))"
  by (auto simp: is_dir_at_def split: option.splits obj.splits)

lemma is_file_at_iff: "is_file_at d p \<longleftrightarrow> (\<exists>st bs. map_of d p = Some (RegFile st bs))"
  by (auto simp: is_file_at_def split: option.splits obj.splits)

lemma dir_not_file: "is_dir_at d p \<Longrightarrow> \<not> is_file_at d p"
  by (auto simp: is_dir_at_iff is_file_at_iff)

lemma in_children_iff: "c \<in> set (children d p) \<longleftrightarrow> map_of d (p @ [c]) \<noteq> None"
proof -
  have "(\<exists>q. q \<in> set (map fst d) \<and> q \<noteq> [] \<and> butlast q = p \<and> c = last q) \<longleftrightarrow> p @ [c] \<in> set (map fst d)"
    by (metis append_butlast_last_id butlast_snoc last_snoc snoc_eq_iff_butlast)
  then show ?thesis
    by (force simp: children_def map_of_eq_None_iff)
qed

lemma distinct_children: "distinct (map fst d) \<Longrightarrow> distinct (children d p)"
proof (induction d)
  case Nil
  then show ?case by (simp add: children_def)
next
  case (Cons x d)
  obtain q ob where x: "x = (q, ob)" by (cases x)
  show ?case
  proof (cases "q \<noteq> [] \<and> butlast q = p")
    case True
    then have q: "q = p @ [last q]"
      by (metis append_butlast_last_id)
    then have "map_of d (p @ [last q]) = None"
      using Cons.prems x by (simp add: map_of_eq_None_iff)
    then have "last q \<notin> set (children d p)"
      by (simp add: in_children_iff)
    moreover have "children (x # d) p = last q # children d p"
      using True x by (simp add: children_def)
    ultimately show ?thesis using Cons by simp
  next
    case False
    then have "children (x # d) p = children d p"
      using x by (auto simp: children_def)
    then show ?thesis using Cons by simp
  qed
qed

lemma k_new_map:
  "k_new ob p d = Inr (u, d') \<Longrightarrow>
     d' = AList.update p ob d \<and> map_of d p = None \<and> p \<noteq> [] \<and> is_dir_at d (butlast p)
     \<and> comp_err d (butlast p) (last p) = None"
  by (auto simp: k_new_def exists_at_def split: if_splits option.splits)

lemma k_unlink_map:
  "k_unlink p d = Inr (u, d') \<Longrightarrow> d' = AList.delete p d \<and> is_file_at d p"
  by (auto simp: k_unlink_def is_file_at_iff split: if_splits option.splits obj.splits)

lemma k_rmdir_map:
  "k_rmdir p d = Inr (u, d') \<Longrightarrow>
     d' = AList.delete p d \<and> is_dir_at d p \<and> children d p = [] \<and> p \<noteq> []"
  by (auto simp: k_rmdir_def is_dir_at_iff split: if_splits option.splits obj.splits)

lemma k_modify_map:
  "k_modify now f p d = Inr (u, d') \<Longrightarrow>
     \<exists>st bs. map_of d p = Some (RegFile st bs)
       \<and> d' = AList.update p (RegFile (st\<lparr>st_mtime := now\<rparr>) (f bs)) d"
  by (auto simp: k_modify_def split: option.splits obj.splits)

section \<open>Well-formed stores\<close>

text \<open>Every path name occurs once, and its parent is a directory.\<close>

definition wf_disk :: "disk \<Rightarrow> bool" where
  "wf_disk d = (distinct (map fst d) \<and> is_dir_at d []
     \<and> list_all (\<lambda>(q, _). q = [] \<or> is_dir_at d (butlast q)) d)"

lemma wf_disk_parent:
  assumes "wf_disk d" "map_of d (p @ [c]) \<noteq> None"
  shows "is_dir_at d p"
proof -
  from assms(2) obtain ob where "(p @ [c], ob) \<in> set d"
    by (auto dest: map_of_SomeD)
  with assms(1) show ?thesis
    by (force simp: wf_disk_def list_all_iff)
qed

lemma wf_diskI:
  assumes "distinct (map fst d)" "is_dir_at d []"
    and "\<And>p c. map_of d (p @ [c]) \<noteq> None \<Longrightarrow> is_dir_at d p"
  shows "wf_disk d"
proof -
  have "q = [] \<or> is_dir_at d (butlast q)" if "(q, ob) \<in> set d" for q ob
  proof (cases q rule: rev_cases)
    case (snoc p c)
    then have "map_of d (p @ [c]) \<noteq> None"
      using that by (auto simp: map_of_eq_None_iff intro: rev_image_eqI)
    then show ?thesis using snoc assms(3) by simp
  qed simp
  then show ?thesis
    using assms(1,2) by (auto simp: wf_disk_def list_all_iff)
qed

lemma wf_disk_distinct: "wf_disk d \<Longrightarrow> distinct (map fst d)"
  by (simp add: wf_disk_def)

lemma wf_disk_root: "wf_disk d \<Longrightarrow> is_dir_at d []"
  by (simp add: wf_disk_def)

lemma wf_disk_append:
  assumes "wf_disk d" "map_of d (p @ q) \<noteq> None" "q \<noteq> []"
  shows "is_dir_at d p"
  using assms(2,3)
proof (induction q rule: rev_induct)
  case (snoc c q)
  then have "is_dir_at d (p @ q)"
    using wf_disk_parent [OF assms(1), of "p @ q" c] by simp
  with snoc.IH show ?case
    by (cases "q = []") (auto simp: is_dir_at_iff)
qed simp

lemma leaf_no_extension:
  assumes "wf_disk d" "\<And>c. map_of d (p @ [c]) = None" "prefix p q" "q \<noteq> p"
  shows "map_of d q = None"
proof (rule ccontr)
  assume present: "map_of d q \<noteq> None"
  from assms(3,4) obtain r' where "q = p @ r'" "r' \<noteq> []"
    by (auto simp: prefix_def)
  then obtain c r where q: "q = (p @ [c]) @ r"
    by (cases r') auto
  have "map_of d (p @ [c]) \<noteq> None"
    using present wf_disk_append [OF assms(1), of "p @ [c]" r] q
    by (cases "r = []") (auto simp: is_dir_at_iff)
  with assms(2) show False by simp
qed

lemma file_is_leaf: "wf_disk d \<Longrightarrow> is_file_at d p \<Longrightarrow> map_of d (p @ [c]) = None"
  using wf_disk_parent dir_not_file by blast

lemma wf_disk_update_new:
  assumes "wf_disk d" "is_dir_at d (butlast p)" "p \<noteq> []" "map_of d p = None"
  shows "wf_disk (AList.update p ob d)"
proof (rule wf_diskI)
  show "distinct (map fst (AList.update p ob d))"
    using assms(1) by (simp add: wf_disk_def)
  have keep: "is_dir_at (AList.update p ob d) q" if "is_dir_at d q" for q
    using that assms(4) by (auto simp: is_dir_at_iff)
  show "is_dir_at (AList.update p ob d) []"
    using keep wf_disk_root [OF assms(1)] .
  fix q c assume "map_of (AList.update p ob d) (q @ [c]) \<noteq> None"
  then have "q @ [c] = p \<or> map_of d (q @ [c]) \<noteq> None"
    by (auto split: if_splits)
  then have "is_dir_at d q"
    using assms(2) wf_disk_parent [OF assms(1)] by auto
  then show "is_dir_at (AList.update p ob d) q" by (rule keep)
qed

lemma wf_disk_update_same:
  assumes "wf_disk d" "map_of d p \<noteq> None"
    and "is_dir_at d p \<Longrightarrow> \<exists>st. ob = DirObj st"
  shows "wf_disk (AList.update p ob d)"
proof (rule wf_diskI)
  show "distinct (map fst (AList.update p ob d))"
    using assms(1) by (simp add: wf_disk_def)
  have keep: "is_dir_at (AList.update p ob d) q" if "is_dir_at d q" for q
    using that assms(3) by (auto simp: is_dir_at_iff)
  show "is_dir_at (AList.update p ob d) []"
    using keep wf_disk_root [OF assms(1)] .
  fix q c assume "map_of (AList.update p ob d) (q @ [c]) \<noteq> None"
  then have "map_of d (q @ [c]) \<noteq> None"
    using assms(2) by (auto split: if_splits)
  then show "is_dir_at (AList.update p ob d) q"
    using keep wf_disk_parent [OF assms(1)] by blast
qed

lemma wf_disk_delete:
  assumes "wf_disk d" "p \<noteq> []" "\<And>c. map_of d (p @ [c]) = None"
  shows "wf_disk (AList.delete p d)"
proof (rule wf_diskI)
  show "distinct (map fst (AList.delete p d))"
    using assms(1) by (simp add: wf_disk_def)
  show "is_dir_at (AList.delete p d) []"
    using wf_disk_root [OF assms(1)] assms(2) by (simp add: is_dir_at_iff)
  fix q c assume "map_of (AList.delete p d) (q @ [c]) \<noteq> None"
  then have "map_of d (q @ [c]) \<noteq> None" by (auto split: if_splits)
  moreover from this have "q \<noteq> p" using assms(3) by auto
  ultimately show "is_dir_at (AList.delete p d) q"
    using wf_disk_parent [OF assms(1)] by (simp add: is_dir_at_iff)
qed

section \<open>Moving a subtree\<close>

lemma move_path_self [simp]: "move_path a b (a @ r) = b @ r"
  by (simp add: move_path_def)

lemma move_path_other: "\<not> prefix a q \<Longrightarrow> move_path a b q = q"
  by (simp add: move_path_def)

lemma relocate_map:
  assumes dist: "distinct (map fst d)"
    and free: "\<And>q. prefix b q \<Longrightarrow> map_of d q = None"
  shows "map_of (relocate a b d) q =
     (if prefix b q then map_of d (a @ drop (length b) q)
      else if prefix a q then None else map_of d q)"
proof -
  have key: "\<not> prefix b q" if "q \<in> fst ` set d" for q
    using free that by (metis map_of_eq_None_iff)
  have inj: "inj_on (move_path a b) (fst ` set d)"
    by (rule inj_onI) (auto simp: move_path_def prefix_def dest!: key split: if_splits)
  have fst_reloc: "map fst (relocate a b d) = map (move_path a b) (map fst d)"
    by (auto simp: relocate_def)
  have dist': "distinct (map fst (relocate a b d))"
    unfolding fst_reloc using dist inj by (subst distinct_map) simp
  have mem: "map_of (relocate a b d) q = Some x \<longleftrightarrow>
      (\<exists>q0. map_of d q0 = Some x \<and> q = move_path a b q0)" for x
  proof -
    have "map_of (relocate a b d) q = Some x \<longleftrightarrow> (q, x) \<in> set (relocate a b d)"
      using dist' by simp
    also have "\<dots> \<longleftrightarrow> (\<exists>q0. (q0, x) \<in> set d \<and> q = move_path a b q0)"
      by (auto simp: relocate_def)
    finally show ?thesis using dist by simp
  qed
  consider r where "q = b @ r" | r where "\<not> prefix b q" "q = a @ r" | "\<not> prefix b q" "\<not> prefix a q"
    by (auto simp: prefix_def)
  then show ?thesis
  proof cases
    case (1 r)
    have "(\<exists>q0. map_of d q0 = Some x \<and> q = move_path a b q0) \<longleftrightarrow> map_of d (a @ r) = Some x" for x
      using free [of q] 1 by (auto simp: move_path_def prefix_def split: if_splits)
    then have "map_of (relocate a b d) q = Some x \<longleftrightarrow> map_of d (a @ r) = Some x" for x
      using mem by simp
    then have "map_of (relocate a b d) q = map_of d (a @ r)"
      by (metis not_Some_eq)
    then show ?thesis using 1 by simp
  next
    case (2 r)
    then have "map_of (relocate a b d) q \<noteq> Some x" for x
      using mem [of x] by (auto simp: move_path_def split: if_splits)
    then show ?thesis using 2 by auto
  next
    case 3
    have "(\<exists>q0. map_of d q0 = Some x \<and> q = move_path a b q0) \<longleftrightarrow> map_of d q = Some x" for x
      using 3 by (auto simp: move_path_def split: if_splits)
    then have "map_of (relocate a b d) q = Some x \<longleftrightarrow> map_of d q = Some x" for x
      using mem by simp
    then have "map_of (relocate a b d) q = map_of d q"
      by (metis not_Some_eq)
    then show ?thesis using 3 by simp
  qed
qed

lemma delete_absent: "map_of d k = None \<Longrightarrow> AList.delete k d = d"
  by (simp add: map_of_eq_None_iff delete_id)

lemma k_rename_map:
  "k_rename a b d = Inr (u, d') \<Longrightarrow>
     map_of d a \<noteq> None \<and> a \<noteq> [] \<and> b \<noteq> [] \<and> is_dir_at d (butlast b)
     \<and> comp_err d (butlast b) (last b) = None
     \<and> (if a = b then d' = d
        else \<not> prefix a b \<and> d' = relocate a b (AList.delete b d)
          \<and> (map_of d b = None \<or> (is_file_at d b \<and> is_file_at d a)
             \<or> (is_dir_at d b \<and> children d b = [] \<and> is_dir_at d a)))"
  by (auto simp: k_rename_def is_file_at_iff is_dir_at_iff delete_absent
      split: if_splits option.splits obj.splits)

lemma rename_target_leaf:
  assumes "wf_disk d"
    and "map_of d b = None \<or> is_file_at d b \<or> (is_dir_at d b \<and> children d b = [])"
  shows "map_of d (b @ [c]) = None"
proof -
  from assms(2) consider "map_of d b = None" | "is_file_at d b" | "children d b = []" by auto
  then show ?thesis
  proof cases
    case 1
    then have "\<not> is_dir_at d b" by (simp add: is_dir_at_iff)
    then show ?thesis
      using wf_disk_parent [OF assms(1), of b c] by blast
  next
    case 2
    then show ?thesis by (rule file_is_leaf [OF assms(1)])
  next
    case 3
    then show ?thesis using in_children_iff [of c d b] by simp
  qed
qed

text \<open>What a successful rename between different places does to every path.\<close>

lemma k_rename_lookup:
  assumes wf: "wf_disk d" and run: "k_rename a b d = Inr (u, d')" and ne: "a \<noteq> b"
  shows "map_of d' q =
     (if prefix b q then map_of d (a @ drop (length b) q)
      else if prefix a q then None else map_of d q)"
proof -
  note facts = k_rename_map [OF run]
  have leaf: "map_of d (b @ [c]) = None" for c
    using facts ne by (auto intro: rename_target_leaf [OF wf])
  have free: "map_of (AList.delete b d) q = None" if "prefix b q" for q
    using leaf_no_extension [OF wf leaf that] by auto
  have nab: "\<not> prefix a b" and d': "d' = relocate a b (AList.delete b d)"
    using facts ne by auto
  have a_r: "a @ r \<noteq> b" for r
    using nab by (auto simp: prefix_def)
  have b_q: "q \<noteq> b" if "\<not> prefix b q" for q
    using that by auto
  have "map_of d' q =
     (if prefix b q then map_of (AList.delete b d) (a @ drop (length b) q)
      else if prefix a q then None else map_of (AList.delete b d) q)"
    unfolding d' using wf_disk_distinct [OF wf] free by (intro relocate_map) auto
  then show ?thesis
    using a_r b_q by auto
qed

lemma wf_disk_rename:
  assumes wf: "wf_disk d" and run: "k_rename a b d = Inr (u, d')"
  shows "wf_disk d'"
proof (cases "a = b")
  case True
  then show ?thesis using k_rename_map [OF run] wf by simp
next
  case False
  note look = k_rename_lookup [OF wf run False]
  note facts = k_rename_map [OF run]
  have nab: "\<not> prefix a b" "\<not> prefix b a"
  proof -
    show "\<not> prefix a b" using facts False by simp
    have leaf: "map_of d (b @ [c]) = None" for c
      using facts False by (auto intro: rename_target_leaf [OF wf])
    show "\<not> prefix b a"
      using leaf_no_extension [OF wf leaf, of a] facts False by auto
  qed
  have par: "\<not> prefix b (butlast b)"
    using facts by (metis butlast_snoc append_butlast_last_id not_Cons_self2 prefix_def append_assoc append_self_conv append_is_Nil_conv)
  have "distinct (map fst d')"
  proof -
    have free: "map_of (AList.delete b d) q = None" if "prefix b q" for q
      using leaf_no_extension [OF wf _ that] facts False rename_target_leaf [OF wf] by auto
    have "\<not> prefix b q" if "q \<in> fst ` set (AList.delete b d)" for q
      using free that by (metis map_of_eq_None_iff)
    then have "inj_on (move_path a b) (fst ` set (AList.delete b d))"
      by (intro inj_onI) (auto simp: move_path_def prefix_def split: if_splits)
    moreover have "map fst d' = map (move_path a b) (map fst (AList.delete b d))"
      using facts False by (auto simp: relocate_def)
    ultimately show ?thesis
      using wf_disk_distinct [OF wf] by (subst \<open>map fst d' = _\<close>, subst distinct_map) simp
  qed
  moreover have "is_dir_at d' []"
    using wf_disk_root [OF wf] facts by (auto simp: is_dir_at_iff look)
  moreover have "is_dir_at d' p" if present: "map_of d' (p @ [c]) \<noteq> None" for p c
  proof (cases "prefix b (p @ [c])")
    case True
    show ?thesis
    proof (cases "p @ [c] = b")
      case True
      then have "is_dir_at d p" using facts by auto
      then show ?thesis
        using True nab by (auto simp: is_dir_at_iff look)
    next
      case False
      with True have "prefix b p" by simp
      then have "map_of d (a @ drop (length b) p @ [c]) \<noteq> None"
        using present True by (auto simp: look prefix_def)
      then have "is_dir_at d (a @ drop (length b) p)"
        using wf_disk_parent [OF wf, of "a @ drop (length b) p" c] by simp
      then show ?thesis using \<open>prefix b p\<close> by (simp add: is_dir_at_iff look)
    qed
  next
    case False
    then have "map_of d (p @ [c]) \<noteq> None" "\<not> prefix a (p @ [c])"
      using present by (auto simp: look split: if_splits)
    then have "is_dir_at d p" "\<not> prefix a p" "\<not> prefix b p"
      using wf_disk_parent [OF wf] False by auto
    then show ?thesis by (simp add: is_dir_at_iff look)
  qed
  ultimately show ?thesis by (rule wf_diskI)
qed

end
