(* ===== verification/Protocol.thy ===== *)
theory Protocol
  imports HostFs
begin

text \<open>
  The RPC protocol: the structures of \<^verbatim>\<open>protocol/src/zippynfs.thrift\<close> as records and
  datatypes, the thrift error type the handlers return, and the conversions of
  \<^verbatim>\<open>protocol/src/errors.rs\<close> between them and the client's error type. An \<^verbatim>\<open>i64\<close> on the wire
  is a 64-bit word that \<^verbatim>\<open>sint\<close> reads.
\<close>

section \<open>Structures on the wire\<close>

datatype zip_error_type =
    NFSERR_NOENT
  | NFSERR_EXIST
  | NFSERR_NOTDIR
  | NFSERR_ISDIR
  | NFSERR_NOTEMPTY
  | NFSERR_STALE
  | NFSERR_NAMETOOLONG

datatype zip_ftype = NFNON | NFREG | NFDIR | NFBLK | NFCHR | NFLNK

record zip_time_val =
  tv_seconds :: u64
  tv_useconds :: u64

record zip_sattr =
  sa_mode :: "u16 option"
  sa_uid :: "u64 option"
  sa_gid :: "u64 option"
  sa_size :: "u64 option"
  sa_atime :: "zip_time_val option"
  sa_mtime :: "zip_time_val option"

record zip_fattr =
  fa_type :: zip_ftype
  fa_mode :: u16
  fa_nlink :: u64
  fa_uid :: u64
  fa_gid :: u64
  fa_size :: u64
  fa_blocksize :: u64
  fa_rdev :: u64
  fa_blocks :: u64
  fa_fsid :: u64
  fa_fid :: u64
  fa_atime :: zip_time_val
  fa_mtime :: zip_time_val
  fa_ctime :: zip_time_val

text \<open>A file handle is its FID.\<close>

record zip_dir_op_args =
  da_dir :: u64
  da_filename :: string

record zip_dir_op_res =
  dr_file :: u64
  dr_attributes :: zip_fattr

record zip_sattr_args =
  ss_file :: u64
  ss_attributes :: zip_sattr

record zip_read_args =
  ra_file :: u64
  ra_offset :: u64
  ra_count :: u64

record zip_read_res =
  rr_attributes :: zip_fattr
  rr_data :: bytes

record zip_read_dir_args =
  rd_dir :: u64
  rd_offset :: u64

record zip_dir_entry =
  de_fid :: u64
  de_fname :: string
  de_type :: zip_ftype

datatype zip_write_stable = UNSTABLE | DATA_SYNC | FILE_SYNC

record zip_write_args =
  wa_file :: u64
  wa_offset :: u64
  wa_count :: u64
  wa_data :: bytes
  wa_stable :: zip_write_stable

record zip_write_res =
  wr_count :: u64
  wr_committed :: zip_write_stable
  wr_verf :: u64

record zip_create_args =
  ca_where :: zip_dir_op_args
  ca_attributes :: zip_sattr

record zip_stat_fs_res =
  sf_tsize :: u64
  sf_bsize :: u64
  sf_blocks :: u64
  sf_bfree :: u64
  sf_bavail :: u64

record zip_rename_args =
  rn_old_loc :: zip_dir_op_args
  rn_new_loc :: zip_dir_op_args

record zip_commit_args =
  cm_file :: u64
  cm_count :: u64
  cm_offset :: u64

text \<open>The maximum size of a message via Thrift.\<close>

definition MAX_BUF_LEN :: nat where
  "MAX_BUF_LEN = 4000"

section \<open>Errors\<close>

record zip_exception =
  ze_error :: zip_error_type
  ze_message :: string

text \<open>
  The thrift library's error: its \<^verbatim>\<open>From\<close> implementations turn an I/O error into a
  transport error and a string into an application error; the generated code wraps a
  \<^verbatim>\<open>ZipException\<close> as a user error.
\<close>

datatype thrift_error =
    ThriftTransport io_error
  | ThriftProtocol string
  | ThriftApplication string
  | ThriftUser zip_exception

definition error_message :: "zip_error_type \<Rightarrow> string" where
  "error_message error = (case error of
     NFSERR_STALE \<Rightarrow> ''NFSERR_STALE: Stale file handle''
   | NFSERR_EXIST \<Rightarrow> ''NFSERR_EXIST: File or directory exists''
   | NFSERR_ISDIR \<Rightarrow> ''NFSERR_ISDIR: Is a directory''
   | NFSERR_NOTDIR \<Rightarrow> ''NFSERR_NOTDIR: Not a directory''
   | NFSERR_NOTEMPTY \<Rightarrow> ''NFSERR_NOTEMPTY: Directory not empty''
   | NFSERR_NOENT \<Rightarrow> ''NFSERR_NOENT: No such file or directory''
   | NFSERR_NAMETOOLONG \<Rightarrow> ''NFSERR_NAMETOOLONG: File name too long'')"

definition nfs_error :: "zip_error_type \<Rightarrow> thrift_error" where
  "nfs_error error = ThriftUser \<lparr>ze_error = error, ze_message = error_message error\<rparr>"

datatype zip_error =
    ZipTransport io_error
  | ZipProtocol string
  | ZipApplication string
  | ZipNfs zip_error_type string

fun zip_error_from :: "thrift_error \<Rightarrow> zip_error" where
  "zip_error_from (ThriftTransport te) = ZipTransport te"
| "zip_error_from (ThriftProtocol pe) = ZipProtocol pe"
| "zip_error_from (ThriftApplication ae) = ZipApplication ae"
| "zip_error_from (ThriftUser ex) = ZipNfs (ze_error ex) (ze_message ex)"

lemma zip_error_from_nfs_error:
  "zip_error_from (nfs_error t) = ZipNfs t (error_message t)"
  by (simp add: nfs_error_def)

lemma nfs_error_inj [simp]: "nfs_error t = nfs_error u \<longleftrightarrow> t = u"
  by (auto simp: nfs_error_def)

text \<open>\<^verbatim>\<open>?\<close> on an \<^verbatim>\<open>io::Result\<close> and on a \<^verbatim>\<open>Result<_, String>\<close> in a handler\<close>

definition ioM :: "('s, io_error, 'a) M \<Rightarrow> ('s, thrift_error, 'a) M" where
  "ioM m = map_errM ThriftTransport m"

definition strM :: "('s, string, 'a) M \<Rightarrow> ('s, thrift_error, 'a) M" where
  "strM m = map_errM ThriftApplication m"

definition nfsM :: "zip_error_type \<Rightarrow> ('s, thrift_error, 'a) M" where
  "nfsM t = errM (nfs_error t)"

lemma nfsM_apply [monad_simps]: "nfsM t s = (Err (nfs_error t), s)"
  by (simp add: nfsM_def errM_def)

lemma wp_nfsM [wp_rules]: "wp (nfsM t) Q s = Q (Err (nfs_error t)) s"
  by (simp add: nfsM_def wp_errM)

lemma wp_ioM [wp_rules]: "wp (ioM m) Q s = wp m (\<lambda>r. Q (map_err_out ThriftTransport r)) s"
  by (simp add: ioM_def wp_map_errM)

lemma wp_strM [wp_rules]: "wp (strM m) Q s = wp m (\<lambda>r. Q (map_err_out ThriftApplication r)) s"
  by (simp add: strM_def wp_map_errM)

lemma ioM_apply [monad_simps]:
  "ioM m s = (case m s of (r, s') \<Rightarrow> (map_err_out ThriftTransport r, s'))"
  by (simp add: ioM_def map_errM_apply)

lemma strM_apply [monad_simps]:
  "strM m s = (case m s of (r, s') \<Rightarrow> (map_err_out ThriftApplication r, s'))"
  by (simp add: strM_def map_errM_apply)

text \<open>The text of an I/O error (\<^verbatim>\<open>format!("{}", e)\<close>)\<close>

definition io_text :: "io_error \<Rightarrow> string" where
  "io_text e = (case e of
     ENOENT \<Rightarrow> ''No such file or directory (os error 2)''
   | EEXIST \<Rightarrow> ''File exists (os error 17)''
   | ENOTDIR \<Rightarrow> ''Not a directory (os error 20)''
   | EISDIR \<Rightarrow> ''Is a directory (os error 21)''
   | ENOTEMPTY \<Rightarrow> ''Directory not empty (os error 39)''
   | EINVAL \<Rightarrow> ''Invalid argument (os error 22)''
   | ENAMETOOLONG \<Rightarrow> ''File name too long (os error 36)''
   | EBUSY \<Rightarrow> ''Device or resource busy (os error 16)''
   | EIO \<Rightarrow> ''Input/output error (os error 5)''
   | ENOSPC \<Rightarrow> ''No space left on device (os error 28)''
   | InvalidInput \<Rightarrow> ''the source path is not an existing regular file'')"

section \<open>The file type as an ordered enumeration\<close>

text \<open>The discriminants of \<^verbatim>\<open>ZipFtype\<close>, by which the generated Rust type is ordered.\<close>

fun ftype_code :: "zip_ftype \<Rightarrow> nat" where
  "ftype_code NFNON = 0"
| "ftype_code NFREG = 1"
| "ftype_code NFDIR = 2"
| "ftype_code NFBLK = 3"
| "ftype_code NFCHR = 4"
| "ftype_code NFLNK = 5"

lemma ftype_code_inj: "ftype_code a = ftype_code b \<longleftrightarrow> a = b"
  by (cases a; cases b) simp_all

instantiation zip_ftype :: linorder
begin

definition less_eq_zip_ftype :: "zip_ftype \<Rightarrow> zip_ftype \<Rightarrow> bool" where
  "less_eq_zip_ftype a b = (ftype_code a \<le> ftype_code b)"

definition less_zip_ftype :: "zip_ftype \<Rightarrow> zip_ftype \<Rightarrow> bool" where
  "less_zip_ftype a b = (ftype_code a < ftype_code b)"

instance
  by standard (auto simp: less_eq_zip_ftype_def less_zip_ftype_def ftype_code_inj)

end

end
