(* ===== verification/Counter.thy ===== *)
theory Counter
  imports Prelude
begin

text \<open>
  \<^verbatim>\<open>server/src/handler/counter.rs\<close>: the persistent FID counter. The counter lives in a
  memory-mapped file; \<^verbatim>\<open>ctr_mem\<close> is the mapped value, \<^verbatim>\<open>ctr_disk\<close> the value last flushed to
  the disk, and \<^verbatim>\<open>ctr_poisoned\<close> says that a thread panicked while it held the mutex.
\<close>

record apu =
  ctr_mem :: u64
  ctr_disk :: u64
  ctr_poisoned :: bool

definition from_file :: "u64 option \<Rightarrow> string + apu" where
  "from_file file =
     (case file of
        None \<Rightarrow> Inl ''No such file or directory (os error 2)''
      | Some v \<Rightarrow> Inr \<lparr>ctr_mem = v, ctr_disk = v, ctr_poisoned = False\<rparr>)"

text \<open>
  The steps of \<^verbatim>\<open>fetch_inc\<close> under the lock: read and add one (wrapping), then flush. The
  flush either succeeds or panics with the lock held.
\<close>

definition fetch_add :: "apu \<Rightarrow> u64 \<times> apu" where
  "fetch_add c = (ctr_mem c, c\<lparr>ctr_mem := ctr_mem c + 1\<rparr>)"

definition flush_ok :: "apu \<Rightarrow> apu" where
  "flush_ok c = c\<lparr>ctr_disk := ctr_mem c\<rparr>"

definition flush_fail :: "apu \<Rightarrow> apu" where
  "flush_fail c = c\<lparr>ctr_poisoned := True\<rparr>"

text \<open>The whole call; \<open>flush_works\<close> is what the operating system answers to the flush.\<close>

definition fetch_inc :: "bool \<Rightarrow> apu \<Rightarrow> (string, u64) outcome \<times> apu" where
  "fetch_inc flush_works c =
     (if ctr_poisoned c then (Panic ''PoisonError'', c)
      else let (val, c1) = fetch_add c
           in if flush_works then (Ok val, flush_ok c1)
              else (Panic ''flush'', flush_fail c1))"

section \<open>Unique numbers\<close>

text \<open>
  What the rest of the server relies on: a source of numbers each above the one before,
  as long as the counter does not wrap.
\<close>

locale fid_source =
  fixes fetch :: "'c \<Rightarrow> (u64 \<times> 'c) option"
    and level :: "'c \<Rightarrow> nat"
  assumes fetch_val: "fetch c = Some (v, c') \<Longrightarrow> unat v = level c"
    and fetch_level: "fetch c = Some (v, c') \<Longrightarrow> level c < 2 ^ 64 - 1 \<Longrightarrow> level c' = Suc (level c)"
begin

fun draw :: "nat \<Rightarrow> 'c \<Rightarrow> (u64 list \<times> 'c) option" where
  "draw 0 c = Some ([], c)"
| "draw (Suc n) c =
     (case fetch c of None \<Rightarrow> None
      | Some (v, c') \<Rightarrow>
          (case draw n c' of None \<Rightarrow> None | Some (vs, c'') \<Rightarrow> Some (v # vs, c'')))"

lemma draw_values:
  "draw n c = Some (vs, c') \<Longrightarrow> level c + n < 2 ^ 64 \<Longrightarrow>
     map unat vs = [level c ..< level c + n] \<and> level c' = level c + n"
proof (induction n arbitrary: c vs)
  case 0
  then show ?case by simp
next
  case (Suc n)
  then obtain v c1 vs' where step: "fetch c = Some (v, c1)" "draw n c1 = Some (vs', c')"
      "vs = v # vs'"
    by (auto split: option.splits)
  have lev: "level c1 = Suc (level c)"
    using fetch_level [OF step(1)] Suc.prems(2) by simp
  with Suc.IH [OF step(2)] Suc.prems(2)
  have "map unat vs' = [level c1 ..< level c1 + n] \<and> level c' = level c1 + n" by simp
  then show ?case
    using fetch_val [OF step(1)] lev step(3) by (simp add: upt_conv_Cons)
qed

lemma draw_distinct:
  assumes "draw n c = Some (vs, c')" "level c + n < 2 ^ 64"
  shows "distinct vs"
  using draw_values [OF assms] by (metis distinct_map distinct_upt)

end

text \<open>The counter as such a source.\<close>

definition fetch_opt :: "apu \<Rightarrow> (u64 \<times> apu) option" where
  "fetch_opt c = (case fetch_inc True c of (Ok v, c') \<Rightarrow> Some (v, c') | _ \<Rightarrow> None)"

lemma unat_plus_one: "unat (w :: u64) < 2 ^ 64 - 1 \<Longrightarrow> unat (w + 1) = Suc (unat w)"
  by (simp add: unat_word_ariths)

interpretation ctr: fid_source fetch_opt "\<lambda>c. unat (ctr_mem c)"
  by unfold_locales
     (auto simp: fetch_opt_def fetch_inc_def fetch_add_def flush_ok_def unat_plus_one
       split: if_splits)

section \<open>Crashes\<close>

text \<open>
  The life of the counter file over several server processes. A flush may fail, which
  panics with the mutex held. A crash may come at any time, also between the addition and
  the flush; the next process starts from what the disk holds, which is the flushed value
  or, where the kernel wrote the mapped page back by itself, the newer one.
\<close>

datatype ctr_event = Fetched u64 | Panicked | Crashed

inductive ctr_step :: "apu \<Rightarrow> ctr_event \<Rightarrow> apu \<Rightarrow> bool" where
  fetch: "fetch_inc True c = (Ok v, c') \<Longrightarrow> ctr_step c (Fetched v) c'"
| panic: "fetch_inc works c = (Panic p, c') \<Longrightarrow> ctr_step c Panicked c'"
| crash: "from_file (Some (ctr_disk c)) = Inr c' \<Longrightarrow> ctr_step c Crashed c'"
| crash_written: "from_file (Some (ctr_mem c)) = Inr c' \<Longrightarrow> ctr_step c Crashed c'"
| crash_mid_call:
    "\<not> ctr_poisoned c \<Longrightarrow> fetch_add c = (v, c1) \<Longrightarrow> from_file (Some (ctr_mem c1)) = Inr c' \<Longrightarrow>
     ctr_step c Crashed c'"

inductive_cases ctr_stepE: "ctr_step c e c'"

inductive ctr_run :: "apu \<Rightarrow> ctr_event list \<Rightarrow> apu \<Rightarrow> bool" where
  nil: "ctr_run c [] c"
| cons: "ctr_step c e c' \<Longrightarrow> ctr_run c' es c'' \<Longrightarrow> ctr_run c (e # es) c''"

fun fetched :: "ctr_event list \<Rightarrow> u64 list" where
  "fetched [] = []"
| "fetched (Fetched v # es) = v # fetched es"
| "fetched (Panicked # es) = fetched es"
| "fetched (Crashed # es) = fetched es"

text \<open>
  Between calls the flushed value is the current one, unless a flush failed; then the
  mutex is poisoned and the mapped value is one ahead.
\<close>

definition ctr_synced :: "apu \<Rightarrow> bool" where
  "ctr_synced c =
     (if ctr_poisoned c
      then unat (ctr_disk c) \<le> unat (ctr_mem c) \<and> unat (ctr_mem c) \<le> Suc (unat (ctr_disk c))
      else ctr_disk c = ctr_mem c)"

lemmas ctr_defs = ctr_synced_def from_file_def fetch_inc_def fetch_add_def flush_ok_def flush_fail_def

lemma ctr_step_level:
  assumes "ctr_step c e c'" "ctr_synced c" "unat (ctr_disk c) < 2 ^ 64 - 1"
  shows "ctr_synced c' \<and> unat (ctr_disk c) \<le> unat (ctr_disk c')
    \<and> unat (ctr_disk c') \<le> Suc (unat (ctr_disk c))
    \<and> (\<forall>v. e = Fetched v \<longrightarrow> v = ctr_disk c \<and> unat (ctr_disk c') = Suc (unat (ctr_disk c)))"
  using assms
  by (auto elim!: ctr_stepE simp: ctr_defs unat_plus_one split: if_splits)

lemma ctr_run_bounds:
  "ctr_run c es c' \<Longrightarrow> ctr_synced c \<Longrightarrow> unat (ctr_disk c) + length es < 2 ^ 64 \<Longrightarrow>
     sorted_wrt (<) (map unat (fetched es))
     \<and> (\<forall>v \<in> set (fetched es). unat (ctr_disk c) \<le> unat v)"
proof (induction rule: ctr_run.induct)
  case (nil c)
  then show ?case by simp
next
  case (cons c e c' es c'')
  have lev: "ctr_synced c'" "unat (ctr_disk c) \<le> unat (ctr_disk c')"
      "unat (ctr_disk c') \<le> Suc (unat (ctr_disk c))"
      "\<forall>v. e = Fetched v \<longrightarrow> v = ctr_disk c \<and> unat (ctr_disk c') = Suc (unat (ctr_disk c))"
    using ctr_step_level [OF cons.hyps(1) cons.prems(1)] cons.prems(2) by auto
  have IH: "sorted_wrt (<) (map unat (fetched es))"
      "\<forall>v \<in> set (fetched es). unat (ctr_disk c') \<le> unat v"
    using cons.IH lev(1,3) cons.prems(2) by auto
  then show ?case
    using lev by (cases e) (auto simp: Suc_le_eq intro: order_trans)
qed

text \<open>
  C10. The FID counter never hands out the same number twice, across any number of calls,
  failed flushes, process crashes and restarts, including a crash between the increment and the flush:
  the numbers handed out are strictly increasing, as long as the 64-bit counter does not
  wrap.
\<close>

theorem counter_never_reuses:
  assumes "ctr_run c es c'" and "ctr_synced c" and "unat (ctr_disk c) + length es < 2 ^ 64"
  shows "sorted_wrt (<) (map unat (fetched es)) \<and> distinct (fetched es)"
proof -
  have s: "sorted_wrt (<) (map unat (fetched es))"
    using ctr_run_bounds [OF assms] by simp
  then have "distinct (map unat (fetched es))"
    by (metis strict_sorted_iff)
  with s show ?thesis by (simp add: distinct_map)
qed

lemma counter_never_reuses_witness:
  "distinct [9, 10 :: u64] \<and> sorted_wrt (<) (map unat [9, 10 :: u64])"
proof -
  define c0 where "c0 = \<lparr>ctr_mem = 9, ctr_disk = 9, ctr_poisoned = False\<rparr>"
  define c1 where "c1 = \<lparr>ctr_mem = 10 :: u64, ctr_disk = 10 :: u64, ctr_poisoned = False\<rparr>"
  define c2 where "c2 = \<lparr>ctr_mem = 11 :: u64, ctr_disk = 11 :: u64, ctr_poisoned = False\<rparr>"
  have run: "ctr_run c0 [Fetched 9, Crashed, Fetched 10] c2"
    by (rule ctr_run.cons [where c' = c1], rule ctr_step.fetch,
        simp add: fetch_inc_def fetch_add_def flush_ok_def c0_def c1_def,
        rule ctr_run.cons [where c' = c1], rule ctr_step.crash,
        simp add: from_file_def c1_def,
        rule ctr_run.cons [where c' = c2], rule ctr_step.fetch,
        simp add: fetch_inc_def fetch_add_def flush_ok_def c1_def c2_def,
        rule ctr_run.nil)
  show ?thesis
    using counter_never_reuses [OF run] by (simp add: c0_def ctr_synced_def)
qed

end
