(* ===== verification/ServerState.thy ===== *)
theory ServerState
  imports Protocol Counter
begin

text \<open>
  The state of \<^verbatim>\<open>ZippynfsServer\<close> (\<^verbatim>\<open>server/src/handler/mod.rs\<close>): the host file system below
  \<^verbatim>\<open>data_dir\<close>, the FID counter, the locked names, the epoch, the FID cache and the buffers
  of unstable writes; its construction, the name lock, and the code the server calls but
  does not contain, as parameters.
\<close>

section \<open>Parameters\<close>

text \<open>
  A compiled regular expression of the \<^verbatim>\<open>regex\<close> crate: on a text, the capture groups of the
  match (group 0 is the whole match), or no match. Compilation may fail.
\<close>

type_synonym compiled = "string \<Rightarrow> string option list option"

record env =
  env_regex :: "string \<Rightarrow> compiled option"
  env_tid :: string
  env_dirent_size :: nat
  env_dir_len :: "nat \<Rightarrow> u64"
  env_overflow_checks :: bool

text \<open>
  \<^verbatim>\<open>env_tid\<close> is the debug text of the worker's thread id, \<^verbatim>\<open>env_dirent_size\<close> the size of the
  generated struct \<^verbatim>\<open>ZipDirEntry\<close>, \<^verbatim>\<open>env_dir_len\<close> what the host reports as the length of a
  directory of so many entries, and \<^verbatim>\<open>env_overflow_checks\<close> says whether integer overflow
  panics (a debug build) or wraps (a release build).

  \<^verbatim>\<open>NUMBERED_FILE_RE\<close> and the pattern of \<^verbatim>\<open>fs_find_by_name\<close>:
\<close>

definition NUMBERED_FILE_RE :: string where
  "NUMBERED_FILE_RE = CHR ''^'' # CHR 0x5C # ''d+$''"

definition named_file_re :: "string \<Rightarrow> string" where
  "named_file_re fname = ''^('' @ CHR 0x5C # ''d+)'' @ CHR 0x5C # ''.'' @ fname @ ''$''"

definition is_match :: "compiled \<Rightarrow> string \<Rightarrow> bool" where
  "is_match re s = (re s \<noteq> None)"

text \<open>
  What the documentation of \<^verbatim>\<open>regex\<close> says of the two patterns, for ASCII names. In a file
  name, letters, digits, space and the punctuation that is not special stand for
  themselves, and a dot stands for any character but a newline.
\<close>

definition is_meta :: "char \<Rightarrow> bool" where
  "is_meta c = (c \<in> set ''^$*+?()[]{}|'' \<or> c = CHR 0x5C)"

definition dot_match :: "string \<Rightarrow> string \<Rightarrow> bool" where
  "dot_match pat s =
     list_all2 (\<lambda>p c. p = c \<or> (p = CHR ''.'' \<and> c \<noteq> CHR 0x0A)) pat s"

definition plain_name :: "string \<Rightarrow> bool" where
  "plain_name fname = (fname \<noteq> [] \<and> list_all (\<lambda>c. \<not> is_meta c) fname)"

definition split_name :: "string \<Rightarrow> (string \<times> string) option" where
  "split_name s =
     (let ds = takeWhile is_digit s; r = dropWhile is_digit s
      in if ds \<noteq> [] \<and> r \<noteq> [] \<and> hd r = CHR ''.'' then Some (ds, tl r) else None)"

definition regex_documented :: "env \<Rightarrow> bool" where
  "regex_documented E \<longleftrightarrow>
     (\<exists>re. env_regex E NUMBERED_FILE_RE = Some re
        \<and> (\<forall>s. is_match re s \<longleftrightarrow> s \<noteq> [] \<and> list_all is_digit s))
     \<and> (\<forall>fname. plain_name fname \<longrightarrow>
        (\<exists>re. env_regex E (named_file_re fname) = Some re
           \<and> (\<forall>s. re s =
                (case split_name s of
                   Some (ds, nm) \<Rightarrow> if dot_match fname nm then Some [Some s, Some ds] else None
                 | None \<Rightarrow> None))))"

section \<open>The server's state\<close>

type_synonym fid = u64
type_synonym pending_write = "u64 \<times> u64 \<times> bytes"

record world = host +
  w_counter :: apu
  w_name_lock :: "(path \<times> string) set"
  w_epoch :: u64
  w_fid_cache :: "(fid \<times> fid) list"
  w_cache_poisoned :: bool
  w_async_bufs :: "(fid \<times> nat) list"
  w_async_heap :: "nat \<Rightarrow> pending_write list"
  w_async_next :: nat

text \<open>
  A \<^verbatim>\<open>HashMap\<close> is an association list. \<^verbatim>\<open>async_bufs\<close> maps a FID to an \<^verbatim>\<open>Arc<Mutex<Vec>>\<close>: the
  table holds addresses and the heap the vectors, because a client thread may hold an
  \<^verbatim>\<open>Arc\<close> that is no longer in the table. \<^verbatim>\<open>w_cache_poisoned\<close> says that a thread panicked while
  it held the write lock on \<^verbatim>\<open>fid_cache\<close>.
\<close>

definition get_disk :: "world \<Rightarrow> disk" where
  "get_disk w = h_disk w"

text \<open>\<^verbatim>\<open>self.counter.fetch_inc()\<close>; the flush is a system call\<close>

definition fetch_incM :: "(world, 'e, fid) M" where
  "fetch_incM w =
     (if ctr_poisoned (w_counter w) then (Panic ''PoisonError'', w)
      else case next_fault w of
        Some PowerCut \<Rightarrow> (Crash, (drop_fault w)\<lparr>w_counter := snd (fetch_add (w_counter w))\<rparr>)
      | f \<Rightarrow>
          (case fetch_inc (f = None) (w_counter w) of
             (Ok v, c) \<Rightarrow> (Ok v, (drop_fault w)\<lparr>w_counter := c\<rparr>)
           | (_, c) \<Rightarrow> (Panic ''fetch_inc'', (drop_fault w)\<lparr>w_counter := c\<rparr>)))"

text \<open>\<^verbatim>\<open>ZippynfsServer::new(data_dir)\<close> on a host state and the content of the counter file\<close>

definition blank_world :: "host \<Rightarrow> apu \<Rightarrow> world" where
  "blank_world h c =
     \<lparr>h_disk = h_disk h, h_faults = h_faults h, h_clock = h_clock h,
      w_counter = c, w_name_lock = {}, w_epoch = 0,
      w_fid_cache = [], w_cache_poisoned = False,
      w_async_bufs = [], w_async_heap = (\<lambda>_. []), w_async_next = 0\<rparr>"

definition new_server :: "host \<Rightarrow> u64 option \<Rightarrow> (string, world) outcome" where
  "new_server h counter_file =
     (case from_file counter_file of
        Inl e \<Rightarrow> Panic e
      | Inr c \<Rightarrow>
          (case fetch_incM (blank_world h c) of
             (Ok epoch, w) \<Rightarrow> Ok (w\<lparr>w_epoch := epoch\<rparr>)
           | (Panic p, w) \<Rightarrow> Panic p
           | (Err e, w) \<Rightarrow> Err e
           | (Crash, w) \<Rightarrow> Crash
           | (Hang, w) \<Rightarrow> Hang))"

section \<open>The name lock\<close>

definition lock_name :: "path \<times> string \<Rightarrow> (world, 'e, bool) M" where
  "lock_name name w =
     (Ok (name \<notin> w_name_lock w), w\<lparr>w_name_lock := insert name (w_name_lock w)\<rparr>)"

definition unlock_name :: "path \<times> string \<Rightarrow> (world, 'e, unit) M" where
  "unlock_name name w =
     (if name \<in> w_name_lock w
      then (Ok (), w\<lparr>w_name_lock := w_name_lock w - {name}\<rparr>)
      else (Panic ''assertion failed: present'', w))"

section \<open>The FID cache\<close>

definition cache_get :: "fid \<Rightarrow> (world, 'e, fid option) M" where
  "cache_get fid w =
     (if w_cache_poisoned w then (Panic ''PoisonError'', w)
      else (Ok (map_of (w_fid_cache w) fid), w))"

definition cache_insert :: "fid \<Rightarrow> fid \<Rightarrow> (world, 'e, fid option) M" where
  "cache_insert fid parent w =
     (if w_cache_poisoned w then (Panic ''PoisonError'', w)
      else (Ok (map_of (w_fid_cache w) fid),
            w\<lparr>w_fid_cache := AList.update fid parent (w_fid_cache w)\<rparr>))"

definition cache_extend :: "(fid \<times> fid) list \<Rightarrow> (world, 'e, unit) M" where
  "cache_extend pairs w =
     (if w_cache_poisoned w then (Panic ''PoisonError'', w)
      else (Ok (), w\<lparr>w_fid_cache := fold (\<lambda>(f, p). AList.update f p) pairs (w_fid_cache w)\<rparr>))"

definition cache_remove :: "fid \<Rightarrow> (world, 'e, unit) M" where
  "cache_remove fid w =
     (if w_cache_poisoned w then (Panic ''PoisonError'', w)
      else (Ok (), w\<lparr>w_fid_cache := AList.delete fid (w_fid_cache w)\<rparr>))"

text \<open>A panic while the write lock on the cache is held poisons it.\<close>

definition under_cache_lock :: "(world, 'e, 'a) M \<Rightarrow> (world, 'e, 'a) M" where
  "under_cache_lock m w =
     (if w_cache_poisoned w then (Panic ''PoisonError'', w)
      else case m w of
        (Panic p, w') \<Rightarrow> (Panic p, w'\<lparr>w_cache_poisoned := True\<rparr>)
      | (r, w') \<Rightarrow> (r, w'))"

end
