(* ===== verification/Lookup.thy ===== *)
theory Lookup
  imports ServerState
begin

text \<open>
  Finding server files (\<^verbatim>\<open>server/src/handler/mod.rs\<close>): the split of a directory into
  numbered and named files, the breadth-first search for a FID, the reverse lookup through
  the FID cache, and the lookup of a name in a directory. The model lists a directory in
  the order of the store; the Rust code goes through \<^verbatim>\<open>HashSet\<close>s, whose order is arbitrary,
  and every theorem is about every order of the store.
\<close>

section \<open>The operations\<close>

text \<open>An error of the directory iterator itself\<close>

definition dirents_sys :: "('r host_scheme, io_error, unit) M" where
  "dirents_sys = sysM (\<lambda>_ d. Inr ((), d))"

definition get_numbered_and_named_files ::
  "compiled \<Rightarrow> path \<Rightarrow> (world, string, path list \<times> path list) M" where
  "get_numbered_and_named_files re path =
     bindM (fs_exists path) (\<lambda>e.
     thenM (assertM e ''assertion failed: path.exists()'') (
     bindM (fs_is_dir path) (\<lambda>d.
     thenM (assertM d ''assertion failed: path.is_dir()'') (
     bindM (map_errM io_text (read_dir_sys path)) (\<lambda>it.
     thenM (map_errM (\<lambda>_. ''Dirent is missing'') dirents_sys) (
     retM (let path_bufs = map (\<lambda>n. path @ [n]) it
           in (filter (\<lambda>fname. is_match re (last fname)) path_bufs,
               filter (\<lambda>fname. \<not> is_match re (last fname)) path_bufs))))))))"

text \<open>The FID-parent pairs along a path of numbered directories\<close>

fun hierarchy_pairs :: "fid list \<Rightarrow> (fid \<times> fid) list" where
  "hierarchy_pairs (a # b # fs) = (b, a) # hierarchy_pairs (b # fs)"
| "hierarchy_pairs _ = []"

definition parse_hierarchy :: "path \<Rightarrow> (world, 'e, fid list) M" where
  "parse_hierarchy path = mapM (\<lambda>p. unwrap_optM (parse_u64 p)) path"

definition extracted_number :: "path \<Rightarrow> path" where
  "extracted_number fname = butlast fname @ [takeWhile (\<lambda>c. c \<noteq> CHR ''.'') (last fname)]"

text \<open>The loop of the breadth-first search, with fuel for its iterations\<close>

fun bfs_loop ::
  "compiled \<Rightarrow> fid \<Rightarrow> nat \<Rightarrow> path list \<Rightarrow> (world, string, (path \<times> (fid \<times> fid) list) option) M" where
  "bfs_loop re fid 0 queue = hangM"
| "bfs_loop re fid (Suc n) [] = retM None"
| "bfs_loop re fid (Suc n) (path # queue) =
     bindM (unwrap_optM (if path = [] then None else parse_u64 (last path))) (\<lambda>cur.
     if cur = fid then
       bindM (parse_hierarchy path) (\<lambda>heirarchy.
       retM (Some (path, hierarchy_pairs heirarchy)))
     else
       bindM (fs_is_dir path) (\<lambda>d.
       if d then
         bindM (get_numbered_and_named_files re path) (\<lambda>(numbered_files, named_files).
         let extracted_numbers = map extracted_number named_files;
             intersection = filter (\<lambda>f. f \<in> set extracted_numbers) numbered_files
         in bfs_loop re fid n (queue @ intersection))
       else bfs_loop re fid n queue))"

definition fs_find_by_fid_no_cache ::
  "env \<Rightarrow> fid \<Rightarrow> (world, string, (path \<times> (fid \<times> fid) list) option) M" where
  "fs_find_by_fid_no_cache E fid =
     bindM (unwrap_optM (env_regex E NUMBERED_FILE_RE)) (\<lambda>re.
     bindM (getsM (\<lambda>w. Suc (length (h_disk w)))) (\<lambda>fuel.
     bfs_loop re fid (Suc fuel) [[''1'']]))"

text \<open>The recursion through the cache, with fuel for its depth\<close>

fun cached_walk ::
  "env \<Rightarrow> nat \<Rightarrow> fid \<Rightarrow> (world, string, (path \<times> (fid \<times> fid) list) option) M" where
  "cached_walk E 0 fid = hangM"
| "cached_walk E (Suc n) fid =
     (if fid = 1 then retM (Some ([''1''], []))
      else
        bindM (cache_get fid) (\<lambda>entry.
        case entry of
          Some parent_fid \<Rightarrow>
            bindM (cached_walk E n parent_fid) (\<lambda>r.
            case r of
              None \<Rightarrow> retM None
            | Some (path, to_cache) \<Rightarrow> retM (Some (path @ [show_u64 fid], to_cache)))
        | None \<Rightarrow> fs_find_by_fid_no_cache E fid))"

definition fs_find_by_fid_cached ::
  "env \<Rightarrow> fid \<Rightarrow> (world, string, (path \<times> (fid \<times> fid) list) option) M" where
  "fs_find_by_fid_cached E fid =
     bindM (getsM (\<lambda>w. Suc (length (w_fid_cache w)))) (\<lambda>fuel. cached_walk E fuel fid)"

definition fs_find_by_fid :: "env \<Rightarrow> fid \<Rightarrow> (world, string, path option) M" where
  "fs_find_by_fid E fid =
     bindM (fs_find_by_fid_cached E fid) (\<lambda>r.
     case r of
       None \<Rightarrow> retM None
     | Some (path, to_cache) \<Rightarrow> thenM (cache_extend to_cache) (retM (Some path)))"

text \<open>The loop of \<^verbatim>\<open>fs_find_by_name\<close> over the named files\<close>

fun find_named ::
  "compiled \<Rightarrow> path \<Rightarrow> path list \<Rightarrow> path list \<Rightarrow> (world, string, fid option) M" where
  "find_named re_is_file path numbered_files [] = retM None"
| "find_named re_is_file path numbered_files (fname # named_files) =
     (case re_is_file (last fname) of
        None \<Rightarrow> find_named re_is_file path numbered_files named_files
      | Some m \<Rightarrow>
          bindM (unwrap_optM (if 1 < length m then m ! 1 else None)) (\<lambda>g.
          bindM (unwrap_optM (parse_u64 g)) (\<lambda>id.
          if path @ [show_u64 id] \<in> set numbered_files then retM (Some id)
          else find_named re_is_file path numbered_files named_files)))"

definition fs_find_by_name :: "env \<Rightarrow> path \<Rightarrow> string \<Rightarrow> (world, string, fid option) M" where
  "fs_find_by_name E path fname =
     thenM (assertM (fname \<noteq> []) ''assertion failed: fname.len() > 0'') (
     bindM (fs_is_dir path) (\<lambda>d.
     thenM (assertM d ''assertion failed: path.is_dir()'') (
     bindM (unwrap_optM (env_regex E NUMBERED_FILE_RE)) (\<lambda>re_is_name.
     bindM (unwrap_optM (env_regex E (named_file_re fname))) (\<lambda>re_is_file.
     bindM (get_numbered_and_named_files re_is_name path) (\<lambda>(numbered_files, named_files).
     find_named re_is_file path numbered_files named_files))))))"

section \<open>What exists: a numbered file and its named partner\<close>

definition is_numbered :: "string \<Rightarrow> bool" where
  "is_numbered c = (c \<noteq> [] \<and> list_all is_digit c)"

definition has_named :: "disk \<Rightarrow> path \<Rightarrow> string \<Rightarrow> bool" where
  "has_named d p c = list_ex (\<lambda>k. prefix (c @ ''.'') k) (children d p)"

definition vchild :: "disk \<Rightarrow> path \<Rightarrow> string \<Rightarrow> bool" where
  "vchild d p c = (is_numbered c \<and> exists_at d (p @ [c]) \<and> has_named d p c)"

text \<open>The path of an NFS file: from the root \<^verbatim>\<open>1\<close> every step has both of its server files.\<close>

definition vpath :: "disk \<Rightarrow> path \<Rightarrow> bool" where
  "vpath d p = (p \<noteq> [] \<and> hd p = ''1'' \<and> exists_at d [''1'']
     \<and> list_all (\<lambda>i. vchild d (take i p) (p ! i)) [1..<length p])"

definition fid_path :: "disk \<Rightarrow> fid \<Rightarrow> path option" where
  "fid_path d fid = find (\<lambda>p. vpath d p \<and> last p = show_u64 fid) (map fst d)"

text \<open>The FID a server file belongs to, by its name\<close>

definition entry_fid :: "string \<Rightarrow> fid option" where
  "entry_fid c =
     (let h = takeWhile (\<lambda>x. x \<noteq> CHR ''.'') c
      in case parse_u64 h of
           Some f \<Rightarrow> if show_u64 f = h then Some f else None
         | None \<Rightarrow> None)"

text \<open>
  A well-formed store: under the root only server files named after a FID, named files
  being regular files; no FID at two places; every FID below the counter.
\<close>

definition under_root :: "path \<Rightarrow> bool" where
  "under_root q = (q \<noteq> [] \<and> hd q = ''1'')"

definition names_ok :: "disk \<Rightarrow> bool" where
  "names_ok d = list_all (\<lambda>(q, ob). under_root q \<longrightarrow>
     entry_fid (last q) \<noteq> None
     \<and> (CHR ''.'' \<in> set (last q) \<longrightarrow> is_file_at d q)) d"

definition fids_unique :: "disk \<Rightarrow> bool" where
  "fids_unique d =
     list_all (\<lambda>(q, _). list_all (\<lambda>(r, _).
        under_root q \<and> under_root r \<and> is_numbered (last q) \<and> last q = last r \<longrightarrow> q = r) d) d"

definition fids_below :: "nat \<Rightarrow> disk \<Rightarrow> bool" where
  "fids_below n d = list_all (\<lambda>(q, _). under_root q \<longrightarrow>
     (case entry_fid (last q) of None \<Rightarrow> True | Some f \<Rightarrow> unat f < n)) d"

definition wf_store :: "disk \<Rightarrow> bool" where
  "wf_store d = (wf_disk d \<and> is_dir_at d [''1''] \<and> is_dir_at d [''tmp'']
     \<and> names_ok d \<and> fids_unique d)"

section \<open>Names of server files\<close>

lemma is_numbered_show [simp]: "is_numbered (show_u64 f)"
  by (simp add: is_numbered_def show_u64_digits)

lemma not_numbered_named [simp]: "\<not> is_numbered (c @ CHR ''.'' # nm)"
  by (simp add: is_numbered_def)

lemma numbered_no_dot: "is_numbered c \<Longrightarrow> CHR ''.'' \<notin> set c"
  by (auto simp: is_numbered_def list_all_iff)

lemma takeWhile_numbered:
  "is_numbered c \<Longrightarrow> takeWhile (\<lambda>x. x \<noteq> CHR ''.'') (c @ CHR ''.'' # nm) = c"
  using numbered_no_dot by (subst takeWhile_append2) auto

lemma show_1 [simp]: "show_u64 1 = ''1''"
  by (simp add: show_u64_def show_nat.simps digit_char_def)

lemma takeWhile_show_alone [simp]: "takeWhile (\<lambda>x. x \<noteq> CHR ''.'') (show_u64 f) = show_u64 f"
  using show_u64_digit_set by (force simp: takeWhile_eq_all_conv)

lemma entry_fid_show [simp]: "entry_fid (show_u64 f) = Some f"
  by (simp add: entry_fid_def)

lemma entry_fid_named [simp]: "entry_fid (show_u64 f @ CHR ''.'' # nm) = Some f"
  by (simp add: entry_fid_def)

lemma entry_fid_cases:
  assumes "entry_fid c = Some f"
  obtains "c = show_u64 f" | nm where "c = show_u64 f @ CHR ''.'' # nm"
proof -
  define r where "r = dropWhile (\<lambda>x. x \<noteq> CHR ''.'') c"
  have h: "takeWhile (\<lambda>x. x \<noteq> CHR ''.'') c = show_u64 f"
    using assms by (auto simp: entry_fid_def Let_def split: option.splits if_splits)
  then have c: "c = show_u64 f @ r"
    unfolding r_def by (metis takeWhile_dropWhile_id)
  show thesis
  proof (cases r)
    case Nil
    then show thesis using c that(1) by simp
  next
    case (Cons x nm)
    then have "dropWhile (\<lambda>x. x \<noteq> CHR ''.'') c = x # nm"
      by (simp add: r_def)
    then have "x = CHR ''.''"
      by (simp add: dropWhile_eq_Cons_conv)
    then show thesis using c Cons that(2) by simp
  qed
qed

lemma under_root_append [simp]: "p \<noteq> [] \<Longrightarrow> under_root (p @ q) \<longleftrightarrow> under_root p"
  by (auto simp: under_root_def)

lemma names_okD:
  assumes "names_ok d" "map_of d q = Some ob" "under_root q"
  shows "\<exists>f. last q = show_u64 f \<or> (\<exists>nm. last q = show_u64 f @ CHR ''.'' # nm \<and> is_file_at d q)"
proof -
  have "(q, ob) \<in> set d" using assms(2) by (rule map_of_SomeD)
  with assms(1,3) obtain f where f: "entry_fid (last q) = Some f"
      and dot: "CHR ''.'' \<in> set (last q) \<longrightarrow> is_file_at d q"
    by (fastforce simp: names_ok_def list_all_iff)
  from f show ?thesis
    by (rule entry_fid_cases) (use dot in auto)
qed

lemma names_ok_numbered:
  assumes "names_ok d" "map_of d q \<noteq> None" "under_root q" "is_numbered (last q)"
  obtains f where "last q = show_u64 f"
  using names_okD [OF assms(1) _ assms(3)] assms(2,4) by fastforce

lemma names_ok_dir:
  assumes "names_ok d" "is_dir_at d q" "under_root q"
  obtains f where "last q = show_u64 f"
  using names_okD [OF assms(1) _ assms(3)] assms(2)
  by (metis dir_not_file is_dir_at_iff)

lemma fids_uniqueD:
  assumes "fids_unique d" "map_of d q \<noteq> None" "map_of d r \<noteq> None" "under_root q" "under_root r"
    and "is_numbered (last q)" "last q = last r"
  shows "q = r"
proof -
  obtain a b where "(q, a) \<in> set d" "(r, b) \<in> set d"
    using assms(2,3) by (auto dest: map_of_SomeD)
  then show ?thesis
    using assms(1,4-7) by (fastforce simp: fids_unique_def list_all_iff)
qed

section \<open>Visible paths\<close>

lemma has_named_iff: "has_named d p c \<longleftrightarrow> (\<exists>nm. map_of d (p @ [c @ CHR ''.'' # nm]) \<noteq> None)"
proof -
  have "has_named d p c \<longleftrightarrow> (\<exists>nm. c @ CHR ''.'' # nm \<in> set (children d p))"
    by (auto simp: has_named_def list_ex_iff prefix_def)
  then show ?thesis by (simp add: in_children_iff)
qed

lemma vchild_iff:
  "vchild d p c \<longleftrightarrow> is_numbered c \<and> map_of d (p @ [c]) \<noteq> None
     \<and> (\<exists>nm. map_of d (p @ [c @ CHR ''.'' # nm]) \<noteq> None)"
  by (simp add: vchild_def exists_at_def has_named_iff)

lemma vpath_root [simp]: "vpath d [''1''] \<longleftrightarrow> map_of d [''1''] \<noteq> None"
  by (simp add: vpath_def exists_at_def)

lemma vpath_Nil [simp]: "\<not> vpath d []"
  by (simp add: vpath_def)

lemma vpath_snoc: "q \<noteq> [] \<Longrightarrow> vpath d (q @ [c]) \<longleftrightarrow> vpath d q \<and> vchild d q c"
proof -
  assume q: "q \<noteq> []"
  then have "[1..<length (q @ [c])] = [1..<length q] @ [length q]"
    by (cases q) auto
  moreover have "list_all (\<lambda>i. vchild d (take i (q @ [c])) ((q @ [c]) ! i)) [1..<length q]
      = list_all (\<lambda>i. vchild d (take i q) (q ! i)) [1..<length q]"
    by (auto simp: list_all_iff nth_append)
  ultimately show ?thesis
    using q by (auto simp: vpath_def)
qed

lemma vpath_under_root: "vpath d p \<Longrightarrow> under_root p"
  by (simp add: vpath_def under_root_def)

lemma vpath_induct [consumes 1, case_names root step]:
  assumes "vpath d p"
    and "map_of d [''1''] \<noteq> None \<Longrightarrow> P [''1'']"
    and "\<And>q c. vpath d q \<Longrightarrow> vchild d q c \<Longrightarrow> P q \<Longrightarrow> P (q @ [c])"
  shows "P p"
  using assms(1)
proof (induction p rule: rev_induct)
  case (snoc c q)
  show ?case
  proof (cases "q = []")
    case True
    then show ?thesis
      using snoc.prems assms(2) by (auto simp: vpath_def exists_at_def)
  next
    case False
    then show ?thesis
      using snoc assms(3) by (simp add: vpath_snoc)
  qed
qed simp

lemma vpath_exists: "vpath d p \<Longrightarrow> map_of d p \<noteq> None"
  by (induction rule: vpath_induct) (auto simp: vchild_iff)

lemma vpath_numbered: "vpath d p \<Longrightarrow> list_all is_numbered p"
  by (induction rule: vpath_induct)
     (auto simp: vchild_iff is_numbered_def is_digit_def digit_val_def upt_rec)

lemma vpath_last_numbered: "vpath d p \<Longrightarrow> is_numbered (last p)"
  using vpath_numbered [of d p] by (auto simp: list_all_iff vpath_def)

lemma vpath_prefix:
  assumes "vpath d (p @ q)" "p \<noteq> []"
  shows "vpath d p"
  using assms(1)
proof (induction q rule: rev_induct)
  case (snoc c q)
  then have "vpath d ((p @ q) @ [c])" by simp
  then show ?case
    using snoc.IH assms(2) vpath_snoc [of "p @ q"] by blast
qed simp

lemma vpath_unique:
  assumes "fids_unique d" "vpath d p" "vpath d q" "last p = last q"
  shows "p = q"
  using assms vpath_exists vpath_under_root vpath_last_numbered
  by (intro fids_uniqueD [OF assms(1)]) auto

lemma vpath_fids:
  assumes "names_ok d" "vpath d p"
  shows "\<exists>fs. p = map show_u64 fs \<and> fs \<noteq> []"
  using assms(2)
proof (induction rule: vpath_induct)
  case root
  then show ?case
    by (intro exI [of _ "[1]"]) simp
next
  case (step q c)
  have "under_root (q @ [c])"
    using vpath_under_root [OF step.hyps(1)] by (auto simp: under_root_def)
  then obtain f where f: "last (q @ [c]) = show_u64 f"
    using step.hyps(2) by (auto simp: vchild_iff intro: names_ok_numbered [OF assms(1), of "q @ [c]"])
  from step.IH obtain fs where "q = map show_u64 fs" by auto
  with f have "q @ [c] = map show_u64 (fs @ [f])" by simp
  then show ?case by blast
qed

lemma fid_path_Some:
  assumes "wf_store d"
  shows "fid_path d f = Some p \<longleftrightarrow> vpath d p \<and> last p = show_u64 f"
proof
  assume "fid_path d f = Some p"
  then show "vpath d p \<and> last p = show_u64 f"
    by (auto simp: fid_path_def find_Some_iff)
next
  assume p: "vpath d p \<and> last p = show_u64 f"
  then have "p \<in> set (map fst d)"
    using vpath_exists [of d p] by (auto simp: map_of_eq_None_iff)
  then have "fid_path d f \<noteq> None"
    using p unfolding fid_path_def find_None_iff by auto
  then obtain q where q: "fid_path d f = Some q" by auto
  then have "vpath d q \<and> last q = show_u64 f"
    by (auto simp: fid_path_def find_Some_iff)
  with p have "q = p"
    using assms by (auto intro: vpath_unique simp: wf_store_def)
  with q show "fid_path d f = Some p" by simp
qed

lemma fid_path_None:
  "fid_path d f = None \<longleftrightarrow> (\<forall>p. vpath d p \<longrightarrow> last p \<noteq> show_u64 f)"
proof -
  have "p \<in> set (map fst d)" if "vpath d p" for p
    using vpath_exists [OF that] by (auto simp: map_of_eq_None_iff)
  then show ?thesis
    by (auto simp: fid_path_def find_None_iff)
qed

end
