(* ===== verification/Search.thy ===== *)
theory Search
  imports Lookup
begin

text \<open>
  Correctness of the two searches by FID: the breadth-first search over the store finds
  exactly the visible path of the FID and always stops, and the walk through a coherent
  FID cache gives the same path.
\<close>

section \<open>One directory\<close>

definition num_re :: "compiled \<Rightarrow> bool" where
  "num_re re \<longleftrightarrow> (\<forall>s. is_match re s \<longleftrightarrow> is_numbered s)"

lemma regex_documented_num:
  assumes "regex_documented E"
  obtains re where "env_regex E NUMBERED_FILE_RE = Some re" "num_re re"
  using assms by (auto simp: regex_documented_def num_re_def is_numbered_def)

definition numbered_of :: "compiled \<Rightarrow> disk \<Rightarrow> path \<Rightarrow> path list" where
  "numbered_of re d p = filter (\<lambda>f. is_match re (last f)) (map (\<lambda>n. p @ [n]) (children d p))"

definition named_of :: "compiled \<Rightarrow> disk \<Rightarrow> path \<Rightarrow> path list" where
  "named_of re d p = filter (\<lambda>f. \<not> is_match re (last f)) (map (\<lambda>n. p @ [n]) (children d p))"

lemma get_files_calm:
  assumes "h_faults w = []" "is_dir_at (h_disk w) p"
  shows "get_numbered_and_named_files re p w =
     (Ok (numbered_of re (h_disk w) p, named_of re (h_disk w) p), w)"
proof -
  have "exists_at (h_disk w) p"
    using assms(2) by (auto simp: is_dir_at_iff exists_at_def)
  moreover have "dirents_sys w = (Ok (), w)"
    using assms(1) by (simp add: dirents_sys_def sysM_calm)
  ultimately show ?thesis
    using assms
    by (simp add: get_numbered_and_named_files_def monad_simps calm numbered_of_def named_of_def Let_def)
qed

lemma get_files_reads [reads_rules]:
  assumes "P (numbered_of re (h_disk w) p, named_of re (h_disk w) p)"
  shows "reads (get_numbered_and_named_files re p) P w"
  unfolding get_numbered_and_named_files_def dirents_sys_def
  by (rule reads_bindM [where P = "\<lambda>_. True"], rule reads_fs_exists, rule TrueI,
      rule reads_thenM [where P = "\<lambda>_. True"], rule reads_assertM, rule TrueI,
      rule reads_bindM [where P = "\<lambda>_. True"], rule reads_fs_is_dir, rule TrueI,
      rule reads_thenM [where P = "\<lambda>_. True"], rule reads_assertM, rule TrueI,
      rule reads_bindM [where P = "\<lambda>it. it = children (h_disk w) p"],
      rule reads_map_errM, rule reads_read_dir, simp,
      rule reads_thenM [where P = "\<lambda>_. True"], rule reads_map_errM, rule reads_sysM, simp,
      rule reads_retM)
     (use assms in \<open>simp add: Let_def numbered_of_def named_of_def\<close>)

text \<open>What the search enqueues is the list of visible children.\<close>

definition vkids :: "disk \<Rightarrow> path \<Rightarrow> path list" where
  "vkids d p = map (\<lambda>c. p @ [c]) (filter (vchild d p) (children d p))"

lemma expand_vkids:
  assumes "num_re re"
  shows "filter (\<lambda>f. f \<in> set (map extracted_number (named_of re d p))) (numbered_of re d p) = vkids d p"
proof -
  have step: "(is_match re c \<and> p @ [c] \<in> set (map extracted_number (named_of re d p))) = vchild d p c"
    if c: "c \<in> set (children d p)" for c
  proof
    assume l: "is_match re c \<and> p @ [c] \<in> set (map extracted_number (named_of re d p))"
    then have "p @ [c] \<in> extracted_number ` (\<lambda>n. p @ [n]) ` {n \<in> set (children d p). \<not> is_match re n}"
      by (auto simp: named_of_def)
    then obtain k where k: "k \<in> set (children d p)" "\<not> is_match re k"
        "c = takeWhile (\<lambda>x. x \<noteq> CHR ''.'') k"
      by (auto simp: extracted_number_def)
    have num: "is_numbered c" "\<not> is_numbered k"
      using l k(2) assms by (auto simp: num_re_def)
    define r where "r = dropWhile (\<lambda>x. x \<noteq> CHR ''.'') k"
    have kr: "k = c @ r"
      using k(3) by (simp add: r_def)
    with num obtain x nm where x: "r = x # nm"
      by (cases r) auto
    then have "x = CHR ''.''"
      using r_def [symmetric] by (simp add: dropWhile_eq_Cons_conv)
    with kr x obtain nm where "k = c @ CHR ''.'' # nm" by blast
    then show "vchild d p c"
      using k(1) c num(1) by (auto simp: vchild_iff in_children_iff)
  next
    assume r: "vchild d p c"
    then obtain nm where nm: "c @ CHR ''.'' # nm \<in> set (children d p)" and num: "is_numbered c"
      by (auto simp: vchild_iff in_children_iff)
    have "p @ [c @ CHR ''.'' # nm] \<in> set (named_of re d p)"
      using nm assms by (auto simp: named_of_def num_re_def)
    moreover have "extracted_number (p @ [c @ CHR ''.'' # nm]) = p @ [c]"
      using num by (simp add: extracted_number_def takeWhile_numbered)
    ultimately have "p @ [c] \<in> set (map extracted_number (named_of re d p))"
      by (metis image_eqI set_map)
    then show "is_match re c \<and> p @ [c] \<in> set (map extracted_number (named_of re d p))"
      using num assms by (simp add: num_re_def)
  qed
  have "filter (\<lambda>f. f \<in> set (map extracted_number (named_of re d p))) (numbered_of re d p)
      = map (\<lambda>c. p @ [c]) (filter (\<lambda>c. is_match re c
          \<and> p @ [c] \<in> set (map extracted_number (named_of re d p))) (children d p))"
    by (simp add: numbered_of_def filter_map comp_def conj_commute)
  also have "\<dots> = vkids d p"
    unfolding vkids_def using step by (intro arg_cong [where f = "map _"] filter_cong) auto
  finally show ?thesis .
qed

lemma in_vkids_iff: "q \<in> set (vkids d p) \<longleftrightarrow> (\<exists>c. q = p @ [c] \<and> vchild d p c)"
  by (auto simp: vkids_def vchild_iff in_children_iff)

section \<open>How long the search runs\<close>

definition weight :: "disk \<Rightarrow> path \<Rightarrow> nat" where
  "weight d q = length (filter (\<lambda>(k, _). prefix q k) d)"

lemma weight_Cons:
  "weight ((k, ob) # d) q = (if prefix q k then 1 else 0) + weight d q"
  by (simp add: weight_def)

lemma distinct_count_le: "distinct cs \<Longrightarrow> length (filter (\<lambda>c. c = c0) cs) \<le> 1"
proof (induction cs)
  case (Cons c cs)
  then show ?case by (cases "c = c0") (auto simp: filter_empty_conv)
qed simp

lemma sum_prefix_children:
  assumes "distinct cs"
  shows "sum_list (map (\<lambda>c. if prefix (p @ [c]) k then 1 else 0) cs)
    \<le> (if prefix p k \<and> k \<noteq> p then 1 else (0 :: nat))"
proof (cases "prefix p k \<and> k \<noteq> p")
  case True
  then obtain r' where "k = p @ r'" "r' \<noteq> []"
    by (auto simp: prefix_def)
  then obtain c0 r where k: "k = p @ c0 # r"
    by (cases r') auto
  have "sum_list (map (\<lambda>c. if prefix (p @ [c]) k then 1 else (0::nat)) cs)
      = length (filter (\<lambda>c. c = c0) cs)"
    by (induction cs) (auto simp: k prefix_def)
  with distinct_count_le [OF assms, of c0] True show ?thesis by simp
next
  case False
  then have "\<not> prefix (p @ [c]) k" for c
    by (auto simp: prefix_def)
  then show ?thesis by simp
qed

lemma weight_children:
  assumes "distinct cs"
  shows "sum_list (map (\<lambda>c. weight d (p @ [c])) cs) + length (filter (\<lambda>(k, _). k = p) d) \<le> weight d p"
proof (induction d)
  case Nil
  then show ?case by (induction cs) (simp_all add: weight_def)
next
  case (Cons x d)
  obtain k ob where x: "x = (k, ob)" by (cases x)
  define A where "A = sum_list (map (\<lambda>c. if prefix (p @ [c]) k then 1 else (0 :: nat)) cs)"
  define B where "B = sum_list (map (\<lambda>c. weight d (p @ [c])) cs)"
  define N where "N = length (filter (\<lambda>(k, _). k = p) d)"
  have "sum_list (map (\<lambda>c. weight (x # d) (p @ [c])) cs) = A + B"
    by (simp add: x weight_Cons sum_list_addf A_def B_def)
  moreover have "length (filter (\<lambda>(k, _). k = p) (x # d)) = (if k = p then 1 else 0) + N"
    by (simp add: x N_def)
  moreover have "weight (x # d) p = (if prefix p k then 1 else 0) + weight d p"
    by (simp add: x weight_Cons)
  moreover have "A \<le> (if prefix p k \<and> k \<noteq> p then 1 else 0)"
    unfolding A_def by (rule sum_prefix_children [OF assms])
  moreover have "B + N \<le> weight d p"
    using Cons.IH by (simp add: B_def N_def)
  ultimately show ?case
    by (auto split: if_splits)
qed

lemma weight_vkids:
  assumes "wf_disk d" "map_of d p \<noteq> None"
  shows "Suc (sum_list (map (weight d) (vkids d p))) \<le> weight d p"
proof -
  have "p \<in> fst ` set d" using assms(2) by (simp add: map_of_eq_None_iff)
  then have "filter (\<lambda>(k, _). k = p) d \<noteq> []"
    by (auto simp: filter_empty_conv)
  then have "1 \<le> length (filter (\<lambda>(k, _). k = p) d)"
    by (simp add: Suc_leI)
  moreover have "distinct (filter (vchild d p) (children d p))"
    using assms(1) by (simp add: distinct_children wf_disk_distinct)
  note weight_children [OF this, of d p]
  ultimately show ?thesis by (simp add: vkids_def comp_def)
qed

section \<open>The breadth-first search\<close>

definition path_pairs :: "path \<Rightarrow> (fid \<times> fid) list" where
  "path_pairs p = hierarchy_pairs (map (the \<circ> parse_u64) p)"

lemma mapM_retM:
  "(\<And>x. x \<in> set xs \<Longrightarrow> f x = retM (g x)) \<Longrightarrow> mapM f xs = retM (map g xs)"
  by (induction xs) simp_all

lemma parse_hierarchy_vpath:
  assumes "names_ok d" "vpath d p"
  shows "parse_hierarchy p = retM (map (the \<circ> parse_u64) p)"
proof -
  obtain fs where "p = map show_u64 fs"
    using vpath_fids [OF assms] by blast
  then show ?thesis
    unfolding parse_hierarchy_def by (intro mapM_retM) auto
qed

lemma vpath_last_show:
  assumes "wf_store d" "vpath d p"
  obtains f where "last p = show_u64 f"
proof -
  obtain fs where "p = map show_u64 fs" "fs \<noteq> []"
    using vpath_fids assms by (auto simp: wf_store_def)
  then have "last p = show_u64 (last fs)"
    by (simp add: last_map)
  then show thesis by (rule that)
qed

lemma vpath_parent_dir:
  "wf_store d \<Longrightarrow> vpath d (p @ c # r) \<Longrightarrow> is_dir_at d p"
  using vpath_exists [of d "p @ c # r"] wf_disk_append [of d p "c # r"] by (simp add: wf_store_def)

text \<open>Every visible path below a node that is not that node goes on through a child.\<close>

lemma vpath_next_child:
  assumes "vpath d t" "prefix p t" "p \<noteq> t" "p \<noteq> []"
  obtains c where "vchild d p c" "prefix (p @ [c]) t"
proof -
  obtain r' where "t = p @ r'" "r' \<noteq> []"
    using assms(2,3) by (auto simp: prefix_def)
  then obtain c r where t: "t = (p @ [c]) @ r"
    by (cases r') auto
  then have "vpath d (p @ [c])"
    using assms(1) vpath_prefix [of d "p @ [c]" r] by simp
  then have "vchild d p c"
    using assms(4) by (simp add: vpath_snoc)
  moreover have "prefix (p @ [c]) t"
    using t by (simp add: prefix_def)
  ultimately show thesis by (rule that)
qed

lemma bfs_calm:
  assumes re: "num_re re" and wf: "wf_store (h_disk w)" and nf: "h_faults w = []"
  shows "\<lbrakk>\<forall>q \<in> set queue. vpath (h_disk w) q;
      sum_list (map (weight (h_disk w)) queue) < fuel;
      \<forall>t. vpath (h_disk w) t \<and> last t = show_u64 fid \<longrightarrow> (\<exists>q \<in> set queue. prefix q t)\<rbrakk> \<Longrightarrow>
    bfs_loop re fid fuel queue w =
      (Ok (map_option (\<lambda>p. (p, path_pairs p)) (fid_path (h_disk w) fid)), w)"
proof (induction fuel arbitrary: queue)
  case 0
  then show ?case by simp
next
  case (Suc n)
  let ?d = "h_disk w"
  have names: "names_ok ?d" "wf_disk ?d" using wf by (simp_all add: wf_store_def)
  show ?case
  proof (cases queue)
    case Nil
    then have "fid_path ?d fid = None"
      using Suc.prems(3) by (auto simp: fid_path_None)
    then show ?thesis using Nil by (simp add: monad_simps)
  next
    case (Cons p rest)
    then have p: "vpath ?d p" using Suc.prems(1) by simp
    then have p_ne: "p \<noteq> []" by auto
    obtain f where f: "last p = show_u64 f"
      using vpath_last_show [OF wf p] .
    show ?thesis
    proof (cases "f = fid")
      case True
      then have "fid_path ?d fid = Some p"
        using p f by (simp add: fid_path_Some [OF wf])
      then show ?thesis
        using Cons True f p_ne
        by (simp add: path_pairs_def parse_hierarchy_vpath [OF names(1) p] monad_simps)
    next
      case False
      define new where "new = (if is_dir_at ?d p then vkids ?d p else [])"
      have step: "bfs_loop re fid (Suc n) queue w = bfs_loop re fid n (rest @ new) w"
        using Cons False f p_ne expand_vkids [OF re]
        by (simp add: new_def monad_simps calm Let_def get_files_calm nf del: set_map)
      have vp: "\<forall>q \<in> set (rest @ new). vpath ?d q"
        using Suc.prems(1) Cons p p_ne
        by (auto simp: new_def in_vkids_iff vpath_snoc split: if_splits)
      have wt: "sum_list (map (weight ?d) (rest @ new)) < n"
        using Suc.prems(2) Cons weight_vkids [OF names(2) vpath_exists [OF p]]
        by (auto simp: new_def)
      have cover: "\<forall>t. vpath ?d t \<and> last t = show_u64 fid \<longrightarrow>
          (\<exists>q \<in> set (rest @ new). prefix q t)"
      proof (intro allI impI)
        fix t assume t: "vpath ?d t \<and> last t = show_u64 fid"
        then obtain q where q: "q \<in> set queue" "prefix q t"
          using Suc.prems(3) by blast
        show "\<exists>q \<in> set (rest @ new). prefix q t"
        proof (cases "q \<in> set rest")
          case False
          then have "prefix p t" "p \<noteq> t"
            using q t f \<open>f \<noteq> fid\<close> Cons by auto
          then obtain c where "vchild ?d p c" "prefix (p @ [c]) t"
            using vpath_next_child t p_ne by blast
          then show ?thesis
            using wf_disk_parent [OF names(2), of p c]
            by (auto simp: new_def in_vkids_iff vchild_iff)
        qed (use q in auto)
      qed
      show ?thesis
        unfolding step by (rule Suc.IH [OF vp wt cover])
    qed
  qed
qed

lemma weight_le: "weight d q \<le> length d"
  by (simp add: weight_def)

text \<open>Without faults the search finds exactly the visible path of the FID.\<close>

lemma no_cache_calm:
  assumes "regex_documented E" "wf_store (h_disk w)" "h_faults w = []"
  shows "fs_find_by_fid_no_cache E fid w =
     (Ok (map_option (\<lambda>p. (p, path_pairs p)) (fid_path (h_disk w) fid)), w)"
proof -
  let ?d = "h_disk w"
  obtain re where re: "env_regex E NUMBERED_FILE_RE = Some re" "num_re re"
    using regex_documented_num [OF assms(1)] .
  have root: "vpath ?d [''1'']"
    using assms(2) by (auto simp: wf_store_def is_dir_at_iff)
  have cover: "prefix [''1''] t" if "vpath ?d t" for t
    using vpath_under_root [OF that] by (cases t) (auto simp: under_root_def)
  have "bfs_loop re fid (Suc (Suc (length ?d))) [[''1'']] w =
      (Ok (map_option (\<lambda>p. (p, path_pairs p)) (fid_path ?d fid)), w)"
    using root cover weight_le [of ?d "[''1'']"]
    by (intro bfs_calm [OF re(2) assms(2,3)]) auto
  then show ?thesis
    using re(1) by (simp add: fs_find_by_fid_no_cache_def monad_simps del: bfs_loop.simps)
qed

text \<open>With any faults, what the search returns is still a visible path of the FID.\<close>

definition found_ok :: "disk \<Rightarrow> fid \<Rightarrow> (path \<times> (fid \<times> fid) list) option \<Rightarrow> bool" where
  "found_ok d fid r = (case r of None \<Rightarrow> True
     | Some (p, prs) \<Rightarrow> vpath d p \<and> last p = show_u64 fid \<and> prs = path_pairs p)"

lemma bfs_reads:
  assumes re: "num_re re"
  shows "\<lbrakk>wf_store (h_disk w); \<forall>q \<in> set queue. vpath (h_disk w) q;
      sum_list (map (weight (h_disk w)) queue) < fuel\<rbrakk> \<Longrightarrow>
    reads (bfs_loop re fid fuel queue) (found_ok (h_disk w) fid) w"
proof (induction fuel arbitrary: queue w)
  case 0
  then show ?case by simp
next
  case (Suc n)
  let ?d = "h_disk w"
  have names: "names_ok ?d" "wf_disk ?d" using Suc.prems(1) by (simp_all add: wf_store_def)
  show ?case
  proof (cases queue)
    case Nil
    then show ?thesis by (simp add: found_ok_def reads_retM)
  next
    case (Cons p rest)
    then have p: "vpath ?d p" using Suc.prems(2) by simp
    then have p_ne: "p \<noteq> []" by auto
    obtain f where f: "last p = show_u64 f"
      using vpath_last_show [OF Suc.prems(1) p] .
    show ?thesis
    proof (cases "f = fid")
      case True
      then show ?thesis
        using Cons f p_ne p
        by (simp add: path_pairs_def found_ok_def reads_retM parse_hierarchy_vpath [OF names(1) p])
    next
      case False
      have skip: "reads (bfs_loop re fid n rest) (found_ok ?d fid) (w\<lparr>h_faults := fs\<rparr>)" for fs
        using Suc.IH [of "w\<lparr>h_faults := fs\<rparr>" rest] Suc.prems Cons
          weight_vkids [OF names(2) vpath_exists [OF p]] by simp
      have grow: "reads (bfs_loop re fid n (rest @ vkids ?d p)) (found_ok ?d fid)
          (w\<lparr>h_faults := fs\<rparr>)" for fs
      proof -
        have "\<forall>q \<in> set (vkids ?d p). vpath ?d q"
          using p p_ne by (auto simp: in_vkids_iff vpath_snoc)
        then show ?thesis
          using Suc.IH [of "w\<lparr>h_faults := fs\<rparr>" "rest @ vkids ?d p"] Suc.prems Cons
            weight_vkids [OF names(2) vpath_exists [OF p]] by (auto simp: ball_Un)
      qed
      show ?thesis
        using Cons f False p_ne
        by (auto intro!: reads_bindM [where P = "\<lambda>_. True"] reads_fs_is_dir skip
            reads_bindM [where P = "\<lambda>r. r = (numbered_of re ?d p, named_of re ?d p)"]
            get_files_reads simp: Let_def expand_vkids [OF re] grow simp del: set_map)
    qed
  qed
qed

lemma no_cache_reads:
  assumes "regex_documented E" "wf_store (h_disk w)"
  shows "reads (fs_find_by_fid_no_cache E fid) (found_ok (h_disk w) fid) w"
proof -
  obtain re where re: "env_regex E NUMBERED_FILE_RE = Some re" "num_re re"
    using regex_documented_num [OF assms(1)] .
  have "vpath (h_disk w) [''1'']"
    using assms(2) by (auto simp: wf_store_def is_dir_at_iff)
  then have "reads (bfs_loop re fid (Suc (Suc (length (h_disk w)))) [[''1'']])
      (found_ok (h_disk w) fid) (w\<lparr>h_faults := fs\<rparr>)" for fs
    using bfs_reads [OF re(2), of "w\<lparr>h_faults := fs\<rparr>" "[[''1'']]"] assms(2)
      weight_le [of "h_disk w" "[''1'']"] by (simp del: bfs_loop.simps)
  then show ?thesis
    using re(1) unfolding fs_find_by_fid_no_cache_def
    by (auto intro!: reads_bindM [where P = "\<lambda>n. n = Suc (length (h_disk w))"] reads_getsM
        simp del: bfs_loop.simps)
qed

section \<open>The FID cache\<close>

text \<open>
  A cache entry is right when its parent FID is visible and the FID is a visible child of
  it. The cache may miss any entry, but every entry it has is right.
\<close>

definition entry_ok :: "disk \<Rightarrow> fid \<Rightarrow> fid \<Rightarrow> bool" where
  "entry_ok d f g = (case fid_path d g of None \<Rightarrow> False | Some q \<Rightarrow> vpath d (q @ [show_u64 f]))"

definition cache_ok :: "disk \<Rightarrow> (fid \<times> fid) list \<Rightarrow> bool" where
  "cache_ok d cache = list_all (\<lambda>f. case map_of cache f of None \<Rightarrow> True | Some g \<Rightarrow> entry_ok d f g)
     (map fst cache)"

lemma cache_ok_iff: "cache_ok d cache \<longleftrightarrow> (\<forall>f g. map_of cache f = Some g \<longrightarrow> entry_ok d f g)"
proof
  assume ok: "cache_ok d cache"
  show "\<forall>f g. map_of cache f = Some g \<longrightarrow> entry_ok d f g"
  proof (intro allI impI)
    fix f g assume "map_of cache f = Some g"
    moreover from this have "f \<in> fst ` set cache"
      by (metis map_of_eq_None_iff option.distinct(1))
    ultimately show "entry_ok d f g"
      using ok by (auto simp: cache_ok_def list_all_iff)
  qed
next
  assume "\<forall>f g. map_of cache f = Some g \<longrightarrow> entry_ok d f g"
  then show "cache_ok d cache"
    by (auto simp: cache_ok_def list_all_iff split: option.split)
qed

lemma cache_ok_Nil [simp]: "cache_ok d []"
  by (simp add: cache_ok_def)

lemma cache_ok_update:
  "cache_ok d cache \<Longrightarrow> entry_ok d f g \<Longrightarrow> cache_ok d (AList.update f g cache)"
  by (auto simp: cache_ok_iff)

lemma cache_ok_extend:
  "cache_ok d cache \<Longrightarrow> \<forall>(f, g) \<in> set pairs. entry_ok d f g \<Longrightarrow>
     cache_ok d (fold (\<lambda>(f, p). AList.update f p) pairs cache)"
  by (induction pairs arbitrary: cache) (auto simp: cache_ok_update)

lemma entry_okE:
  assumes "wf_store d" "entry_ok d f g"
  obtains q where "fid_path d g = Some q" "q \<noteq> []" "vpath d (q @ [show_u64 f])"
    "fid_path d f = Some (q @ [show_u64 f])"
proof -
  obtain q where q: "fid_path d g = Some q" "vpath d (q @ [show_u64 f])"
    using assms(2) by (auto simp: entry_ok_def split: option.splits)
  moreover have "q \<noteq> []"
    using q(1) by (auto simp: fid_path_Some [OF assms(1)])
  moreover have "fid_path d f = Some (q @ [show_u64 f])"
    using q(2) by (simp add: fid_path_Some [OF assms(1)])
  ultimately show thesis using that by blast
qed

lemma hierarchy_pairs_split:
  "(b, a) \<in> set (hierarchy_pairs fs) \<Longrightarrow> \<exists>us vs. fs = us @ a # b # vs"
proof (induction fs rule: hierarchy_pairs.induct)
  case (1 a' b' fs)
  show ?case
  proof (cases "(b, a) = (b', a')")
    case False
    then obtain us vs where "b' # fs = us @ a # b # vs" using 1 by auto
    then have "a' # b' # fs = (a' # us) @ a # b # vs" by simp
    then show ?thesis by blast
  qed auto
qed auto

lemma path_pairs_ok:
  assumes wf: "wf_store d" and p: "vpath d p"
  shows "\<forall>(f, g) \<in> set (path_pairs p). entry_ok d f g"
proof safe
  fix f g assume "(f, g) \<in> set (path_pairs p)"
  then have "(f, g) \<in> set (hierarchy_pairs (map (the \<circ> parse_u64) p))"
    by (simp add: path_pairs_def)
  then obtain us vs where split: "map (the \<circ> parse_u64) p = us @ g # f # vs"
    using hierarchy_pairs_split by blast
  obtain fs where fs: "p = map show_u64 fs"
    using vpath_fids wf p by (auto simp: wf_store_def)
  then have "map (the \<circ> parse_u64) p = fs" by (simp add: comp_def)
  then have "p = (map show_u64 us @ [show_u64 g, show_u64 f]) @ map show_u64 vs"
    using fs split by simp
  then have "vpath d ((map show_u64 us @ [show_u64 g]) @ [show_u64 f])"
    using p vpath_prefix [of d "map show_u64 us @ [show_u64 g, show_u64 f]"] by auto
  moreover from this have "vpath d (map show_u64 us @ [show_u64 g])"
    by (rule vpath_prefix) simp
  then have "fid_path d g = Some (map show_u64 us @ [show_u64 g])"
    by (simp add: fid_path_Some [OF wf])
  ultimately show "entry_ok d f g"
    by (simp add: entry_ok_def)
qed

text \<open>The cached FIDs on the path of a FID: what bounds the depth of the walk.\<close>

definition cached_on :: "disk \<Rightarrow> (fid \<times> fid) list \<Rightarrow> fid \<Rightarrow> fid set" where
  "cached_on d cache fid =
     {f \<in> fst ` set cache. case fid_path d fid of None \<Rightarrow> False | Some p \<Rightarrow> show_u64 f \<in> set p}"

lemma vpath_distinct:
  assumes "wf_store d" "vpath d (q @ [c])"
  shows "c \<notin> set q"
proof
  assume "c \<in> set q"
  then obtain us vs where q: "q = us @ c # vs"
    by (meson split_list)
  then have "vpath d ((us @ [c]) @ vs @ [c])" using assms(2) by simp
  then have "vpath d (us @ [c])" by (rule vpath_prefix) simp
  then have "us @ [c] = q @ [c]"
    using assms by (intro vpath_unique [of d]) (auto simp: wf_store_def)
  then show False using q by simp
qed

lemma cached_on_parent:
  assumes "wf_store d" "cache_ok d cache" "map_of cache f = Some g"
  shows "card (cached_on d cache g) < card (cached_on d cache f)"
proof -
  from assms(2,3) have "entry_ok d f g" by (simp add: cache_ok_iff)
  then obtain q where q: "fid_path d g = Some q" "vpath d (q @ [show_u64 f])"
      "fid_path d f = Some (q @ [show_u64 f])"
    by (rule entry_okE [OF assms(1)])
  have "f \<in> cached_on d cache f"
    using assms(3) q by (auto simp: cached_on_def dest: map_of_SomeD intro: rev_image_eqI)
  moreover have "f \<notin> cached_on d cache g"
    using vpath_distinct [OF assms(1) q(2)] q(1) by (simp add: cached_on_def)
  moreover have "cached_on d cache g \<subseteq> cached_on d cache f"
    using q by (auto simp: cached_on_def)
  moreover have "finite (cached_on d cache f)"
    by (simp add: cached_on_def)
  ultimately show ?thesis by (metis psubsetI psubset_card_mono)
qed

lemma cached_on_le: "card (cached_on d cache f) \<le> length cache"
proof -
  have "cached_on d cache f \<subseteq> set (map fst cache)" by (auto simp: cached_on_def)
  then have "card (cached_on d cache f) \<le> card (set (map fst cache))"
    by (intro card_mono) auto
  also have "\<dots> \<le> length cache"
    by (metis card_length length_map)
  finally show ?thesis .
qed

lemma fid_path_root: "wf_store d \<Longrightarrow> fid_path d 1 = Some [''1'']"
  by (auto simp: fid_path_Some wf_store_def is_dir_at_iff)

lemma cached_walk_calm:
  assumes doc: "regex_documented E" and wf: "wf_store (h_disk w)" and nf: "h_faults w = []"
    and live: "\<not> w_cache_poisoned w" and ok: "cache_ok (h_disk w) (w_fid_cache w)"
  shows "card (cached_on (h_disk w) (w_fid_cache w) fid) < fuel \<Longrightarrow>
    \<exists>r. cached_walk E fuel fid w = (Ok r, w) \<and> map_option fst r = fid_path (h_disk w) fid
      \<and> (\<forall>p prs. r = Some (p, prs) \<longrightarrow> (\<forall>(f, g) \<in> set prs. entry_ok (h_disk w) f g))"
proof (induction fuel arbitrary: fid)
  case 0
  then show ?case by simp
next
  case (Suc n)
  let ?d = "h_disk w"
  show ?case
  proof (cases "fid = 1")
    case True
    then show ?thesis
      by (simp add: monad_simps fid_path_root [OF wf])
  next
    case not_root: False
    show ?thesis
    proof (cases "map_of (w_fid_cache w) fid")
      case None
      then show ?thesis
        using not_root live path_pairs_ok [OF wf]
        by (auto simp: monad_simps cache_get_def no_cache_calm [OF doc wf nf] fid_path_Some [OF wf]
              option.map_comp comp_def option.map_ident)
    next
      case (Some g)
      then have "entry_ok ?d fid g" using ok by (simp add: cache_ok_iff)
      then obtain q where q: "fid_path ?d g = Some q" "fid_path ?d fid = Some (q @ [show_u64 fid])"
        by (rule entry_okE [OF wf])
      obtain r where r: "cached_walk E n g w = (Ok r, w)" "map_option fst r = Some q"
          "\<forall>p prs. r = Some (p, prs) \<longrightarrow> (\<forall>(f, g) \<in> set prs. entry_ok ?d f g)"
        using Suc.IH [of g] cached_on_parent [OF wf ok Some] Suc.prems q(1) by auto
      then show ?thesis
        using not_root live Some q by (auto simp: monad_simps cache_get_def)
    qed
  qed
qed

text \<open>
  Without faults the lookup by FID is the visible path of the FID, whatever right entries
  the cache has; the cache only gains right entries.
\<close>

lemma find_by_fid_calm:
  assumes doc: "regex_documented E" and wf: "wf_store (h_disk w)" and nf: "h_faults w = []"
    and live: "\<not> w_cache_poisoned w" and ok: "cache_ok (h_disk w) (w_fid_cache w)"
  shows "\<exists>c. fs_find_by_fid E fid w = (Ok (fid_path (h_disk w) fid), w\<lparr>w_fid_cache := c\<rparr>)
    \<and> cache_ok (h_disk w) c"
proof -
  let ?n = "Suc (length (w_fid_cache w))"
  have "card (cached_on (h_disk w) (w_fid_cache w) fid) < ?n"
    using cached_on_le [of "h_disk w" "w_fid_cache w" fid] by simp
  then obtain r where r: "cached_walk E ?n fid w = (Ok r, w)"
      "map_option fst r = fid_path (h_disk w) fid"
      "\<forall>p prs. r = Some (p, prs) \<longrightarrow> (\<forall>(f, g) \<in> set prs. entry_ok (h_disk w) f g)"
    using cached_walk_calm [OF assms] by blast
  have walk: "fs_find_by_fid_cached E fid w = (Ok r, w)"
    using r(1) by (simp add: fs_find_by_fid_cached_def monad_simps del: cached_walk.simps)
  show ?thesis
  proof (cases r)
    case None
    have "fs_find_by_fid E fid w = (Ok None, w)"
      using None by (simp add: fs_find_by_fid_def monad_simps walk)
    then show ?thesis
      using r(2) None ok by (intro exI [of _ "w_fid_cache w"]) simp
  next
    case (Some x)
    obtain p prs where x: "x = (p, prs)" by (cases x)
    have "fs_find_by_fid E fid w =
        (Ok (Some p), w\<lparr>w_fid_cache := fold (\<lambda>(f, p). AList.update f p) prs (w_fid_cache w)\<rparr>)"
      using Some x live by (simp add: fs_find_by_fid_def monad_simps walk cache_extend_def)
    then show ?thesis
      using r(2,3) Some x ok
      by (intro exI [of _ "fold (\<lambda>(f, p). AList.update f p) prs (w_fid_cache w)"])
         (auto intro: cache_ok_extend)
  qed
qed

section \<open>The lookups under faults\<close>

text \<open>
  A computation that only reads the store and may add right entries to the cache: under any
  fault schedule, and a value it returns satisfies \<open>P\<close>.
\<close>

definition finds :: "(world, 'e, 'a) M \<Rightarrow> ('a \<Rightarrow> bool) \<Rightarrow> world \<Rightarrow> bool" where
  "finds m P w = wp m (\<lambda>r w'.
     (\<exists>fs c. w' = w\<lparr>h_faults := fs, w_fid_cache := c\<rparr> \<and> cache_ok (h_disk w) c)
     \<and> r \<noteq> Hang \<and> (\<forall>x. r = Ok x \<longrightarrow> P x)) w"

definition walk_ok :: "disk \<Rightarrow> fid \<Rightarrow> (path \<times> (fid \<times> fid) list) option \<Rightarrow> bool" where
  "walk_ok d fid r = (case r of None \<Rightarrow> True
     | Some (p, prs) \<Rightarrow> fid_path d fid = Some p \<and> (\<forall>(f, g) \<in> set prs. entry_ok d f g))"

lemma found_walk_ok:
  "wf_store d \<Longrightarrow> found_ok d fid r \<Longrightarrow> walk_ok d fid r"
  using path_pairs_ok [of d]
  by (auto simp: found_ok_def walk_ok_def fid_path_Some split: option.splits)

lemma cache_get_reads [reads_rules]:
  "P (map_of (w_fid_cache w) fid) \<Longrightarrow> reads (cache_get fid) P w"
  by (auto simp: reads_def wp_def cache_get_def)

lemma cached_walk_reads:
  assumes doc: "regex_documented E"
  shows "\<lbrakk>wf_store (h_disk w); cache_ok (h_disk w) (w_fid_cache w);
      card (cached_on (h_disk w) (w_fid_cache w) fid) < fuel\<rbrakk> \<Longrightarrow>
    reads (cached_walk E fuel fid) (walk_ok (h_disk w) fid) w"
proof (induction fuel arbitrary: fid w)
  case 0
  then show ?case by simp
next
  case (Suc n)
  let ?d = "h_disk w"
  show ?case
  proof (cases "fid = 1")
    case True
    then show ?thesis
      by (simp add: reads_retM walk_ok_def fid_path_root [OF Suc.prems(1)])
  next
    case not_root: False
    have step: "reads (case map_of (w_fid_cache w) fid of
          Some g \<Rightarrow> bindM (cached_walk E n g) (\<lambda>r. case r of None \<Rightarrow> retM None
            | Some (path, to_cache) \<Rightarrow> retM (Some (path @ [show_u64 fid], to_cache)))
        | None \<Rightarrow> fs_find_by_fid_no_cache E fid) (walk_ok ?d fid) (w\<lparr>h_faults := fs\<rparr>)" for fs
    proof (cases "map_of (w_fid_cache w) fid")
      case None
      have "reads (fs_find_by_fid_no_cache E fid) (found_ok ?d fid) (w\<lparr>h_faults := fs\<rparr>)"
        using no_cache_reads [OF doc, of "w\<lparr>h_faults := fs\<rparr>"] Suc.prems(1) by simp
      then show ?thesis
        using None found_walk_ok [OF Suc.prems(1)] by (auto intro: reads_mono)
    next
      case (Some g)
      then have "entry_ok ?d fid g" using Suc.prems(2) by (simp add: cache_ok_iff)
      then obtain q where q: "fid_path ?d g = Some q" "fid_path ?d fid = Some (q @ [show_u64 fid])"
        by (rule entry_okE [OF Suc.prems(1)])
      have "reads (cached_walk E n g) (walk_ok ?d g) (w\<lparr>h_faults := fs\<rparr>)"
        using Suc.IH [of "w\<lparr>h_faults := fs\<rparr>" g] Suc.prems
          cached_on_parent [OF Suc.prems(1,2) Some] by simp
      then show ?thesis
        using Some q
        by (auto intro!: reads_bindM reads_retM simp: walk_ok_def split: option.splits)
    qed
    show ?thesis
      using not_root step
      by (auto intro!: reads_bindM [where P = "\<lambda>e. e = map_of (w_fid_cache w) fid"] cache_get_reads)
  qed
qed

lemma find_by_fid_finds:
  assumes doc: "regex_documented E" and wf: "wf_store (h_disk w)"
    and ok: "cache_ok (h_disk w) (w_fid_cache w)"
  shows "finds (fs_find_by_fid E fid)
    (\<lambda>x. x = None \<or> x = fid_path (h_disk w) fid) w"
proof -
  let ?n = "Suc (length (w_fid_cache w))"
  have walk: "reads (fs_find_by_fid_cached E fid) (walk_ok (h_disk w) fid) w"
    unfolding fs_find_by_fid_cached_def
  proof (rule reads_bindM [where P = "\<lambda>n. n = ?n"])
    fix fs x assume "x = ?n"
    then show "reads (cached_walk E x fid) (walk_ok (h_disk w) fid) (w\<lparr>h_faults := fs\<rparr>)"
      using cached_walk_reads [OF doc, of "w\<lparr>h_faults := fs\<rparr>" fid ?n] wf ok
        cached_on_le [of "h_disk w" "w_fid_cache w" fid] by simp
  qed (simp add: reads_getsM)
  show ?thesis
    unfolding finds_def
  proof (rule wpI)
    fix r w' assume run: "fs_find_by_fid E fid w = (r, w')"
    obtain r1 w1 where r1: "fs_find_by_fid_cached E fid w = (r1, w1)"
      by (cases "fs_find_by_fid_cached E fid w")
    then obtain fs where w1: "w1 = w\<lparr>h_faults := fs\<rparr>" and res: "r1 \<noteq> Hang"
        "\<And>x. r1 = Ok x \<Longrightarrow> walk_ok (h_disk w) fid x"
      using walk by (auto simp: reads_def wp_def)
    have same: "\<exists>fs' c. w1 = w\<lparr>h_faults := fs', w_fid_cache := c\<rparr> \<and> cache_ok (h_disk w) c"
      using w1 ok by (intro exI [of _ fs] exI [of _ "w_fid_cache w"]) simp
    show "(\<exists>fs c. w' = w\<lparr>h_faults := fs, w_fid_cache := c\<rparr> \<and> cache_ok (h_disk w) c)
      \<and> r \<noteq> Hang \<and> (\<forall>x. r = Ok x \<longrightarrow> x = None \<or> x = fid_path (h_disk w) fid)"
    proof (cases r1)
      case (Ok x)
      show ?thesis
      proof (cases x)
        case None
        then show ?thesis
          using run Ok same by (auto simp: fs_find_by_fid_def monad_simps r1)
      next
        case (Some y)
        then obtain p prs where y: "x = Some (p, prs)" by (cases y) auto
        then have pp: "fid_path (h_disk w) fid = Some p" "\<forall>(f, g) \<in> set prs. entry_ok (h_disk w) f g"
          using res(2) [OF Ok] by (auto simp: walk_ok_def)
        let ?c = "fold (\<lambda>(f, p). AList.update f p) prs (w_fid_cache w)"
        show ?thesis
        proof (cases "w_cache_poisoned w")
          case True
          then have "r = Panic ''PoisonError''" "w' = w1"
            using run Ok y w1 by (auto simp: fs_find_by_fid_def monad_simps r1 cache_extend_def)
          then show ?thesis using same by simp
        next
          case False
          then have "r = Ok (Some p)" "w' = w\<lparr>h_faults := fs, w_fid_cache := ?c\<rparr>"
            using run Ok y w1 by (auto simp: fs_find_by_fid_def monad_simps r1 cache_extend_def)
          then show ?thesis
            using pp cache_ok_extend [OF ok pp(2)] by auto
        qed
      qed
    qed (use run same res in \<open>auto simp: fs_find_by_fid_def monad_simps r1\<close>)
  qed
qed

section \<open>Lookup by name\<close>

text \<open>
  A name that the pattern of \<open>fname\<close> accepts, with its numbered partner in place; the
  lookup returns the first such in the directory.
\<close>

definition name_hit :: "disk \<Rightarrow> path \<Rightarrow> string \<Rightarrow> string \<Rightarrow> bool" where
  "name_hit d p fname k = (case split_name k of None \<Rightarrow> False
     | Some (ds, nm) \<Rightarrow> dot_match fname nm \<and> exists_at d (p @ [ds]))"

definition find_name :: "disk \<Rightarrow> path \<Rightarrow> string \<Rightarrow> fid option" where
  "find_name d p fname = Option.bind (find (name_hit d p fname) (children d p)) entry_fid"

lemma split_name_named [simp]: "split_name (show_u64 f @ CHR ''.'' # nm) = Some (show_u64 f, nm)"
proof -
  have "takeWhile is_digit (show_u64 f @ CHR ''.'' # nm) = show_u64 f"
    "dropWhile is_digit (show_u64 f @ CHR ''.'' # nm) = CHR ''.'' # nm"
    using show_u64_digit_set by (simp_all add: takeWhile_append2 dropWhile_append2)
  then show ?thesis by (simp add: split_name_def)
qed

lemma split_name_numbered: "is_numbered k \<Longrightarrow> split_name k = None"
proof -
  assume "is_numbered k"
  then have "dropWhile is_digit k = []"
    by (simp add: is_numbered_def list_all_iff dropWhile_eq_Nil_conv)
  then show ?thesis by (simp add: split_name_def Let_def)
qed

lemma name_hit_numbered: "is_numbered k \<Longrightarrow> \<not> name_hit d p fname k"
  by (simp add: name_hit_def split_name_numbered)

lemma name_hit_named:
  "name_hit d p fname (show_u64 f @ CHR ''.'' # nm)
     \<longleftrightarrow> dot_match fname nm \<and> exists_at d (p @ [show_u64 f])"
  by (simp add: name_hit_def)

lemma find_cong_filter:
  "(\<And>x. x \<in> set xs \<Longrightarrow> P x \<Longrightarrow> Q x) \<Longrightarrow> find P (filter Q xs) = find P xs"
  by (induction xs) auto

lemma dir_entry_cases:
  assumes "names_ok d" "under_root p" "k \<in> set (children d p)"
  obtains f where "k = show_u64 f" | f nm where "k = show_u64 f @ CHR ''.'' # nm"
    "is_file_at d (p @ [k])"
proof -
  obtain ob where "map_of d (p @ [k]) = Some ob"
    using assms(3) by (auto simp: in_children_iff)
  moreover have "under_root (p @ [k])"
    using assms(2) by (auto simp: under_root_def)
  ultimately show thesis
    using names_okD [OF assms(1), of "p @ [k]" ob] that by auto
qed

lemma numbered_of_iff:
  assumes "num_re re"
  shows "p @ [show_u64 f] \<in> set (numbered_of re d p) \<longleftrightarrow> exists_at d (p @ [show_u64 f])"
  using assms by (auto simp: numbered_of_def num_re_def exists_at_def in_children_iff)

definition file_re :: "string \<Rightarrow> compiled \<Rightarrow> bool" where
  "file_re fname re \<longleftrightarrow> (\<forall>s. re s = (case split_name s of
     Some (ds, nm) \<Rightarrow> if dot_match fname nm then Some [Some s, Some ds] else None
   | None \<Rightarrow> None))"

lemma file_reD:
  "file_re fname re \<Longrightarrow> re s = (case split_name s of
     Some (ds, nm) \<Rightarrow> if dot_match fname nm then Some [Some s, Some ds] else None
   | None \<Rightarrow> None)"
  by (simp add: file_re_def)

lemma find_named_eq:
  assumes num: "num_re re"
    and filep: "file_re fname re_file"
    and names: "names_ok d" "under_root p"
  shows "set ks \<subseteq> set (children d p) \<Longrightarrow>
    find_named re_file p (numbered_of re d p) (map (\<lambda>k. p @ [k]) ks)
      = retM (Option.bind (find (name_hit d p fname) ks) entry_fid)"
proof (induction ks)
  case (Cons k ks)
  then have k: "k \<in> set (children d p)" and IH: "find_named re_file p (numbered_of re d p)
      (map (\<lambda>k. p @ [k]) ks) = retM (Option.bind (find (name_hit d p fname) ks) entry_fid)"
    by auto
  from names k show ?case
  proof (cases rule: dir_entry_cases)
    case (1 f)
    then show ?thesis
      using IH by (simp add: file_reD [OF filep, of "show_u64 f"] name_hit_numbered split_name_numbered)
  next
    case (2 f nm)
    then show ?thesis
      using IH
      by (simp add: file_reD [OF filep, of "show_u64 f @ CHR ''.'' # nm"] name_hit_named
          numbered_of_iff [OF num])
  qed
qed simp

lemma find_by_name_patterns:
  assumes "regex_documented E" "plain_name fname"
  obtains re re_file where "env_regex E NUMBERED_FILE_RE = Some re" "num_re re"
    "env_regex E (named_file_re fname) = Some re_file"
    "file_re fname re_file"
proof -
  obtain re where re: "env_regex E NUMBERED_FILE_RE = Some re" "num_re re"
    using regex_documented_num [OF assms(1)] .
  obtain re_file where "env_regex E (named_file_re fname) = Some re_file" "file_re fname re_file"
    using assms unfolding regex_documented_def file_re_def by blast
  with re show thesis by (rule that)
qed

lemma find_named_all:
  assumes "num_re re" "names_ok d" "under_root p"
    and "file_re fname re_file"
  shows "find_named re_file p (numbered_of re d p) (named_of re d p) = retM (find_name d p fname)"
proof -
  let ?ks = "filter (\<lambda>k. \<not> is_match re k) (children d p)"
  have "named_of re d p = map (\<lambda>k. p @ [k]) ?ks"
    by (simp add: named_of_def filter_map comp_def)
  then have "find_named re_file p (numbered_of re d p) (named_of re d p)
      = retM (Option.bind (find (name_hit d p fname) ?ks) entry_fid)"
    using find_named_eq [OF assms(1,4,2,3), of ?ks] by auto
  also have "find (name_hit d p fname) ?ks = find (name_hit d p fname) (children d p)"
    using assms(1) by (intro find_cong_filter)
      (auto simp: num_re_def name_hit_def dest: split_name_numbered)
  finally show ?thesis by (simp add: find_name_def)
qed

lemma find_by_name_calm:
  assumes "regex_documented E" "plain_name fname" "names_ok (h_disk w)" "under_root p"
    and "is_dir_at (h_disk w) p" "h_faults w = []"
  shows "fs_find_by_name E p fname w = (Ok (find_name (h_disk w) p fname), w)"
proof -
  obtain re re_file where re: "env_regex E NUMBERED_FILE_RE = Some re" "num_re re"
    "env_regex E (named_file_re fname) = Some re_file"
    "file_re fname re_file"
    using find_by_name_patterns [OF assms(1,2)] by blast
  show ?thesis
    using assms re(1,3)
    by (simp add: fs_find_by_name_def monad_simps calm plain_name_def get_files_calm
        find_named_all [OF re(2) assms(3,4) re(4)])
qed

lemma find_by_name_reads:
  assumes "regex_documented E" "plain_name fname" "names_ok (h_disk w)" "under_root p"
  shows "reads (fs_find_by_name E p fname) (\<lambda>x. x = find_name (h_disk w) p fname) w"
proof -
  obtain re re_file where re: "env_regex E NUMBERED_FILE_RE = Some re" "num_re re"
    "env_regex E (named_file_re fname) = Some re_file"
    "file_re fname re_file"
    using find_by_name_patterns [OF assms(1,2)] by blast
  show ?thesis
    unfolding fs_find_by_name_def re(1,3) unwrap_optM_def option.case bindM_retM
    by (rule reads_thenM [where P = "\<lambda>_. True"], rule reads_assertM, rule TrueI,
        rule reads_bindM [where P = "\<lambda>_. True"], rule reads_fs_is_dir, rule TrueI,
        rule reads_thenM [where P = "\<lambda>_. True"], rule reads_assertM, rule TrueI,
        rule reads_bindM [where P = "\<lambda>r. r = (numbered_of re (h_disk w) p, named_of re (h_disk w) p)"],
        rule get_files_reads, simp)
       (simp add: find_named_all [OF re(2) assms(3,4) re(4)] reads_retM)
qed

text \<open>What a hit and a miss mean.\<close>

definition named_in :: "disk \<Rightarrow> path \<Rightarrow> fid \<Rightarrow> string \<Rightarrow> bool" where
  "named_in d p f nm = (exists_at d (p @ [show_u64 f]) \<and> exists_at d (p @ [show_u64 f @ ''.'' @ nm]))"

lemma find_name_SomeD:
  assumes "names_ok d" "under_root p" "find_name d p fname = Some f"
  shows "\<exists>nm. named_in d p f nm \<and> dot_match fname nm"
proof -
  obtain k where k: "find (name_hit d p fname) (children d p) = Some k" "entry_fid k = Some f"
    using assms(3) by (auto simp: find_name_def bind_eq_Some_conv)
  then have hit: "k \<in> set (children d p)" "name_hit d p fname k"
    by (auto simp: find_Some_iff)
  from assms(1,2) hit(1) show ?thesis
  proof (cases rule: dir_entry_cases)
    case (1 g)
    then show ?thesis using hit(2) by (simp add: name_hit_def split_name_numbered)
  next
    case (2 g nm)
    then show ?thesis
      using hit k(2)
      by (auto simp: name_hit_def named_in_def exists_at_def in_children_iff intro!: exI [of _ nm])
  qed
qed

lemma find_name_None:
  assumes "names_ok d" "under_root p"
  shows "find_name d p fname = None \<longleftrightarrow> (\<forall>f nm. named_in d p f nm \<longrightarrow> \<not> dot_match fname nm)"
proof
  assume none: "find_name d p fname = None"
  show "\<forall>f nm. named_in d p f nm \<longrightarrow> \<not> dot_match fname nm"
  proof (intro allI impI notI)
    fix f nm assume n: "named_in d p f nm" "dot_match fname nm"
    let ?k = "show_u64 f @ CHR ''.'' # nm"
    have "?k \<in> set (children d p)" "name_hit d p fname ?k"
      using n by (simp_all add: named_in_def name_hit_def in_children_iff exists_at_def)
    then obtain k where k: "find (name_hit d p fname) (children d p) = Some k"
      by (cases "find (name_hit d p fname) (children d p)") (auto simp: find_None_iff)
    then have "k \<in> set (children d p)" by (auto simp: find_Some_iff)
    with assms have "entry_fid k \<noteq> None"
      by (cases rule: dir_entry_cases) auto
    then show False using none k by (simp add: find_name_def)
  qed
next
  assume "\<forall>f nm. named_in d p f nm \<longrightarrow> \<not> dot_match fname nm"
  then show "find_name d p fname = None"
    using find_name_SomeD [OF assms] by (cases "find_name d p fname") fastforce+
qed

text \<open>A name without a dot matches itself only.\<close>

lemma dot_match_refl: "CHR 0x0A \<notin> set nm \<Longrightarrow> dot_match nm nm"
  by (auto simp: dot_match_def list_all2_conv_all_nth)

lemma dot_match_exact:
  "CHR ''.'' \<notin> set fname \<Longrightarrow> dot_match fname nm \<longleftrightarrow> nm = fname"
proof (induction fname arbitrary: nm)
  case (Cons c cs)
  then show ?case by (cases nm) (auto simp: dot_match_def)
qed (simp add: dot_match_def)

end
