(* ===== verification/Attr.thy ===== *)
theory Attr
  imports Search
begin

text \<open>
  Attributes (\<^verbatim>\<open>server/src/handler/mod.rs\<close>): the conversion of times, \<^verbatim>\<open>fs_get_attr\<close> with its
  32-bit size and block arithmetic, and \<^verbatim>\<open>fs_set_attr\<close> with \<^verbatim>\<open>futimens\<close>; and the frame lemma
  of every operation that changes contents and times but not the shape of the store.
\<close>

section \<open>The operations\<close>

definition BLOCK_SIZE :: u32 where
  "BLOCK_SIZE = 4096"

definition NANOS_PER_MICRO :: nat where
  "NANOS_PER_MICRO = 1000"

text \<open>A time before the epoch has no \<^verbatim>\<open>duration_since(UNIX_EPOCH)\<close>; the \<^verbatim>\<open>unwrap\<close> panics.\<close>

definition sys_time_to_zip_time :: "tspec \<Rightarrow> ('s, 'e, zip_time_val) M" where
  "sys_time_to_zip_time t =
     (if sint (fst t) < 0 then panicM ''SystemTimeError''
      else retM \<lparr>tv_seconds = fst t, tv_useconds = ucast (snd t div of_nat NANOS_PER_MICRO)\<rparr>)"

definition zero_time :: zip_time_val where
  "zero_time = \<lparr>tv_seconds = 0, tv_useconds = 0\<rparr>"

fun obj_stamps :: "obj \<Rightarrow> stamps" where
  "obj_stamps (RegFile st _) = st"
| "obj_stamps (DirObj st) = st"

text \<open>\<^verbatim>\<open>fmeta.len()\<close>\<close>

definition meta_len :: "env \<Rightarrow> disk \<Rightarrow> path \<Rightarrow> obj \<Rightarrow> u64" where
  "meta_len E d p ob =
     (case ob of RegFile _ bs \<Rightarrow> of_nat (length bs) | DirObj _ \<Rightarrow> env_dir_len E (length (children d p)))"

text \<open>\<^verbatim>\<open>(size + (BLOCK_SIZE - 1)) / BLOCK_SIZE\<close> on \<^verbatim>\<open>u32\<close>\<close>

definition blocks_of :: "env \<Rightarrow> u32 \<Rightarrow> ('s, 'e, u32) M" where
  "blocks_of E sz =
     (if env_overflow_checks E \<and> 2 ^ 32 \<le> unat sz + unat (BLOCK_SIZE - 1)
      then panicM ''attempt to add with overflow''
      else retM ((sz + (BLOCK_SIZE - 1)) div BLOCK_SIZE))"

definition fs_get_attr :: "env \<Rightarrow> path \<Rightarrow> u64 \<Rightarrow> (world, 'e, zip_fattr) M" where
  "fs_get_attr E fpath_numbered fid =
     thenM (assertM (fpath_numbered \<noteq> [] \<and> last fpath_numbered = show_u64 fid) ''assertion failed'') (
     bindM (unwrapM (metadata_sys fpath_numbered)) (\<lambda>fmeta.
     bindM (getsM (\<lambda>w. ucast (meta_len E (h_disk w) fpath_numbered fmeta))) (\<lambda>sz.
     bindM (blocks_of E sz) (\<lambda>blocks.
     bindM (case st_btime (obj_stamps fmeta) of
              Some t \<Rightarrow> sys_time_to_zip_time t | None \<Rightarrow> retM zero_time) (\<lambda>created.
     bindM (sys_time_to_zip_time (st_mtime (obj_stamps fmeta))) (\<lambda>modified.
     bindM (sys_time_to_zip_time (st_atime (obj_stamps fmeta))) (\<lambda>accessed.
     bindM (fs_is_dir fpath_numbered) (\<lambda>d.
     retM \<lparr>fa_type = (if d then NFDIR else NFREG), fa_mode = 0x1FF, fa_nlink = 1,
           fa_uid = 0, fa_gid = 0, fa_size = ucast sz, fa_blocksize = ucast BLOCK_SIZE,
           fa_rdev = 0, fa_blocks = ucast blocks, fa_fsid = 0, fa_fid = fid,
           fa_atime = accessed, fa_mtime = modified, fa_ctime = created\<rparr>))))))))"

text \<open>\<^verbatim>\<open>useconds * (NANOS_PER_MICRO as i64)\<close>\<close>

definition usec_to_nsec :: "env \<Rightarrow> u64 \<Rightarrow> ('s, 'e, u64) M" where
  "usec_to_nsec E us =
     (let n = sint us * int NANOS_PER_MICRO
      in if env_overflow_checks E \<and> (n < - (2 ^ 63) \<or> 2 ^ 63 \<le> n)
         then panicM ''attempt to multiply with overflow''
         else retM (us * of_nat NANOS_PER_MICRO))"

definition fs_set_attr ::
  "env \<Rightarrow> path \<Rightarrow> zip_time_val option \<Rightarrow> zip_time_val option \<Rightarrow> u64 option \<Rightarrow>
   (world, thrift_error, unit) M" where
  "fs_set_attr E fpath_numbered atime mtime sz =
     bindM (fs_is_dir fpath_numbered) (\<lambda>d.
     thenM (unwrapM (if d then open_sys fpath_numbered else open_write_sys fpath_numbered)) (
     thenM (case sz of
              None \<Rightarrow> retM ()
            | Some n \<Rightarrow>
                bindM (fs_is_dir fpath_numbered) (\<lambda>d2.
                if d2 then nfsM NFSERR_ISDIR
                else unwrapM (set_len_sys fpath_numbered n))) (
     thenM (case atime of
              None \<Rightarrow> retM ()
            | Some atime \<Rightarrow>
                let mtime = (case mtime of Some m \<Rightarrow> m | None \<Rightarrow> atime)
                in bindM (usec_to_nsec E (tv_useconds atime)) (\<lambda>ans.
                   bindM (usec_to_nsec E (tv_useconds mtime)) (\<lambda>mns.
                   bindM (attemptM (futimens_sys fpath_numbered
                            (tv_seconds atime, ans) (tv_seconds mtime, mns))) (\<lambda>retval.
                   case retval of
                     Inr _ \<Rightarrow> retM ()
                   | Inl errno \<Rightarrow>
                       if errno = ENOENT then nfsM NFSERR_STALE
                       else panicM (''Errno = '' @ io_text errno))))) (
     unwrapM sync_sys))))"

section \<open>The shape of the store\<close>

text \<open>Which paths exist, and which of them are directories\<close>

definition kind_at :: "disk \<Rightarrow> path \<Rightarrow> bool option" where
  "kind_at d p = map_option (\<lambda>ob. case ob of DirObj _ \<Rightarrow> True | RegFile _ _ \<Rightarrow> False) (map_of d p)"

lemma kind_at_simps:
  "exists_at d p \<longleftrightarrow> kind_at d p \<noteq> None"
  "is_dir_at d p \<longleftrightarrow> kind_at d p = Some True"
  "is_file_at d p \<longleftrightarrow> kind_at d p = Some False"
  by (auto simp: kind_at_def exists_at_def is_dir_at_def is_file_at_def split: option.splits obj.splits)

definition same_shape :: "disk \<Rightarrow> disk \<Rightarrow> bool" where
  "same_shape d d' \<longleftrightarrow> kind_at d' = kind_at d \<and> (wf_disk d \<longrightarrow> wf_disk d')"

lemma same_shape_refl [simp]: "same_shape d d"
  by (simp add: same_shape_def)

lemma same_shape_trans: "same_shape d d' \<Longrightarrow> same_shape d' d'' \<Longrightarrow> same_shape d d''"
  by (simp add: same_shape_def)

lemma same_shape_tests:
  assumes "same_shape d d'"
  shows "exists_at d' p = exists_at d p" "is_dir_at d' p = is_dir_at d p"
    "is_file_at d' p = is_file_at d p"
  using assms by (simp_all add: same_shape_def kind_at_simps)

lemma same_shape_update:
  assumes "map_of d p = Some ob"
    and "(\<exists>st. ob = DirObj st) \<longleftrightarrow> (\<exists>st. ob' = DirObj st)"
  shows "same_shape d (AList.update p ob' d)"
proof -
  have "kind_at (AList.update p ob' d) = kind_at d"
    using assms by (auto simp: kind_at_def fun_eq_iff split: obj.splits)
  moreover have "wf_disk (AList.update p ob' d)" if "wf_disk d"
    using that assms by (intro wf_disk_update_same) (auto simp: is_dir_at_iff)
  ultimately show ?thesis by (simp add: same_shape_def)
qed

text \<open>Well-formedness in terms of the shape only\<close>

lemma wf_store_iff:
  "wf_store d \<longleftrightarrow> wf_disk d \<and> is_dir_at d [''1''] \<and> is_dir_at d [''tmp'']
     \<and> (\<forall>q. exists_at d q \<and> under_root q \<longrightarrow>
          entry_fid (last q) \<noteq> None \<and> (CHR ''.'' \<in> set (last q) \<longrightarrow> is_file_at d q))
     \<and> (\<forall>q r. exists_at d q \<and> exists_at d r \<and> under_root q \<and> under_root r
          \<and> is_numbered (last q) \<and> last q = last r \<longrightarrow> q = r)"
proof -
  have mem: "exists_at d q \<longleftrightarrow> (\<exists>ob. (q, ob) \<in> set d)" for q
    by (force simp: exists_at_def map_of_eq_None_iff)
  show ?thesis
    unfolding wf_store_def names_ok_def fids_unique_def list_all_iff mem by fastforce
qed

lemma same_shape_wf_store: "same_shape d d' \<Longrightarrow> wf_store d \<Longrightarrow> wf_store d'"
  unfolding wf_store_iff same_shape_tests unfolding same_shape_def by blast

lemma same_shape_vpath: "same_shape d d' \<Longrightarrow> vpath d' p = vpath d p"
proof -
  assume s: "same_shape d d'"
  have "vchild d' q c = vchild d q c" for q c
    unfolding vchild_iff using same_shape_tests(1) [OF s, unfolded exists_at_def] by simp
  then show ?thesis
    using same_shape_tests(1) [OF s] by (simp add: vpath_def)
qed

lemma same_shape_fid_path:
  assumes "same_shape d d'" "wf_store d"
  shows "fid_path d' f = fid_path d f"
proof -
  have "fid_path d' f = Some p \<longleftrightarrow> fid_path d f = Some p" for p
    using fid_path_Some [OF assms(2)] fid_path_Some [OF same_shape_wf_store [OF assms]]
      same_shape_vpath [OF assms(1)] by simp
  then show ?thesis by (metis not_Some_eq)
qed

lemma same_shape_cache_ok:
  "same_shape d d' \<Longrightarrow> wf_store d \<Longrightarrow> cache_ok d c \<Longrightarrow> cache_ok d' c"
  by (simp add: cache_ok_iff entry_ok_def same_shape_fid_path same_shape_vpath cong: option.case_cong)

section \<open>The calls that keep the shape\<close>

text \<open>
  Only the object at \<open>p\<close> changed, and its kind did not; with \<open>keep\<close> neither did its content.
\<close>

definition touches :: "bool \<Rightarrow> path \<Rightarrow> disk \<Rightarrow> disk \<Rightarrow> bool" where
  "touches keep p d d' \<longleftrightarrow> same_shape d d' \<and> (\<forall>q. q \<noteq> p \<longrightarrow> map_of d' q = map_of d q)
     \<and> (keep \<longrightarrow> (\<forall>st bs. map_of d p = Some (RegFile st bs) \<longrightarrow> (\<exists>st'. map_of d' p = Some (RegFile st' bs))))"

lemma touches_refl [simp]: "touches keep p d d"
  by (simp add: touches_def)

lemma touches_trans: "touches keep p d d' \<Longrightarrow> touches keep p d' d'' \<Longrightarrow> touches keep p d d''"
  unfolding touches_def by (metis same_shape_trans)

lemma touches_modify:
  "k_modify now f p d = Inr (u, d') \<Longrightarrow> touches False p d d'"
  by (auto simp: touches_def dest!: k_modify_map intro!: same_shape_update)

lemma touches_utimens:
  "k_utimens a m p d = Inr (u, d') \<Longrightarrow> touches keep p d d'"
  by (auto simp: touches_def k_utimens_def split: option.splits elim!: set_times.elims
      intro!: same_shape_update)

definition keeps_at :: "bool \<Rightarrow> path \<Rightarrow> (world, 'e, 'a) M \<Rightarrow> world \<Rightarrow> bool" where
  "keeps_at keep p m w = wp m (\<lambda>r w'. (\<exists>fs d'. w' = w\<lparr>h_faults := fs, h_disk := d'\<rparr>
     \<and> touches keep p (h_disk w) d') \<and> r \<noteq> Hang) w"

lemma keeps_at_bindM:
  assumes "keeps_at keep p m w"
    and "\<And>x fs d'. touches keep p (h_disk w) d' \<Longrightarrow> keeps_at keep p (f x) (w\<lparr>h_faults := fs, h_disk := d'\<rparr>)"
  shows "keeps_at keep p (bindM m f) w"
proof -
  obtain r w1 where m: "m w = (r, w1)" by (cases "m w")
  with assms(1) obtain fs d' where w1: "w1 = w\<lparr>h_faults := fs, h_disk := d'\<rparr>"
      and t: "touches keep p (h_disk w) d'" and r: "r \<noteq> Hang"
    by (auto simp: keeps_at_def wp_def)
  show ?thesis
  proof (cases r)
    case (Ok x)
    have "keeps_at keep p (f x) w1" using assms(2) [OF t] w1 by simp
    then show ?thesis
      using Ok m w1 touches_trans [OF t]
      by (auto simp: keeps_at_def wp_def bindM_apply split: prod.splits)
  qed (use m w1 t r in \<open>auto simp: keeps_at_def wp_def bindM_apply\<close>)
qed

lemma keeps_at_thenM:
  "keeps_at keep p m w \<Longrightarrow>
    (\<And>fs d'. touches keep p (h_disk w) d' \<Longrightarrow> keeps_at keep p k (w\<lparr>h_faults := fs, h_disk := d'\<rparr>)) \<Longrightarrow>
    keeps_at keep p (thenM m k) w"
  unfolding thenM_def by (rule keeps_at_bindM)

lemma keeps_at_id: "\<exists>fs d'. w = w\<lparr>h_faults := fs, h_disk := d'\<rparr> \<and> touches keep p (h_disk w) d'"
  by (intro exI [of _ "h_faults w"] exI [of _ "h_disk w"]) simp

lemma keeps_at_basic:
  "keeps_at keep p (retM x) w" "keeps_at keep p (panicM msg) w" "keeps_at keep p (nfsM t) w"
  "keeps_at keep p (errM e) w"
  by (simp_all add: keeps_at_def wp_rules keeps_at_id)

lemma keeps_at_lift:
  "keeps_at keep p m w \<Longrightarrow> keeps_at keep p (unwrapM m) w"
  "keeps_at keep p m w \<Longrightarrow> keeps_at keep p (attemptM m) w"
  "keeps_at keep p m w \<Longrightarrow> keeps_at keep p (map_errM g m) w"
proof -
  assume "keeps_at keep p m w"
  then show "keeps_at keep p (unwrapM m) w" "keeps_at keep p (attemptM m) w"
      "keeps_at keep p (map_errM g m) w"
    unfolding keeps_at_def wp_rules
    by (auto elim!: wp_mono unwrap_out.elims attempt_out.elims map_err_out.elims)
qed

lemma faults_only:
  "\<exists>fs' d'. w\<lparr>h_faults := fs\<rparr> = w\<lparr>h_faults := fs', h_disk := d'\<rparr> \<and> touches keep p (h_disk w) d'"
  by (intro exI [of _ fs] exI [of _ "h_disk w"]) simp

lemma keeps_at_reads: "reads m P w \<Longrightarrow> keeps_at keep p m w"
  unfolding reads_def keeps_at_def by (erule wp_mono) (auto intro: faults_only)

lemma keeps_at_sysM:
  assumes "\<And>x d'. k (h_clock w) (h_disk w) = Inr (x, d') \<Longrightarrow> touches keep p (h_disk w) d'"
  shows "keeps_at keep p (sysM k) w"
  unfolding keeps_at_def
  by (rule wp_sysM) (use assms faults_only in blast)+

section \<open>What the operations return and leave\<close>

lemma reads_panicM [reads_rules]: "reads (panicM msg) P w"
  by (simp add: reads_def wp_def monad_simps)

lemma reads_unwrapM [reads_rules]: "reads m P w \<Longrightarrow> reads (unwrapM m) P w"
  unfolding reads_def wp_unwrapM by (erule wp_mono) (auto elim!: unwrap_out.elims)

lemma reads_metadata: "reads (metadata_sys p) (\<lambda>ob. map_of (h_disk w) p = Some ob) w"
  unfolding metadata_sys_def
  by (rule reads_sysM) (auto simp: k_metadata_def split: option.splits)

text \<open>\<^const>\<open>fs_get_attr\<close> changes nothing, whatever fails; and the reply names the file asked for.\<close>

lemma reads_sys_time_any: "reads (sys_time_to_zip_time t) (\<lambda>_. True) w"
  by (simp add: reads_def wp_def sys_time_to_zip_time_def monad_simps)

lemma get_attr_reads:
  "reads (fs_get_attr E p f) (\<lambda>a. fa_fid a = f) w"
  unfolding fs_get_attr_def blocks_of_def
  by (rule reads_thenM [where P = "\<lambda>_. True"], rule reads_assertM, rule TrueI,
      rule reads_bindM, rule reads_unwrapM, rule reads_metadata,
      rule reads_bindM [where P = "\<lambda>_. True"], rule reads_getsM, rule TrueI,
      rule reads_bindM [where P = "\<lambda>_. True"], simp add: reads_panicM reads_retM,
      rule reads_bindM [where P = "\<lambda>_. True"],
      simp add: reads_sys_time_any reads_retM split: option.split,
      (rule reads_bindM, rule reads_sys_time_any)+,
      rule reads_bindM [where P = "\<lambda>_. True"], rule reads_fs_is_dir, rule TrueI,
      rule reads_retM, simp)

definition zip_time_of :: "tspec \<Rightarrow> zip_time_val" where
  "zip_time_of t = \<lparr>tv_seconds = fst t, tv_useconds = ucast (snd t div of_nat NANOS_PER_MICRO)\<rparr>"

definition times_ok :: "stamps \<Rightarrow> bool" where
  "times_ok st = (0 \<le> sint (fst (st_atime st)) \<and> 0 \<le> sint (fst (st_mtime st))
     \<and> (case st_btime st of None \<Rightarrow> True | Some t \<Rightarrow> 0 \<le> sint (fst t)))"

definition size_of_obj :: "env \<Rightarrow> disk \<Rightarrow> path \<Rightarrow> obj \<Rightarrow> u32" where
  "size_of_obj E d p ob = ucast (meta_len E d p ob)"

definition attr_of :: "env \<Rightarrow> disk \<Rightarrow> path \<Rightarrow> fid \<Rightarrow> obj \<Rightarrow> zip_fattr" where
  "attr_of E d p f ob =
     \<lparr>fa_type = (case ob of DirObj _ \<Rightarrow> NFDIR | RegFile _ _ \<Rightarrow> NFREG), fa_mode = 0x1FF, fa_nlink = 1,
      fa_uid = 0, fa_gid = 0, fa_size = ucast (size_of_obj E d p ob), fa_blocksize = 4096,
      fa_rdev = 0, fa_blocks = ucast ((size_of_obj E d p ob + 4095) div 4096), fa_fsid = 0,
      fa_fid = f, fa_atime = zip_time_of (st_atime (obj_stamps ob)),
      fa_mtime = zip_time_of (st_mtime (obj_stamps ob)),
      fa_ctime = (case st_btime (obj_stamps ob) of None \<Rightarrow> zero_time | Some t \<Rightarrow> zip_time_of t)\<rparr>"

lemma metadata_calm [calm]:
  "h_faults w = [] \<Longrightarrow> map_of (h_disk w) p = Some ob \<Longrightarrow> metadata_sys p w = (Ok ob, w)"
  by (simp add: metadata_sys_def sysM_calm k_metadata_def)

lemma get_attr_calm:
  assumes "h_faults w = []" "map_of (h_disk w) p = Some ob" "p \<noteq> []" "last p = show_u64 f"
    and "times_ok (obj_stamps ob)"
    and "\<not> env_overflow_checks E \<or> unat (size_of_obj E (h_disk w) p ob) + 4095 < 2 ^ 32"
  shows "fs_get_attr E p f w = (Ok (attr_of E (h_disk w) p f ob), w)"
  using assms
  by (auto simp: fs_get_attr_def monad_simps calm blocks_of_def sys_time_to_zip_time_def times_ok_def
      size_of_obj_def attr_of_def zip_time_of_def is_dir_at_def BLOCK_SIZE_def
      split: option.splits obj.splits)

text \<open>The two steps of \<^const>\<open>fs_set_attr\<close> on an object\<close>

fun resize_obj :: "tspec \<Rightarrow> u64 option \<Rightarrow> obj \<Rightarrow> obj" where
  "resize_obj now (Some n) (RegFile st bs) = RegFile (st\<lparr>st_mtime := now\<rparr>) (resize_bytes (unat n) bs)"
| "resize_obj now _ ob = ob"

definition to_tspec :: "zip_time_val \<Rightarrow> tspec" where
  "to_tspec t = (tv_seconds t, ucast (tv_useconds t * of_nat NANOS_PER_MICRO))"

fun stamp_obj :: "zip_time_val option \<Rightarrow> zip_time_val option \<Rightarrow> obj \<Rightarrow> obj" where
  "stamp_obj None m ob = ob"
| "stamp_obj (Some a) m ob =
     set_times (to_tspec a) (to_tspec (case m of None \<Rightarrow> a | Some m \<Rightarrow> m)) ob"

definition usec_ok :: "zip_time_val \<Rightarrow> bool" where
  "usec_ok t = (unat (tv_useconds t) < 1000000)"

definition times_given_ok :: "zip_time_val option \<Rightarrow> zip_time_val option \<Rightarrow> bool" where
  "times_given_ok atime mtime = (case atime of None \<Rightarrow> True
     | Some a \<Rightarrow> usec_ok a \<and> (case mtime of None \<Rightarrow> True | Some m \<Rightarrow> usec_ok m))"

definition set_attr_disk ::
  "tspec \<Rightarrow> path \<Rightarrow> zip_time_val option \<Rightarrow> zip_time_val option \<Rightarrow> u64 option \<Rightarrow> obj \<Rightarrow> disk \<Rightarrow> disk" where
  "set_attr_disk now p atime mtime sz ob d =
     (if atime = None \<and> sz = None then d
      else AList.update p (stamp_obj atime mtime (resize_obj now sz ob)) d)"

lemma usec_range:
  assumes "usec_ok t"
  shows "sint (tv_useconds t) = int (unat (tv_useconds t))"
    and "valid_nsec (tv_useconds t * of_nat NANOS_PER_MICRO)"
    and "usec_to_nsec E (tv_useconds t) = retM (tv_useconds t * of_nat NANOS_PER_MICRO)"
proof -
  have lt: "unat (tv_useconds t) < 1000000" using assms by (simp add: usec_ok_def)
  then have u: "uint (tv_useconds t) < 1000000"
    using uint_nat [of "tv_useconds t"] by linarith
  have "- (2 ^ 63) \<le> uint (tv_useconds t)"
    by (rule order_trans [OF _ uint_ge_0]) simp
  with u have "sint (tv_useconds t) = uint (tv_useconds t)"
    unfolding sint_uint by (intro signed_take_bit_int_eq_self) simp_all
  then show s: "sint (tv_useconds t) = int (unat (tv_useconds t))"
    by simp
  have "unat (tv_useconds t * of_nat NANOS_PER_MICRO) = unat (tv_useconds t) * 1000"
    using lt by (subst unat_mult_lem [THEN iffD1]) (auto simp: NANOS_PER_MICRO_def)
  then show "valid_nsec (tv_useconds t * of_nat NANOS_PER_MICRO)"
    using lt by (simp add: valid_nsec_def)
  define n where "n = unat (tv_useconds t)"
  have "sint (tv_useconds t) = int n" "n < 1000000"
    using s lt by (simp_all add: n_def)
  then show "usec_to_nsec E (tv_useconds t) = retM (tv_useconds t * of_nat NANOS_PER_MICRO)"
    by (simp add: usec_to_nsec_def NANOS_PER_MICRO_def)
qed

lemma futimens_calm:
  assumes "h_faults w = []" "map_of (h_disk w) p = Some ob" "usec_ok a" "usec_ok m"
  shows "futimens_sys p (tv_seconds a, tv_useconds a * of_nat NANOS_PER_MICRO)
      (tv_seconds m, tv_useconds m * of_nat NANOS_PER_MICRO) w
    = (Ok (), w\<lparr>h_disk := AList.update p (set_times (to_tspec a) (to_tspec m) ob) (h_disk w)\<rparr>)"
  using assms by (simp add: futimens_sys_def sysM_calm usec_range k_utimens_def to_tspec_def)

lemma set_attr_calm:
  assumes nf: "h_faults w = []" and ob: "map_of (h_disk w) p = Some ob"
    and sz: "\<forall>n. sz = Some n \<longrightarrow> unat n < 2 ^ 63 \<and> is_file_at (h_disk w) p"
    and times: "times_given_ok atime mtime"
  shows "fs_set_attr E p atime mtime sz w =
    (Ok (), w\<lparr>h_disk := set_attr_disk (h_clock w) p atime mtime sz ob (h_disk w)\<rparr>)"
proof -
  define d1 where "d1 = (case sz of None \<Rightarrow> h_disk w
    | Some n \<Rightarrow> AList.update p (resize_obj (h_clock w) sz ob) (h_disk w))"
  define ob1 where "ob1 = resize_obj (h_clock w) sz ob"
  have op: "(unwrapM (if is_dir_at (h_disk w) p then open_sys p else open_write_sys p)
      :: (world, thrift_error, unit) M) w = (Ok (), w)"
    using nf ob by (auto simp: unwrapM_apply open_sys_def open_write_sys_def sysM_calm k_open_def
        is_dir_at_iff split: obj.split)
  have step1: "(case sz of None \<Rightarrow> retM () | Some n \<Rightarrow> bindM (fs_is_dir p) (\<lambda>d2.
      if d2 then nfsM NFSERR_ISDIR else unwrapM (set_len_sys p n))) w = (Ok (), w\<lparr>h_disk := d1\<rparr>)"
    using nf ob sz
    by (auto simp: monad_simps calm d1_def set_len_sys_def sysM_calm k_modify_def is_file_at_iff
        is_dir_at_iff split: option.split)
  have ob1: "map_of d1 p = Some ob1"
    using ob by (auto simp: d1_def ob1_def split: option.split)
  have step2: "(case atime of None \<Rightarrow> retM () | Some atime \<Rightarrow>
      let mtime = (case mtime of Some m \<Rightarrow> m | None \<Rightarrow> atime)
      in bindM (usec_to_nsec E (tv_useconds atime)) (\<lambda>ans.
         bindM (usec_to_nsec E (tv_useconds mtime)) (\<lambda>mns.
         bindM (attemptM (futimens_sys p (tv_seconds atime, ans) (tv_seconds mtime, mns))) (\<lambda>retval.
         case retval of Inr _ \<Rightarrow> retM ()
         | Inl errno \<Rightarrow> if errno = ENOENT then nfsM NFSERR_STALE
             else panicM (''Errno = '' @ io_text errno))))) (w\<lparr>h_disk := d1\<rparr>)
    = (Ok (), w\<lparr>h_disk := set_attr_disk (h_clock w) p atime mtime sz ob (h_disk w)\<rparr>)"
  proof (cases atime)
    case None
    then show ?thesis by (cases sz) (auto simp: d1_def set_attr_disk_def monad_simps)
  next
    case (Some a)
    define m where "m = (case mtime of Some m \<Rightarrow> m | None \<Rightarrow> a)"
    have ok: "usec_ok a" "usec_ok m"
      using times Some by (auto simp: times_given_ok_def m_def split: option.splits)
    have "AList.update p x d1 = AList.update p x (h_disk w)" for x
      by (simp add: d1_def split: option.split)
    moreover have "futimens_sys p (tv_seconds a, tv_useconds a * of_nat NANOS_PER_MICRO)
        (tv_seconds m, tv_useconds m * of_nat NANOS_PER_MICRO) (w\<lparr>h_disk := d1\<rparr>)
      = (Ok (), w\<lparr>h_disk := AList.update p (set_times (to_tspec a) (to_tspec m) ob1) d1\<rparr>)"
      using futimens_calm [of "w\<lparr>h_disk := d1\<rparr>", OF _ _ ok] nf ob1 by simp
    moreover have "stamp_obj (Some a) mtime ob1 = set_times (to_tspec a) (to_tspec m) ob1"
      by (cases mtime) (simp_all add: m_def)
    ultimately show ?thesis
      using Some
      by (simp add: m_def [symmetric] usec_range ok attemptM_apply bindM_apply retM_apply
          set_attr_disk_def ob1_def [symmetric])
  qed
  have sync: "(unwrapM sync_sys :: (world, thrift_error, unit) M) (w\<lparr>h_disk := d\<rparr>) = (Ok (), w\<lparr>h_disk := d\<rparr>)" for d
    using nf by (simp add: unwrapM_apply calm)
  show ?thesis
    unfolding fs_set_attr_def
    using nf op step1 step2 sync by (simp add: bindM_apply thenM_apply calm split del: if_split)
qed

text \<open>A size on a directory is refused before anything changes.\<close>

lemma set_attr_dir_size:
  assumes "h_faults w = []" "is_dir_at (h_disk w) p"
  shows "fs_set_attr E p atime mtime (Some n) w = (Err (nfs_error NFSERR_ISDIR), w)"
  using assms
  by (auto simp: fs_set_attr_def monad_simps calm open_sys_def sysM_calm k_open_def is_dir_at_iff)

text \<open>
  With any faults: \<^const>\<open>fs_set_attr\<close> changes only the object at its path, not its kind, and
  without a size not its content.
\<close>

lemma set_attr_keeps:
  "(keep \<Longrightarrow> sz = None) \<Longrightarrow> keeps_at keep p (fs_set_attr E p atime mtime sz) w"
proof -
  assume keep: "keep \<Longrightarrow> sz = None"
  have lenstep: "keeps_at keep p (case sz of None \<Rightarrow> retM () | Some n \<Rightarrow> bindM (fs_is_dir p) (\<lambda>d2.
      if d2 then nfsM NFSERR_ISDIR else unwrapM (set_len_sys p n))) w" for w
  proof (cases sz)
    case (Some n)
    have nk: "\<not> keep" using keep Some by auto
    have "keeps_at False p (set_len_sys p n) w" for w
      unfolding set_len_sys_def by (rule keeps_at_sysM) (auto split: if_splits dest: touches_modify)
    then show ?thesis
      using Some nk by (auto intro!: keeps_at_bindM keeps_at_basic keeps_at_lift
          keeps_at_reads [OF reads_fs_is_dir [where P = "\<lambda>_. True"]])
  qed (simp add: keeps_at_basic)
  have ut: "keeps_at keep p (futimens_sys p a m) w" for a m w
    unfolding futimens_sys_def by (rule keeps_at_sysM) (auto split: if_splits dest: touches_utimens)
  have ns: "keeps_at keep p (usec_to_nsec E u) w" for u w
    by (simp add: usec_to_nsec_def Let_def keeps_at_basic)
  have op: "keeps_at keep p (open_sys p) w" "keeps_at keep p (open_write_sys p) w"
      "keeps_at keep p sync_sys w" for w
    unfolding open_sys_def open_write_sys_def sync_sys_def
    by (rule keeps_at_sysM; auto simp: k_open_def split: option.splits obj.splits if_splits)+
  have times: "keeps_at keep p (case atime of None \<Rightarrow> retM () | Some atime \<Rightarrow>
      let mtime = (case mtime of Some m \<Rightarrow> m | None \<Rightarrow> atime)
      in bindM (usec_to_nsec E (tv_useconds atime)) (\<lambda>ans.
         bindM (usec_to_nsec E (tv_useconds mtime)) (\<lambda>mns.
         bindM (attemptM (futimens_sys p (tv_seconds atime, ans) (tv_seconds mtime, mns))) (\<lambda>retval.
         case retval of Inr _ \<Rightarrow> retM ()
         | Inl errno \<Rightarrow> if errno = ENOENT then nfsM NFSERR_STALE
             else panicM (''Errno = '' @ io_text errno))))) w" for w
    by (auto intro!: keeps_at_bindM keeps_at_basic keeps_at_lift ut ns
        simp: Let_def split: option.split sum.split)
  show ?thesis
    unfolding fs_set_attr_def
    by (intro keeps_at_bindM keeps_at_thenM lenstep times keeps_at_lift op
          keeps_at_reads [OF reads_fs_is_dir [where P = "\<lambda>_. True"]])
       (auto intro: op)
qed

end
