(* ===== verification/Objects.thy ===== *)
theory Objects
  imports Attr
begin

text \<open>
  The requests on names and attributes (\<^verbatim>\<open>server/src/handler/mod.rs\<close>): NULL, GETATTR, SETATTR,
  LOOKUP, CREATE, MKDIR, REMOVE, RMDIR, RENAME and STATFS, with the helpers that create and
  delete a pair of server files. Each handler is the composition the Rust code has, every
  \<^verbatim>\<open>?\<close>, \<^verbatim>\<open>unwrap\<close>, early return and lock operation included.
\<close>

section \<open>Creating\<close>

definition fs_create_obj :: "path \<Rightarrow> string \<Rightarrow> bool \<Rightarrow> (world, string, fid \<times> path) M" where
  "fs_create_obj dpath fname is_file =
     bindM fetch_incM (\<lambda>fid.
     let fpath_numbered = dpath @ [show_u64 fid];
         fpath_named = dpath @ [show_u64 fid @ ''.'' @ fname]
     in thenM (map_errM io_text (if is_file then create_new_sys fpath_numbered
                                 else create_dir_sys fpath_numbered)) (
        thenM (unwrapM (open_sys dpath)) (
        thenM (map_errM io_text sync_sys) (
        thenM (map_errM io_text (file_create_sys fpath_named)) (
        thenM (map_errM io_text sync_sys) (
        retM (fid, fpath_numbered)))))))"

text \<open>\<^verbatim>\<open>create_object\<close> from the point where it owns the name\<close>

definition create_owned ::
  "env \<Rightarrow> zip_create_args \<Rightarrow> path \<Rightarrow> bool \<Rightarrow> (world, thrift_error, zip_dir_op_res) M" where
  "create_owned E fsargs dpath is_file =
     bindM (strM (fs_create_obj dpath (da_filename (ca_where fsargs)) is_file)) (\<lambda>(new_fid, fpath_numbered).
     thenM (fs_set_attr E fpath_numbered (sa_atime (ca_attributes fsargs))
              (sa_mtime (ca_attributes fsargs)) (sa_size (ca_attributes fsargs))) (
     thenM (unlock_name (dpath, da_filename (ca_where fsargs))) (
     thenM (cache_insert new_fid (da_dir (ca_where fsargs))) (
     bindM (fs_get_attr E fpath_numbered new_fid) (\<lambda>attributes.
     retM \<lparr>dr_file = new_fid, dr_attributes = attributes\<rparr>)))))"

definition create_object ::
  "env \<Rightarrow> zip_create_args \<Rightarrow> bool \<Rightarrow> (world, thrift_error, zip_dir_op_res) M" where
  "create_object E fsargs is_file =
     bindM (strM (fs_find_by_fid E (da_dir (ca_where fsargs)))) (\<lambda>dpath.
     case dpath of
       None \<Rightarrow> nfsM NFSERR_STALE
     | Some dpath \<Rightarrow>
         let filename = da_filename (ca_where fsargs) in
         bindM (fs_is_dir dpath) (\<lambda>d.
         if \<not> d then nfsM NFSERR_NOTDIR
         else
           bindM (lock_name (dpath, filename)) (\<lambda>locked.
           if \<not> locked then nfsM NFSERR_EXIST
           else
             bindM (attemptM (fs_find_by_name E dpath filename)) (\<lambda>already.
             case already of
               Inl e \<Rightarrow> thenM (unlock_name (dpath, filename)) (errM (ThriftApplication e))
             | Inr (Some _) \<Rightarrow> thenM (unlock_name (dpath, filename)) (nfsM NFSERR_EXIST)
             | Inr None \<Rightarrow> create_owned E fsargs dpath is_file))))"

section \<open>Deleting\<close>

definition fs_delete_obj ::
  "path \<Rightarrow> u64 \<Rightarrow> string \<Rightarrow> bool \<Rightarrow> (world, thrift_error, unit) M" where
  "fs_delete_obj dpath fid fname is_file =
     (let fpath_numbered = dpath @ [show_u64 fid];
          fpath_named = dpath @ [show_u64 fid @ ''.'' @ fname]
      in thenM
           (if is_file then strM (map_errM io_text (remove_file_sys fpath_numbered))
            else
              bindM (unwrapM (read_dir_sys fpath_numbered)) (\<lambda>entries.
              bindM (attemptM dirents_sys) (\<lambda>it.
              if entries \<noteq> [] \<or> isl it then nfsM NFSERR_NOTEMPTY
              else strM (map_errM io_text (remove_dir_sys fpath_numbered)))))
           (under_cache_lock (
            thenM (cache_remove fid) (
            thenM (unwrapM (open_sys dpath)) (
            thenM (strM (map_errM io_text sync_sys)) (
            thenM (strM (map_errM io_text (remove_file_sys fpath_named))) (
            strM (map_errM io_text sync_sys))))))))"

section \<open>The handlers\<close>

definition handle_null :: "(world, thrift_error, u64) M" where
  "handle_null = getsM w_epoch"

definition handle_getattr :: "env \<Rightarrow> fid \<Rightarrow> (world, thrift_error, zip_fattr) M" where
  "handle_getattr E fhandle =
     bindM (strM (fs_find_by_fid E fhandle)) (\<lambda>fpath_numbered.
     case fpath_numbered of
       Some fpath_numbered \<Rightarrow> fs_get_attr E fpath_numbered fhandle
     | None \<Rightarrow> nfsM NFSERR_STALE)"

definition handle_setattr :: "env \<Rightarrow> zip_sattr_args \<Rightarrow> (world, thrift_error, zip_fattr) M" where
  "handle_setattr E fsargs =
     bindM (strM (fs_find_by_fid E (ss_file fsargs))) (\<lambda>fpath_numbered.
     case fpath_numbered of
       Some fpath_numbered \<Rightarrow>
         thenM (fs_set_attr E fpath_numbered (sa_atime (ss_attributes fsargs))
                  (sa_mtime (ss_attributes fsargs)) (sa_size (ss_attributes fsargs)))
               (fs_get_attr E fpath_numbered (ss_file fsargs))
     | None \<Rightarrow> nfsM NFSERR_STALE)"

definition handle_lookup :: "env \<Rightarrow> zip_dir_op_args \<Rightarrow> (world, thrift_error, zip_dir_op_res) M" where
  "handle_lookup E fsargs =
     bindM (strM (fs_find_by_fid E (da_dir fsargs))) (\<lambda>dpath.
     case dpath of
       None \<Rightarrow> nfsM NFSERR_STALE
     | Some dpath \<Rightarrow>
         bindM (fs_is_dir dpath) (\<lambda>d.
         if \<not> d then nfsM NFSERR_NOTDIR
         else
           bindM (strM (fs_find_by_name E dpath (da_filename fsargs))) (\<lambda>fid.
           case fid of
             Some fid \<Rightarrow>
               bindM (fs_get_attr E (dpath @ [show_u64 fid]) fid) (\<lambda>attributes.
               retM \<lparr>dr_file = fid, dr_attributes = attributes\<rparr>)
           | None \<Rightarrow> nfsM NFSERR_NOENT)))"

definition handle_create :: "env \<Rightarrow> zip_create_args \<Rightarrow> (world, thrift_error, zip_dir_op_res) M" where
  "handle_create E fsargs = create_object E fsargs True"

definition handle_mkdir :: "env \<Rightarrow> zip_create_args \<Rightarrow> (world, thrift_error, zip_dir_op_res) M" where
  "handle_mkdir E fsargs = create_object E fsargs False"

definition handle_remove :: "env \<Rightarrow> zip_dir_op_args \<Rightarrow> (world, thrift_error, unit) M" where
  "handle_remove E fsargs =
     bindM (strM (fs_find_by_fid E (da_dir fsargs))) (\<lambda>dpath.
     case dpath of
       None \<Rightarrow> nfsM NFSERR_STALE
     | Some dpath \<Rightarrow>
         bindM (fs_is_dir dpath) (\<lambda>d.
         if \<not> d then nfsM NFSERR_NOTDIR
         else
           bindM (strM (fs_find_by_name E dpath (da_filename fsargs))) (\<lambda>fid.
           case fid of
             Some fid \<Rightarrow>
               bindM (fs_is_dir (dpath @ [show_u64 fid])) (\<lambda>isd.
               if isd then nfsM NFSERR_ISDIR
               else fs_delete_obj dpath fid (da_filename fsargs) True)
           | None \<Rightarrow> nfsM NFSERR_NOENT)))"

definition handle_rmdir :: "env \<Rightarrow> zip_dir_op_args \<Rightarrow> (world, thrift_error, unit) M" where
  "handle_rmdir E fsargs =
     bindM (strM (fs_find_by_fid E (da_dir fsargs))) (\<lambda>dpath.
     case dpath of
       None \<Rightarrow> nfsM NFSERR_STALE
     | Some dpath \<Rightarrow>
         bindM (fs_is_dir dpath) (\<lambda>d.
         if \<not> d then nfsM NFSERR_NOTDIR
         else
           bindM (strM (fs_find_by_name E dpath (da_filename fsargs))) (\<lambda>fid.
           case fid of
             Some fid \<Rightarrow>
               bindM (fs_is_dir (dpath @ [show_u64 fid])) (\<lambda>isd.
               if \<not> isd then nfsM NFSERR_NOTDIR
               else fs_delete_obj dpath fid (da_filename fsargs) False)
           | None \<Rightarrow> nfsM NFSERR_NOENT)))"

text \<open>The part of RENAME under the lock on \<^verbatim>\<open>fid_cache\<close>\<close>

definition rename_locked ::
  "zip_rename_args \<Rightarrow> path \<Rightarrow> path \<Rightarrow> fid \<Rightarrow> (world, thrift_error, unit) M" where
  "rename_locked fsargs old_loc_dpath new_loc_dpath fid =
     (let name = (new_loc_dpath, da_filename (rn_new_loc fsargs))
      in under_cache_lock (
         bindM (attemptM (rename_sys (old_loc_dpath @ [show_u64 fid])
                                     (new_loc_dpath @ [show_u64 fid]))) (\<lambda>res.
         case res of
           Inl e \<Rightarrow> thenM (unlock_name name) (errM (ThriftTransport e))
         | Inr _ \<Rightarrow>
             bindM (attemptM sync_sys) (\<lambda>res.
             case res of
               Inl e \<Rightarrow> thenM (unlock_name name) (errM (ThriftTransport e))
             | Inr _ \<Rightarrow>
                 bindM (cache_insert fid (da_dir (rn_new_loc fsargs))) (\<lambda>old.
                 case old of
                   Some old \<Rightarrow> assertM (old = da_dir (rn_old_loc fsargs)) ''assertion failed''
                 | None \<Rightarrow> retM ())))))"

definition rename_move ::
  "zip_rename_args \<Rightarrow> path \<Rightarrow> path \<Rightarrow> fid \<Rightarrow> (world, thrift_error, unit) M" where
  "rename_move fsargs old_loc_dpath new_loc_dpath fid =
     (let name = (new_loc_dpath, da_filename (rn_new_loc fsargs));
          old_loc_fpath_named = old_loc_dpath @ [show_u64 fid @ ''.'' @ da_filename (rn_old_loc fsargs)];
          new_loc_fpath_named = new_loc_dpath @ [show_u64 fid @ ''.'' @ da_filename (rn_new_loc fsargs)]
      in thenM (unwrapM (open_sys new_loc_dpath)) (
         bindM (attemptM (file_create_sys new_loc_fpath_named)) (\<lambda>res.
         case res of
           Inl e \<Rightarrow> thenM (unlock_name name) (errM (ThriftTransport e))
         | Inr _ \<Rightarrow>
             bindM (attemptM sync_sys) (\<lambda>res.
             case res of
               Inl e \<Rightarrow> thenM (unlock_name name) (errM (ThriftTransport e))
             | Inr _ \<Rightarrow>
                 thenM (rename_locked fsargs old_loc_dpath new_loc_dpath fid) (
                 thenM (unlock_name name) (
                 ioM (remove_file_sys old_loc_fpath_named)))))))"

definition handle_rename :: "env \<Rightarrow> zip_rename_args \<Rightarrow> (world, thrift_error, unit) M" where
  "handle_rename E fsargs =
     bindM (strM (fs_find_by_fid E (da_dir (rn_old_loc fsargs)))) (\<lambda>old_loc_dpath.
     case old_loc_dpath of
       None \<Rightarrow> nfsM NFSERR_STALE
     | Some old_loc_dpath \<Rightarrow>
     bindM (strM (fs_find_by_fid E (da_dir (rn_new_loc fsargs)))) (\<lambda>new_loc_dpath.
     case new_loc_dpath of
       None \<Rightarrow> nfsM NFSERR_STALE
     | Some new_loc_dpath \<Rightarrow>
     bindM (strM (fs_find_by_name E old_loc_dpath (da_filename (rn_old_loc fsargs)))) (\<lambda>fid.
     case fid of
       None \<Rightarrow> nfsM NFSERR_NOENT
     | Some fid \<Rightarrow>
     let name = (new_loc_dpath, da_filename (rn_new_loc fsargs)) in
     bindM (lock_name name) (\<lambda>locked.
     if \<not> locked then nfsM NFSERR_EXIST
     else
       bindM (attemptM (fs_find_by_name E new_loc_dpath (da_filename (rn_new_loc fsargs)))) (\<lambda>already.
       case already of
         Inl e \<Rightarrow> thenM (unlock_name name) (errM (ThriftApplication e))
       | Inr (Some _) \<Rightarrow> thenM (unlock_name name) (nfsM NFSERR_EXIST)
       | Inr None \<Rightarrow> rename_move fsargs old_loc_dpath new_loc_dpath fid)))))"

text \<open>\<^verbatim>\<open>2 << 20\<close>, \<^verbatim>\<open>1 << 12\<close>, \<^verbatim>\<open>1 << 20\<close>\<close>

definition handle_statfs :: "fid \<Rightarrow> (world, thrift_error, zip_stat_fs_res) M" where
  "handle_statfs fh = retM
     \<lparr>sf_tsize = push_bit 20 2, sf_bsize = push_bit 12 1, sf_blocks = push_bit 20 1,
      sf_bfree = push_bit 20 1, sf_bavail = push_bit 20 1\<rparr>"

end
