(* ===== verification/Data.thy ===== *)
theory Data
  imports Attr
begin

text \<open>
  The requests on file contents (\<^verbatim>\<open>server/src/handler/mod.rs\<close>): READ, WRITE with the stable
  write through a temporary file and the buffers of unstable writes, and COMMIT.
\<close>

section \<open>Temporary files\<close>

text \<open>\<^verbatim>\<open>format!("{}", n)\<close> of an \<^verbatim>\<open>i64\<close>\<close>

definition show_i64 :: "u64 \<Rightarrow> string" where
  "show_i64 w = (if sint w < 0 then CHR ''-'' # show_nat (nat (- sint w)) else show_u64 w)"

definition tmp_path :: "env \<Rightarrow> string \<Rightarrow> path" where
  "tmp_path E fid_text = [''tmp'', fid_text @ ''_'' @ env_tid E]"

section \<open>Reading\<close>

definition handle_read :: "env \<Rightarrow> zip_read_args \<Rightarrow> (world, thrift_error, zip_read_res) M" where
  "handle_read E fsargs =
     bindM (strM (fs_find_by_fid E (ra_file fsargs))) (\<lambda>fpath_numbered.
     case fpath_numbered of
       None \<Rightarrow> nfsM NFSERR_STALE
     | Some fpath_numbered \<Rightarrow>
         bindM (fs_is_file fpath_numbered) (\<lambda>f.
         if \<not> f then nfsM NFSERR_ISDIR
         else
           thenM (unwrapM (open_sys fpath_numbered)) (
           bindM (unwrapM (read_at_sys fpath_numbered (ra_offset fsargs)
                             (min (unat (ra_count fsargs)) MAX_BUF_LEN))) (\<lambda>data.
           bindM (fs_get_attr E fpath_numbered (ra_file fsargs)) (\<lambda>attributes.
           retM \<lparr>rr_attributes = attributes, rr_data = data\<rparr>)))))"

section \<open>Stable writes\<close>

definition fs_stable_write ::
  "env \<Rightarrow> fid \<Rightarrow> u64 \<Rightarrow> u64 \<Rightarrow> bytes \<Rightarrow> (world, thrift_error, u64) M" where
  "fs_stable_write E fid offset count buf =
     bindM (strM (fs_find_by_fid E fid)) (\<lambda>fpath_numbered.
     case fpath_numbered of
       None \<Rightarrow> nfsM NFSERR_STALE
     | Some fpath_numbered \<Rightarrow>
         let tmp_fpath = tmp_path E (show_u64 fid) in
         thenM (ioM (copy_sys fpath_numbered tmp_fpath)) (
         thenM (ioM (open_write_sys tmp_fpath)) (
         thenM (ioM sync_sys) (
         thenM (ioM (seek_sys offset)) (
         thenM (assertM (length buf = unat count) ''assertion failed: buf.len() == count'') (
         thenM (ioM (write_all_sys tmp_fpath offset buf)) (
         thenM (ioM sync_sys) (
         thenM (ioM (rename_sys tmp_fpath fpath_numbered)) (
         retM (of_nat (length buf)))))))))))"

section \<open>Buffers of unstable writes\<close>

text \<open>
  A look-up under the read lock; when the entry is missing, an insertion of a new vector
  under the write lock, without looking again. The result is the address of the vector.
\<close>

definition async_lookup :: "fid \<Rightarrow> (world, 'e, nat option) M" where
  "async_lookup fid = getsM (\<lambda>w. map_of (w_async_bufs w) fid)"

definition async_insert_new :: "fid \<Rightarrow> (world, 'e, nat) M" where
  "async_insert_new fid w =
     (Ok (w_async_next w),
      w\<lparr>w_async_bufs := AList.update fid (w_async_next w) (w_async_bufs w),
        w_async_heap := (w_async_heap w)(w_async_next w := []),
        w_async_next := Suc (w_async_next w)\<rparr>)"

definition get_or_create_async_bufs :: "fid \<Rightarrow> (world, 'e, nat) M" where
  "get_or_create_async_bufs fid =
     bindM (async_lookup fid) (\<lambda>try_read.
     case try_read of Some entry \<Rightarrow> retM entry | None \<Rightarrow> async_insert_new fid)"

definition async_push :: "nat \<Rightarrow> pending_write \<Rightarrow> (world, 'e, unit) M" where
  "async_push addr pw = modifyM (\<lambda>w. w\<lparr>w_async_heap :=
     (w_async_heap w)(addr := w_async_heap w addr @ [pw])\<rparr>)"

definition async_remove :: "fid \<Rightarrow> (world, 'e, nat option) M" where
  "async_remove fid w =
     (Ok (map_of (w_async_bufs w) fid), w\<lparr>w_async_bufs := AList.delete fid (w_async_bufs w)\<rparr>)"

definition async_read :: "nat \<Rightarrow> (world, 'e, pending_write list) M" where
  "async_read addr = getsM (\<lambda>w. w_async_heap w addr)"

text \<open>\<^verbatim>\<open>drain(..)\<close>; the vector is empty afterwards also when the loop is left early.\<close>

definition async_drain :: "nat \<Rightarrow> (world, 'e, pending_write list) M" where
  "async_drain addr w = (Ok (w_async_heap w addr), w\<lparr>w_async_heap := (w_async_heap w)(addr := [])\<rparr>)"

definition handle_write :: "env \<Rightarrow> zip_write_args \<Rightarrow> (world, thrift_error, zip_write_res) M" where
  "handle_write E fsargs =
     (case wa_stable fsargs of
        UNSTABLE \<Rightarrow>
          let size = wa_count fsargs in
          thenM (assertM (length (wa_data fsargs) = unat size) ''assertion failed'') (
          bindM (get_or_create_async_bufs (wa_file fsargs)) (\<lambda>unlocked.
          thenM (async_push unlocked (wa_offset fsargs, size, wa_data fsargs)) (
          bindM (getsM w_epoch) (\<lambda>epoch.
          retM \<lparr>wr_count = size, wr_committed = UNSTABLE, wr_verf = epoch\<rparr>))))
      | _ \<Rightarrow>
          bindM (fs_stable_write E (wa_file fsargs) (wa_offset fsargs) (wa_count fsargs)
                   (wa_data fsargs)) (\<lambda>bytes.
          thenM (assertM (unat bytes = length (wa_data fsargs)) ''assertion failed'') (
          bindM (getsM w_epoch) (\<lambda>epoch.
          retM \<lparr>wr_count = bytes, wr_committed = FILE_SYNC, wr_verf = epoch\<rparr>))))"

section \<open>Commit\<close>

fun commit_loop :: "path \<Rightarrow> pending_write list \<Rightarrow> (world, thrift_error, unit) M" where
  "commit_loop tmp_fpath [] = retM ()"
| "commit_loop tmp_fpath ((offset, count, buf) # to_write) =
     thenM (ioM (seek_sys offset)) (
     thenM (assertM (length buf = unat count) ''assertion failed: buf.len() == count'') (
     thenM (ioM (write_all_sys tmp_fpath offset buf)) (
     commit_loop tmp_fpath to_write)))"

definition handle_commit :: "env \<Rightarrow> zip_commit_args \<Rightarrow> (world, thrift_error, u64) M" where
  "handle_commit E fsargs =
     bindM (strM (fs_find_by_fid E (cm_file fsargs))) (\<lambda>fpath_numbered.
     case fpath_numbered of
       None \<Rightarrow> nfsM NFSERR_STALE
     | Some fpath_numbered \<Rightarrow>
         bindM (async_remove (cm_file fsargs)) (\<lambda>to_write.
         case to_write of
           None \<Rightarrow> getsM w_epoch
         | Some unlocked \<Rightarrow>
             bindM (async_read unlocked) (\<lambda>pending.
             if pending = [] then getsM w_epoch
             else
               let tmp_fpath = tmp_path E (show_i64 (cm_file fsargs)) in
               thenM (ioM (copy_sys fpath_numbered tmp_fpath)) (
               thenM (ioM (open_write_sys tmp_fpath)) (
               thenM (ioM sync_sys) (
               bindM (async_drain unlocked) (\<lambda>drained.
               thenM (commit_loop tmp_fpath drained) (
               thenM (ioM sync_sys) (
               thenM (ioM (rename_sys tmp_fpath fpath_numbered)) (
               getsM w_epoch))))))))))"

end
