(* ===== verification/ReadDir.thy ===== *)
theory ReadDir
  imports Attr
begin

text \<open>
  READDIR (\<^verbatim>\<open>server/src/handler/mod.rs\<close>): the visible entries of a directory, sorted by FID
  and cut into pages. A \<^verbatim>\<open>HashSet\<close> of entries is a list without repetitions.
\<close>

definition dir_entry_of :: "path \<Rightarrow> (world, string, path \<times> (u64 \<times> string \<times> zip_ftype)) M" where
  "dir_entry_of fname =
     (let number = takeWhile (\<lambda>c. c \<noteq> CHR ''.'') (last fname);
          rest = dropWhile (\<lambda>c. c \<noteq> CHR ''.'') (last fname)
      in bindM (unwrap_optM (if rest = [] then None else Some (tl rest))) (\<lambda>name.
         let numbered_file = butlast fname @ [number] in
         bindM (fs_is_dir numbered_file) (\<lambda>d.
         bindM (unwrap_optM (parse_u64 number)) (\<lambda>fid.
         retM (numbered_file, (fid, name, if d then NFDIR else NFREG))))))"

definition fs_read_dir :: "env \<Rightarrow> path \<Rightarrow> (world, string, (u64 \<times> string \<times> zip_ftype) list) M" where
  "fs_read_dir E dpath =
     bindM (unwrap_optM (env_regex E NUMBERED_FILE_RE)) (\<lambda>re.
     bindM (get_numbered_and_named_files re dpath) (\<lambda>(numbered_files, named_files).
     bindM (mapM dir_entry_of named_files) (\<lambda>entries.
     retM (remdups (map snd (filter (\<lambda>(numbered_file, _). numbered_file \<in> set numbered_files) entries))))))"

definition handle_readdir :: "env \<Rightarrow> zip_read_dir_args \<Rightarrow> (world, thrift_error, zip_dir_entry list) M" where
  "handle_readdir E fsargs =
     bindM (strM (fs_find_by_fid E (rd_dir fsargs))) (\<lambda>dpath.
     case dpath of
       None \<Rightarrow> nfsM NFSERR_STALE
     | Some dpath \<Rightarrow>
         bindM (fs_is_dir dpath) (\<lambda>d.
         if \<not> d then nfsM NFSERR_NOTDIR
         else
           bindM (strM (fs_read_dir E dpath)) (\<lambda>contents.
           if length contents \<le> unat (rd_offset fsargs) then retM []
           else
             let entries = map (\<lambda>(fid, fname, ftype).
                   \<lparr>de_fid = fid, de_fname = fname, de_type = ftype\<rparr>) contents;
                 sorted = sort_key (\<lambda>de. sint (de_fid de)) entries;
                 num_de = min (MAX_BUF_LEN div env_dirent_size E) (length sorted)
             in retM (take num_de (drop (unat (rd_offset fsargs)) sorted)))))"

end
