(* ===== verification/Crash.thy ===== *)
theory Crash
  imports Objects Data ReadDir
begin

text \<open>
  A program logic for failures. The durable state of the server is its store and its
  counter. A triple from a durable state says what holds of the durable state when a
  computation returns, and separately what holds when it does not: an error, a panic or a
  power cut in the middle. A second notion says that a power cut is the only thing a
  schedule of power cuts can add to a run.
\<close>

section \<open>Triples with a crash condition\<close>

definition chl ::
  "disk \<Rightarrow> apu \<Rightarrow> (world, 'e, 'a) M \<Rightarrow> ('a \<Rightarrow> disk \<Rightarrow> apu \<Rightarrow> bool) \<Rightarrow> (disk \<Rightarrow> apu \<Rightarrow> bool) \<Rightarrow> bool" where
  "chl d c m Q C \<longleftrightarrow> (\<forall>w. h_disk w = d \<and> w_counter w = c \<longrightarrow>
     wp m (\<lambda>r w'. case r of Ok x \<Rightarrow> Q x (h_disk w') (w_counter w') | Hang \<Rightarrow> False
                  | _ \<Rightarrow> C (h_disk w') (w_counter w')) w)"

named_theorems chl_rules "rules of the crash logic"

lemma chl_mono:
  "chl d c m Q C \<Longrightarrow> (\<And>x d c. Q x d c \<Longrightarrow> Q' x d c) \<Longrightarrow> (\<And>d c. C d c \<Longrightarrow> C' d c) \<Longrightarrow> chl d c m Q' C'"
  unfolding chl_def
  by (erule all_forward, erule imp_forward, assumption, erule wp_mono, auto split: outcome.splits)

lemma chl_bindM:
  assumes "chl d c m Q C" "\<And>x d c. Q x d c \<Longrightarrow> chl d c (f x) R C"
  shows "chl d c (bindM m f) R C"
  unfolding chl_def
proof (intro allI impI)
  fix w :: world assume w: "h_disk w = d \<and> w_counter w = c"
  obtain r w1 where m: "m w = (r, w1)" by (cases "m w")
  have r: "case r of Ok x \<Rightarrow> Q x (h_disk w1) (w_counter w1) | Hang \<Rightarrow> False
      | _ \<Rightarrow> C (h_disk w1) (w_counter w1)"
    using assms(1) w m by (auto simp: chl_def wp_def)
  show "wp (bindM m f) (\<lambda>r w'. case r of Ok x \<Rightarrow> R x (h_disk w') (w_counter w') | Hang \<Rightarrow> False
      | _ \<Rightarrow> C (h_disk w') (w_counter w')) w"
  proof (cases r)
    case (Ok x)
    then have "Q x (h_disk w1) (w_counter w1)" using r by simp
    from assms(2) [OF this] show ?thesis
      using Ok m by (auto simp: chl_def wp_def bindM_apply)
  qed (use r m in \<open>auto simp: wp_def bindM_apply\<close>)
qed

lemma chl_thenM:
  "chl d c m (\<lambda>_. Q) C \<Longrightarrow> (\<And>d c. Q d c \<Longrightarrow> chl d c k R C) \<Longrightarrow> chl d c (thenM m k) R C"
  unfolding thenM_def by (rule chl_bindM)

lemma chl_basic [chl_rules]:
  "Q x d c \<Longrightarrow> chl d c (retM x) Q C"
  "C d c \<Longrightarrow> chl d c (errM e) Q C"
  "C d c \<Longrightarrow> chl d c (panicM msg) Q C"
  "C d c \<Longrightarrow> chl d c (nfsM t) Q C"
  "(\<And>x. Q x d c) \<Longrightarrow> chl d c (getsM f) Q C"
  by (simp_all add: chl_def wp_rules)

lemma chl_assertM [chl_rules]:
  "(b \<Longrightarrow> Q () d c) \<Longrightarrow> (\<not> b \<Longrightarrow> C d c) \<Longrightarrow> chl d c (assertM b msg) Q C"
  by (simp add: chl_def wp_rules)

lemma chl_lift [chl_rules]:
  "chl d c m Q C \<Longrightarrow> chl d c (unwrapM m) Q C"
  "chl d c m Q C \<Longrightarrow> chl d c (map_errM g m) Q C"
  "chl d c m Q C \<Longrightarrow> chl d c (ioM m) Q C"
  "chl d c m' Q C \<Longrightarrow> chl d c (strM m') Q C"
  unfolding chl_def wp_rules
  by (erule all_forward, erule imp_forward, assumption, erule wp_mono,
      (auto elim!: unwrap_out.elims map_err_out.elims split: outcome.splits)[1])+

lemma chl_attemptM [chl_rules]:
  "chl d c m Q C \<Longrightarrow> chl d c (attemptM m) (\<lambda>r d c. case r of Inr x \<Rightarrow> Q x d c | Inl _ \<Rightarrow> C d c) C"
  unfolding chl_def wp_rules
  by (erule all_forward, erule imp_forward, assumption, erule wp_mono,
      auto elim!: attempt_out.elims split: outcome.splits)

lemma chl_sysM:
  assumes "C d c" and "\<And>now x d'. k now d = Inr (x, d') \<Longrightarrow> Q x d' c"
  shows "chl d c (sysM k) Q C"
  unfolding chl_def
proof (intro allI impI)
  fix w :: world assume w: "h_disk w = d \<and> w_counter w = c"
  show "wp (sysM k) (\<lambda>r w'. case r of Ok x \<Rightarrow> Q x (h_disk w') (w_counter w') | Hang \<Rightarrow> False
      | _ \<Rightarrow> C (h_disk w') (w_counter w')) w"
    by (rule wp_sysM) (use w assms in auto)
qed

lemma chl_queryM:
  assumes "C d c" and "\<And>b. b \<longrightarrow> q d \<Longrightarrow> Q b d c"
  shows "chl d c (queryM q) Q C"
  unfolding chl_def
proof (intro allI impI)
  fix w :: world assume w: "h_disk w = d \<and> w_counter w = c"
  show "wp (queryM q) (\<lambda>r w'. case r of Ok x \<Rightarrow> Q x (h_disk w') (w_counter w') | Hang \<Rightarrow> False
      | _ \<Rightarrow> C (h_disk w') (w_counter w')) w"
    by (rule wp_queryM) (use w assms in auto)
qed

lemma chl_tests [chl_rules]:
  "C d c \<Longrightarrow> (\<And>b. b \<longrightarrow> is_dir_at d p \<Longrightarrow> Q b d c) \<Longrightarrow> chl d c (fs_is_dir p) Q C"
  "C d c \<Longrightarrow> (\<And>b. b \<longrightarrow> is_file_at d p \<Longrightarrow> Q b d c) \<Longrightarrow> chl d c (fs_is_file p) Q C"
  unfolding fs_is_dir_def fs_is_file_def by (rule chl_queryM; assumption)+

text \<open>Calls that only look, and the operations on locks, cache and buffers\<close>

lemma chl_looks [chl_rules]:
  "C d c \<Longrightarrow> Q () d c \<Longrightarrow> chl d c sync_sys Q C"
  "C d c \<Longrightarrow> Q () d c \<Longrightarrow> chl d c dirents_sys Q C"
  "C d c \<Longrightarrow> Q () d c \<Longrightarrow> chl d c (open_sys p) Q C"
  "C d c \<Longrightarrow> (is_file_at d p \<Longrightarrow> Q () d c) \<Longrightarrow> chl d c (open_write_sys p) Q C"
  "C d c \<Longrightarrow> Q () d c \<Longrightarrow> chl d c (seek_sys off) Q C"
  unfolding sync_sys_def dirents_sys_def open_sys_def open_write_sys_def seek_sys_def
  by (rule chl_sysM; auto simp: k_open_def is_file_at_iff split: option.splits obj.splits if_splits)+

lemma chl_read_dir [chl_rules]:
  "C d c \<Longrightarrow> Q (children d p) d c \<Longrightarrow> chl d c (read_dir_sys p) Q C"
  unfolding read_dir_sys_def
  by (rule chl_sysM) (auto simp: k_read_dir_def split: option.splits obj.splits)

lemma chl_memory [chl_rules]:
  "(\<And>b. Q1 b d c) \<Longrightarrow> C d c \<Longrightarrow> chl d c (lock_name nm) Q1 C"
  "Q2 () d c \<Longrightarrow> C d c \<Longrightarrow> chl d c (unlock_name nm) Q2 C"
  "(\<And>old. Q3 old d c) \<Longrightarrow> C d c \<Longrightarrow> chl d c (cache_insert f g) Q3 C"
  "Q2 () d c \<Longrightarrow> C d c \<Longrightarrow> chl d c (cache_remove f) Q2 C"
  "(\<And>a. Q4 a d c) \<Longrightarrow> chl d c (async_remove f) Q4 C"
  "(\<And>ws. Q5 ws d c) \<Longrightarrow> chl d c (async_read a) Q5 C"
  "(\<And>ws. Q5 ws d c) \<Longrightarrow> chl d c (async_drain a) Q5 C"
  by (simp_all add: chl_def wp_def lock_name_def unlock_name_def cache_insert_def cache_remove_def
      async_remove_def async_read_def async_drain_def getsM_def)

lemma chl_under_cache_lock:
  "C d c \<Longrightarrow> chl d c m Q C \<Longrightarrow> chl d c (under_cache_lock m) Q C"
  unfolding chl_def
  by (fastforce simp: wp_def under_cache_lock_def split: prod.splits outcome.splits)

lemma chl_reads:
  assumes "\<And>w. h_disk w = d \<Longrightarrow> reads m P w" and "C d c" and "\<And>x. P x \<Longrightarrow> Q x d c"
  shows "chl d c m Q C"
  unfolding chl_def
proof (intro allI impI)
  fix w :: world assume w: "h_disk w = d \<and> w_counter w = c"
  then have "reads m P w" using assms(1) by blast
  then show "wp m (\<lambda>r w'. case r of Ok x \<Rightarrow> Q x (h_disk w') (w_counter w') | Hang \<Rightarrow> False
      | _ \<Rightarrow> C (h_disk w') (w_counter w')) w"
    unfolding reads_def by (rule wp_mono) (use w assms in \<open>auto split: outcome.split\<close>)
qed

lemma chl_keeps_at:
  assumes "\<And>w. h_disk w = d \<Longrightarrow> keeps_at keep p m w"
    and "\<And>d'. touches keep p d d' \<Longrightarrow> C d' c" and "\<And>x d'. touches keep p d d' \<Longrightarrow> Q x d' c"
  shows "chl d c m Q C"
  unfolding chl_def
proof (intro allI impI)
  fix w :: world assume w: "h_disk w = d \<and> w_counter w = c"
  then have "keeps_at keep p m w" using assms(1) by blast
  then show "wp m (\<lambda>r w'. case r of Ok x \<Rightarrow> Q x (h_disk w') (w_counter w') | Hang \<Rightarrow> False
      | _ \<Rightarrow> C (h_disk w') (w_counter w')) w"
    unfolding keeps_at_def by (rule wp_mono) (use w assms in \<open>auto split: outcome.split\<close>)
qed

section \<open>Steps that leave the durable state alone\<close>

definition still :: "(world, 'e, 'a) M \<Rightarrow> bool" where
  "still m \<longleftrightarrow> (\<forall>d c. chl d c m (\<lambda>_ d' c'. d' = d \<and> c' = c) (\<lambda>d' c'. d' = d \<and> c' = c))"

named_theorems still_rules "steps that leave the durable state alone"

lemma chl_still: "still m \<Longrightarrow> C d c \<Longrightarrow> (\<And>x. Q x d c) \<Longrightarrow> chl d c m Q C"
  unfolding still_def by (erule allE [of _ d], erule allE [of _ c], erule chl_mono) auto

lemma chl_still_bind:
  "still m \<Longrightarrow> C d c \<Longrightarrow> (\<And>x. chl d c (f x) Q C) \<Longrightarrow> chl d c (bindM m f) Q C"
  by (rule chl_bindM [where Q = "\<lambda>_ d' c'. d' = d \<and> c' = c"]) (auto intro: chl_still)

lemma chl_still_then:
  "still m \<Longrightarrow> C d c \<Longrightarrow> chl d c k Q C \<Longrightarrow> chl d c (thenM m k) Q C"
  unfolding thenM_def by (rule chl_still_bind)

lemma still_lift [still_rules]:
  "still m \<Longrightarrow> still (unwrapM m)"
  "still m \<Longrightarrow> still (map_errM g m)"
  "still m \<Longrightarrow> still (ioM m)"
  "still m' \<Longrightarrow> still (strM m')"
  by (simp_all add: still_def chl_lift)

lemma still_attemptM [still_rules]: "still m \<Longrightarrow> still (attemptM m)"
  unfolding still_def
  by (intro allI, rule chl_mono [OF chl_attemptM], erule allE, erule allE, assumption)
     (auto split: sum.splits)

lemma still_basic [still_rules]:
  "still (retM x)" "still (errM e)" "still (panicM p)" "still (nfsM t)" "still (assertM b p)" "still (getsM f)"
  by (simp_all add: still_def chl_basic chl_assertM)

lemma still_reads: "(\<And>w. reads m P w) \<Longrightarrow> still m"
  unfolding still_def by (intro allI, rule chl_reads) auto

lemma still_calls [still_rules]:
  "still (fs_is_dir p)" "still (fs_is_file p)" "still sync_sys" "still dirents_sys" "still (open_sys p)"
  "still (open_write_sys p)" "still (seek_sys off)" "still (read_dir_sys p)"
  "still (lock_name nm)" "still (unlock_name nm)" "still (cache_insert f g)" "still (cache_remove f)"
  "still (async_remove f)" "still (async_read a)" "still (async_drain a)" "still (fs_get_attr E p f)"
  unfolding still_def
  by (simp_all add: chl_tests chl_looks chl_read_dir chl_memory)
     (intro allI, rule chl_reads [OF get_attr_reads], simp_all)

lemma chl_sum:
  "(\<And>e. r = Inl e \<Longrightarrow> chl d c (f e) Q C) \<Longrightarrow> (\<And>x. r = Inr x \<Longrightarrow> chl d c (g x) Q C) \<Longrightarrow>
    chl d c (case r of Inl e \<Rightarrow> f e | Inr x \<Rightarrow> g x) Q C"
  by (simp split: sum.split)

lemma chl_if: "(b \<Longrightarrow> chl d c m Q C) \<Longrightarrow> (\<not> b \<Longrightarrow> chl d c m' Q C) \<Longrightarrow> chl d c (if b then m else m') Q C"
  by simp

end
