(* ===== verification/View.thy ===== *)
theory View
  imports Attr
begin

text \<open>
  The abstract store: the NFS files a client can see, and how each change the server makes
  to its host file system shows in it. A file is visible when both of its server files are
  there, along the whole path; everything else (half-created or half-removed pairs,
  temporary files) does not exist for a client.
\<close>

section \<open>The abstract store\<close>

datatype body = FileBody bytes | DirBody

fun obj_body :: "obj \<Rightarrow> body" where
  "obj_body (RegFile _ bs) = FileBody bs"
| "obj_body (DirObj _) = DirBody"

record nfs_file =
  nf_parent :: string
  nf_names :: "string set"
  nf_body :: body

definition names_at :: "disk \<Rightarrow> path \<Rightarrow> string \<Rightarrow> string set" where
  "names_at d p c = (\<lambda>k. drop (Suc (length c)) k) ` set (filter (prefix (c @ ''.'')) (children d p))"

definition file_at :: "disk \<Rightarrow> path \<Rightarrow> nfs_file" where
  "file_at d p =
     \<lparr>nf_parent = (if butlast p = [] then '''' else last (butlast p)),
      nf_names = (if butlast p = [] then {} else names_at d (butlast p) (last p)),
      nf_body = (case map_of d p of Some ob \<Rightarrow> obj_body ob | None \<Rightarrow> DirBody)\<rparr>"

definition view :: "disk \<Rightarrow> fid \<Rightarrow> nfs_file option" where
  "view d f = map_option (file_at d) (fid_path d f)"

lemma in_names_at: "nm \<in> names_at d p c \<longleftrightarrow> map_of d (p @ [c @ CHR ''.'' # nm]) \<noteq> None"
  unfolding in_children_iff [symmetric]
proof
  assume "nm \<in> names_at d p c"
  then obtain k where k: "k \<in> set (children d p)" "prefix (c @ ''.'') k" "nm = drop (Suc (length c)) k"
    by (auto simp: names_at_def)
  from k(2) obtain r where "k = (c @ ''.'') @ r" by (rule prefixE)
  with k show "c @ CHR ''.'' # nm \<in> set (children d p)" by simp
next
  assume "c @ CHR ''.'' # nm \<in> set (children d p)"
  then have "c @ CHR ''.'' # nm \<in> set (filter (prefix (c @ ''.'')) (children d p))"
    by (simp add: prefix_def)
  from imageI [OF this, of "drop (Suc (length c))"] show "nm \<in> names_at d p c"
    by (simp add: names_at_def)
qed

lemma vchild_names: "vchild d p c \<longleftrightarrow> is_numbered c \<and> map_of d (p @ [c]) \<noteq> None \<and> names_at d p c \<noteq> {}"
  by (auto simp: vchild_iff in_names_at ex_in_conv [symmetric])

lemma view_Some:
  "wf_store d \<Longrightarrow> view d f = Some v \<longleftrightarrow> (\<exists>p. vpath d p \<and> last p = show_u64 f \<and> v = file_at d p)"
  by (auto simp: view_def fid_path_Some)

lemma view_path: "wf_store d \<Longrightarrow> vpath d p \<Longrightarrow> last p = show_u64 f \<Longrightarrow> view d f = Some (file_at d p)"
  by (auto simp: view_Some)

lemma view_eqI:
  assumes "wf_store d" "wf_store d'"
    and "\<And>p. vpath d' p \<longleftrightarrow> vpath d p" "\<And>p. vpath d p \<Longrightarrow> file_at d' p = file_at d p"
  shows "view d' = view d"
proof
  fix f
  have "view d' f = Some v \<longleftrightarrow> view d f = Some v" for v
    using assms by (auto simp: view_Some)
  then show "view d' f = view d f" by (metis not_Some_eq)
qed

section \<open>Changes at few places\<close>

definition agree_off :: "path set \<Rightarrow> disk \<Rightarrow> disk \<Rightarrow> bool" where
  "agree_off S d d' \<longleftrightarrow> (\<forall>r. r \<notin> S \<longrightarrow> map_of d' r = map_of d r)"

lemma agree_off_update: "agree_off {q} d (AList.update q ob d)"
  by (simp add: agree_off_def)

lemma agree_off_delete: "agree_off {q} d (AList.delete q d)"
  by (simp add: agree_off_def)

lemma agree_off_touches: "touches keep q d d' \<Longrightarrow> agree_off {q} d d'"
  by (simp add: agree_off_def touches_def)

lemma agree_off_trans: "agree_off S d d' \<Longrightarrow> agree_off T d' d'' \<Longrightarrow> agree_off (S \<union> T) d d''"
  by (simp add: agree_off_def)

text \<open>What a new or changed server file must satisfy\<close>

definition entry_fits :: "disk \<Rightarrow> disk \<Rightarrow> path \<Rightarrow> bool" where
  "entry_fits d d' q \<longleftrightarrow> (exists_at d' q \<and> under_root q \<longrightarrow>
     entry_fid (last q) \<noteq> None \<and> (CHR ''.'' \<in> set (last q) \<longrightarrow> is_file_at d' q)
     \<and> (is_numbered (last q) \<longrightarrow> (\<forall>r. r \<noteq> q \<and> exists_at d' r \<and> under_root r \<longrightarrow> last r \<noteq> last q)))"

lemma wf_store_agree:
  assumes wf: "wf_store d" "wf_disk d'" and ag: "agree_off S d d'"
    and dirs: "[''1''] \<notin> S" "[''tmp''] \<notin> S" and fits: "\<And>q. q \<in> S \<Longrightarrow> entry_fits d d' q"
  shows "wf_store d'"
proof -
  have same: "exists_at d' r = exists_at d r" "is_dir_at d' r = is_dir_at d r"
      "is_file_at d' r = is_file_at d r" if "r \<notin> S" for r
    using ag that by (simp_all add: agree_off_def exists_at_def is_dir_at_def is_file_at_def)
  note old = wf(1) [unfolded wf_store_iff]
  have names: "entry_fid (last q) \<noteq> None \<and> (CHR ''.'' \<in> set (last q) \<longrightarrow> is_file_at d' q)"
    if "exists_at d' q" "under_root q" for q
    using fits [of q] old that same [of q] unfolding entry_fits_def by (cases "q \<in> S") blast+
  have uniq: "q = r" if q: "exists_at d' q" "under_root q" "is_numbered (last q)"
    and r: "exists_at d' r" "under_root r" "last q = last r" for q r
  proof (rule ccontr)
    assume "q \<noteq> r"
    then have "q \<notin> S" "r \<notin> S"
      using fits [of q] fits [of r] q r unfolding entry_fits_def by metis+
    then have "exists_at d q" "exists_at d r" using same q r by simp_all
    then have "q = r" using old q r by blast
    with \<open>q \<noteq> r\<close> show False ..
  qed
  show ?thesis
    unfolding wf_store_iff using wf(2) old same(2) dirs names uniq by blast
qed

lemma fids_below_iff:
  "fids_below n d \<longleftrightarrow> (\<forall>q f. exists_at d q \<and> under_root q \<and> entry_fid (last q) = Some f \<longrightarrow> unat f < n)"
proof -
  have mem: "exists_at d q \<longleftrightarrow> (\<exists>ob. (q, ob) \<in> set d)" for q
    by (force simp: exists_at_def map_of_eq_None_iff)
  show ?thesis
    unfolding fids_below_def list_all_iff mem by (fastforce split: option.splits)
qed

lemma fids_below_agree:
  assumes "fids_below n d" "agree_off S d d'" "n \<le> m"
    and "\<And>q f. q \<in> S \<Longrightarrow> exists_at d' q \<Longrightarrow> under_root q \<Longrightarrow> entry_fid (last q) = Some f \<Longrightarrow> unat f < m"
  shows "fids_below m d'"
  unfolding fids_below_iff
proof (intro allI impI)
  fix q f assume q: "exists_at d' q \<and> under_root q \<and> entry_fid (last q) = Some f"
  show "unat f < m"
  proof (cases "q \<in> S")
    case True
    then show ?thesis using assms(4) q by blast
  next
    case False
    then have "exists_at d q" using assms(2) q by (simp add: agree_off_def exists_at_def)
    then have "unat f < n" using assms(1) q unfolding fids_below_iff by blast
    then show ?thesis using assms(3) by simp
  qed
qed

text \<open>A FID at or above the bound is nowhere in the store.\<close>

lemma fids_below_fresh:
  assumes "fids_below (unat f) d" "under_root q"
  shows "map_of d (q @ [show_u64 f]) = None" "map_of d (q @ [show_u64 f @ CHR ''.'' # nm]) = None"
    "exists_at d r \<Longrightarrow> under_root r \<Longrightarrow> last r \<noteq> show_u64 f"
proof -
  have no: "\<not> (exists_at d q \<and> under_root q \<and> entry_fid (last q) = Some f)" for q
    using assms(1) unfolding fids_below_iff by blast
  have "under_root (q @ [c])" for c
    using assms(2) by (auto simp: under_root_def)
  then show "map_of d (q @ [show_u64 f]) = None" "map_of d (q @ [show_u64 f @ CHR ''.'' # nm]) = None"
    using no [of "q @ [show_u64 f]"] no [of "q @ [show_u64 f @ CHR ''.'' # nm]"]
    by (auto simp: exists_at_def)
  show "exists_at d r \<Longrightarrow> under_root r \<Longrightarrow> last r \<noteq> show_u64 f"
    using no [of r] by auto
qed

section \<open>Changes a client cannot see\<close>

text \<open>A place where no server file shows: its partner is missing, or it is not below the root.\<close>

definition hidden :: "disk \<Rightarrow> path \<Rightarrow> bool" where
  "hidden d q \<longleftrightarrow> (\<forall>p. under_root p \<longrightarrow>
     (\<forall>c. q = p @ [c] \<and> is_numbered c \<longrightarrow> names_at d p c = {})
     \<and> (\<forall>c nm. q = p @ [c @ CHR ''.'' # nm] \<and> is_numbered c \<longrightarrow> map_of d (p @ [c]) = None))
   \<and> q \<noteq> [''1'']"

lemma names_at_agree:
  assumes "agree_off {q} d d'" "\<And>nm. q \<noteq> p @ [c @ CHR ''.'' # nm]"
  shows "names_at d' p c = names_at d p c"
proof -
  have "nm \<in> names_at d' p c \<longleftrightarrow> nm \<in> names_at d p c" for nm
    using assms(1) assms(2) [of nm] by (simp add: in_names_at agree_off_def)
  then show ?thesis by blast
qed

lemma hidden_vchild:
  assumes ag: "agree_off {q} d d'" and hid: "hidden d q" and p: "under_root p"
  shows "vchild d' p c = vchild d p c"
proof (cases "is_numbered c")
  case num: True
  consider "q = p @ [c]" | nm where "q = p @ [c @ CHR ''.'' # nm]"
    | "q \<noteq> p @ [c]" "\<And>nm. q \<noteq> p @ [c @ CHR ''.'' # nm]" by blast
  then show ?thesis
  proof cases
    case 1
    then have "names_at d p c = {}" using hid num p by (auto simp: hidden_def)
    moreover have "names_at d' p c = names_at d p c"
      using 1 numbered_no_dot [OF num] by (intro names_at_agree [OF ag]) auto
    ultimately show ?thesis by (simp add: vchild_names)
  next
    case (2 nm)
    then have "map_of d (p @ [c]) = None" using hid num p by (auto simp: hidden_def)
    moreover have "map_of d' (p @ [c]) = map_of d (p @ [c])"
      using ag 2 by (simp add: agree_off_def)
    ultimately show ?thesis by (simp add: vchild_names)
  next
    case 3
    then have "names_at d' p c = names_at d p c" "map_of d' (p @ [c]) = map_of d (p @ [c])"
      using names_at_agree [OF ag] ag by (auto simp: agree_off_def)
    then show ?thesis by (simp add: vchild_names)
  qed
qed (simp add: vchild_iff)

lemma vpath_cong:
  assumes "map_of d' [''1''] \<noteq> None \<longleftrightarrow> map_of d [''1''] \<noteq> None"
    and "\<And>p c. under_root p \<Longrightarrow> vchild d' p c = vchild d p c"
  shows "vpath d' p = vpath d p"
proof (induction p rule: rev_induct)
  case (snoc c p)
  show ?case
  proof (cases "p = []")
    case True
    then show ?thesis using assms(1) by (auto simp: vpath_def exists_at_def)
  next
    case False
    then show ?thesis
      using snoc assms(2) [of p c] by (auto simp: vpath_snoc dest: vpath_under_root)
  qed
qed simp

lemma vpath_cases:
  "vpath d p \<Longrightarrow> p = [''1''] \<or> (\<exists>r c. p = r @ [c] \<and> r \<noteq> [] \<and> under_root r \<and> vpath d r \<and> vchild d r c)"
proof (cases p rule: rev_cases)
  case (snoc r c)
  then show "vpath d p \<Longrightarrow> ?thesis"
    by (cases "r = []") (auto simp: vpath_snoc dest: vpath_under_root, simp add: vpath_def)
qed simp

lemma hidden_not_vpath:
  assumes "hidden d q" "vpath d p"
  shows "q \<noteq> p" "under_root (butlast p) \<or> p = [''1'']"
    "under_root (butlast p) \<Longrightarrow> is_numbered c \<Longrightarrow> vchild d (butlast p) c \<Longrightarrow> q \<noteq> butlast p @ [c @ CHR ''.'' # nm]"
proof -
  from assms(2) have cases: "p = [''1''] \<or> (\<exists>r c. p = r @ [c] \<and> under_root r \<and> vchild d r c)"
    using vpath_cases by blast
  then show "under_root (butlast p) \<or> p = [''1'']" by auto
  show "q \<noteq> p"
    using cases assms(1) by (auto simp: hidden_def vchild_names)
  show "under_root (butlast p) \<Longrightarrow> is_numbered c \<Longrightarrow> vchild d (butlast p) c \<Longrightarrow>
      q \<noteq> butlast p @ [c @ CHR ''.'' # nm]"
    using assms(1) by (auto simp: hidden_def vchild_names)
qed

lemma hidden_view:
  assumes wf: "wf_store d" "wf_store d'" and ag: "agree_off {q} d d'" and hid: "hidden d q"
  shows "view d' = view d"
proof (rule view_eqI [OF wf])
  have vp: "vpath d' p = vpath d p" for p
    using ag hid hidden_vchild [OF ag hid]
    by (intro vpath_cong) (auto simp: agree_off_def hidden_def)
  then show "\<And>p. vpath d' p = vpath d p" .
  fix p assume p: "vpath d p"
  have "q \<noteq> p" by (rule hidden_not_vpath [OF hid p])
  then have body: "map_of d' p = map_of d p" using ag by (simp add: agree_off_def)
  have "names_at d' (butlast p) (last p) = names_at d (butlast p) (last p)" if ne: "butlast p \<noteq> []"
  proof -
    obtain r c where "p = r @ [c]" "under_root r" "vchild d r c"
      using vpath_cases [OF p] ne by auto
    then show ?thesis
      using hidden_not_vpath(3) [OF hid p, of c] by (intro names_at_agree [OF ag]) (auto simp: vchild_iff)
  qed
  with body show "file_at d' p = file_at d p" by (simp add: file_at_def)
qed

lemma show_u64_not_named [simp]:
  "show_u64 f \<noteq> c @ CHR ''.'' # nm" "c @ CHR ''.'' # nm \<noteq> show_u64 f"
  using show_u64_no_dot [of f] by (metis in_set_conv_decomp)+

lemma named_key:
  assumes "show_u64 f @ CHR ''.'' # nm = c @ CHR ''.'' # nm'" "is_numbered c"
  shows "c = show_u64 f" "nm' = nm"
proof -
  show "c = show_u64 f"
    using assms takeWhile_numbered [of c nm'] takeWhile_show_u64 [of f nm] by metis
  with assms(1) show "nm' = nm" by simp
qed

lemma absent_hidden:
  assumes "map_of d (p @ [show_u64 f]) = None" "p \<noteq> []"
  shows "hidden d (p @ [show_u64 f @ CHR ''.'' # nm])"
  unfolding hidden_def
proof (intro allI impI conjI)
  fix q c nm' assume q: "p @ [show_u64 f @ CHR ''.'' # nm] = q @ [c @ CHR ''.'' # nm'] \<and> is_numbered c"
  then have "q = p" "c = show_u64 f" using named_key(1) [of f nm c nm'] by simp_all
  then show "map_of d (q @ [c]) = None" using assms(1) by simp
next
  fix q c assume "p @ [show_u64 f @ CHR ''.'' # nm] = q @ [c] \<and> is_numbered c"
  then show "names_at d q c = {}" by auto
qed (use assms in simp)

lemma hidden_vpath:
  assumes "agree_off {q} d d'" "hidden d q"
  shows "vpath d' p = vpath d p"
  using assms hidden_vchild [OF assms]
  by (intro vpath_cong) (auto simp: agree_off_def hidden_def)

section \<open>A file appears or disappears\<close>

text \<open>One more visible step, below a visible directory, with nothing below itself\<close>

lemma vpath_new_leaf:
  assumes root: "map_of d' [''1''] \<noteq> None \<longleftrightarrow> map_of d [''1''] \<noteq> None"
    and dp: "vpath d dp"
    and step: "\<And>p c. under_root p \<Longrightarrow> vchild d' p c \<longleftrightarrow> vchild d p c \<or> (p = dp \<and> c = s)"
    and leaf: "\<And>c. \<not> vchild d' (dp @ [s]) c" and new: "\<not> vchild d dp s"
  shows "vpath d' q \<longleftrightarrow> vpath d q \<or> q = dp @ [s]"
proof (induction q rule: rev_induct)
  case (snoc c q)
  have ur: "under_root dp" using dp by (rule vpath_under_root)
  show ?case
  proof (cases "q = []")
    case True
    then show ?thesis using root dp by (auto simp: vpath_def exists_at_def)
  next
    case False
    have "\<not> vpath d (dp @ [s])"
      using new dp vpath_snoc [of dp d s] by (cases "dp = []") auto
    moreover have "under_root (dp @ [s])" using ur by (auto simp: under_root_def)
    ultimately show ?thesis
      using snoc step [of q c] leaf [of c] dp False ur step [of "dp @ [s]" c]
      by (auto simp: vpath_snoc dest: vpath_under_root)
  qed
qed simp

lemma view_new_leaf:
  assumes wf: "wf_store d" "wf_store d'"
    and vp: "\<And>q. vpath d' q \<longleftrightarrow> vpath d q \<or> q = dp @ [show_u64 f]"
    and same: "\<And>q. vpath d q \<Longrightarrow> file_at d' q = file_at d q"
  shows "view d' = (view d)(f \<mapsto> file_at d' (dp @ [show_u64 f]))"
proof
  fix g
  have uniq: "q = dp @ [show_u64 f]" if "vpath d' q" "last q = show_u64 f" for q
    using that vp [of "dp @ [show_u64 f]"] wf(2) by (auto intro: vpath_unique simp: wf_store_def)
  have "view d' g = Some v \<longleftrightarrow> ((view d)(f \<mapsto> file_at d' (dp @ [show_u64 f]))) g = Some v" for v
  proof (cases "g = f")
    case True
    then show ?thesis using uniq vp by (auto simp: view_Some [OF wf(2)])
  next
    case False
    then have "view d' g = Some v \<longleftrightarrow> (\<exists>p. vpath d p \<and> last p = show_u64 g \<and> v = file_at d' p)"
      using vp by (auto simp: view_Some [OF wf(2)])
    then show ?thesis
      using False same by (auto simp: view_Some [OF wf(1)])
  qed
  then show "view d' g = ((view d)(f \<mapsto> file_at d' (dp @ [show_u64 f]))) g"
    by (metis not_Some_eq)
qed

text \<open>Only the names of one server file can have changed.\<close>

lemma file_at_agree:
  assumes "agree_off {q} d d'" "q \<noteq> p"
    and "\<And>nm. butlast p \<noteq> [] \<Longrightarrow> q \<noteq> butlast p @ [last p @ CHR ''.'' # nm]"
  shows "file_at d' p = file_at d p"
  using assms names_at_agree [OF assms(1), of "butlast p" "last p"]
  by (auto simp: file_at_def agree_off_def)

text \<open>A pair of server files, made one after the other\<close>

definition add_numbered :: "path \<Rightarrow> fid \<Rightarrow> obj \<Rightarrow> disk \<Rightarrow> disk" where
  "add_numbered dp f ob d = AList.update (dp @ [show_u64 f]) ob d"

definition add_named :: "path \<Rightarrow> fid \<Rightarrow> string \<Rightarrow> obj \<Rightarrow> disk \<Rightarrow> disk" where
  "add_named dp f nm ob d = AList.update (dp @ [show_u64 f @ CHR ''.'' # nm]) ob d"

lemma under_root_snoc: "under_root p \<Longrightarrow> under_root (p @ [c])"
  by (auto simp: under_root_def)

lemma add_numbered_ok:
  assumes wf: "wf_store d" and dp: "under_root dp" "is_dir_at d dp"
    and fresh: "fids_below (unat f) d"
  shows "wf_store (add_numbered dp f ob d)" "fids_below (Suc (unat f)) (add_numbered dp f ob d)"
    "hidden d (dp @ [show_u64 f])"
proof -
  let ?q = "dp @ [show_u64 f]" and ?d = "add_numbered dp f ob d"
  have ag: "agree_off {?q} d ?d" by (simp add: add_numbered_def agree_off_update)
  note none = fids_below_fresh [OF fresh dp(1)]
  have wfd: "wf_disk ?d"
    unfolding add_numbered_def using wf dp none by (intro wf_disk_update_new) (auto simp: wf_store_def)
  have "entry_fits d ?d ?q"
    using none(3) by (auto simp: entry_fits_def add_numbered_def exists_at_def)
  then show "wf_store ?d"
    using dp by (intro wf_store_agree [OF wf wfd ag]) (auto simp: under_root_def)
  show "fids_below (Suc (unat f)) ?d"
    by (rule fids_below_agree [OF fresh ag]) auto
  have "names_at d dp (show_u64 f) = {}"
    using none(2) in_names_at [of _ d dp "show_u64 f"] by blast
  then show "hidden d ?q"
    using dp by (auto simp: hidden_def under_root_def)
qed

lemma add_named_ok:
  assumes wf: "wf_store d" and dp: "under_root dp" "is_dir_at d dp"
    and ob: "ob = RegFile st bs" and nd: "\<not> is_dir_at d (dp @ [show_u64 f @ CHR ''.'' # nm])"
    and below: "fids_below n d" "unat f < n"
  shows "wf_store (add_named dp f nm ob d)" "fids_below n (add_named dp f nm ob d)"
proof -
  let ?q = "dp @ [show_u64 f @ CHR ''.'' # nm]" and ?d = "add_named dp f nm ob d"
  have ag: "agree_off {?q} d ?d" by (simp add: add_named_def agree_off_update)
  have wfd: "wf_disk ?d"
    unfolding add_named_def
  proof (cases "map_of d ?q")
    case None
    then show "wf_disk (AList.update ?q ob d)"
      using wf dp by (intro wf_disk_update_new) (auto simp: wf_store_def)
  next
    case (Some ob')
    then show "wf_disk (AList.update ?q ob d)"
      using wf nd by (intro wf_disk_update_same) (auto simp: wf_store_def)
  qed
  have "entry_fits d ?d ?q"
    using ob by (auto simp: entry_fits_def add_named_def is_file_at_iff)
  then show "wf_store ?d"
    using dp by (intro wf_store_agree [OF wf wfd ag]) (auto simp: under_root_def)
  show "fids_below n ?d"
    by (rule fids_below_agree [OF below(1) ag]) (use below(2) in auto)
qed

text \<open>The named file makes the pair visible.\<close>

lemma add_named_view:
  assumes wf: "wf_store d" "wf_store d'" and dp: "vpath d dp"
    and num: "map_of d (dp @ [show_u64 f]) = Some ob0"
    and none: "names_at d dp (show_u64 f) = {}"
    and leaf: "\<And>c. map_of d (dp @ [show_u64 f, c]) = None"
    and d': "d' = add_named dp f nm ob d"
  shows "view d' = (view d)(f \<mapsto> \<lparr>nf_parent = last dp, nf_names = {nm}, nf_body = obj_body ob0\<rparr>)"
proof -
  let ?s = "show_u64 f" and ?q = "dp @ [show_u64 f @ CHR ''.'' # nm]"
  have ag: "agree_off {?q} d d'" unfolding d' add_named_def by (rule agree_off_update)
  have ur: "under_root dp" "dp \<noteq> []" using dp by (auto dest: vpath_under_root)
  have step: "vchild d' p c \<longleftrightarrow> vchild d p c \<or> (p = dp \<and> c = ?s)" if p: "under_root p" for p c
  proof (cases "p = dp \<and> c = ?s")
    case True
    then have "nm \<in> names_at d' p c" by (auto simp: in_names_at d' add_named_def)
    moreover have "map_of d' (p @ [c]) \<noteq> None"
      using True num ag by (auto simp: agree_off_def)
    ultimately show ?thesis using True by (auto simp: vchild_names)
  next
    case other: False
    show ?thesis
    proof (cases "is_numbered c")
      case num: True
      have "c = ?s" if "?s @ CHR ''.'' # nm = c @ CHR ''.'' # k" for k
        by (rule named_key(1) [OF that num])
      then have "?q \<noteq> p @ [c @ CHR ''.'' # k]" for k
        using other by auto
      then have "names_at d' p c = names_at d p c" by (intro names_at_agree [OF ag]) auto
      moreover have "map_of d' (p @ [c]) = map_of d (p @ [c])"
      proof -
        have "p @ [c] \<noteq> ?q" using num not_numbered_named [of ?s nm] by auto
        then show ?thesis using ag by (simp add: agree_off_def)
      qed
      ultimately show ?thesis using other by (auto simp: vchild_names)
    qed (use other in \<open>auto simp: vchild_iff\<close>)
  qed
  have new: "\<not> vchild d dp ?s" using none by (simp add: vchild_names)
  have leaf': "\<not> vchild d' (dp @ [?s]) c" for c
  proof -
    have "map_of d' (dp @ [?s, c]) = None"
      using leaf [of c] ag by (auto simp: agree_off_def)
    then show ?thesis by (simp add: vchild_iff)
  qed
  have root: "map_of d' [''1''] \<noteq> None \<longleftrightarrow> map_of d [''1''] \<noteq> None"
    using ag ur by (auto simp: agree_off_def)
  have vp: "vpath d' q \<longleftrightarrow> vpath d q \<or> q = dp @ [?s]" for q
    by (rule vpath_new_leaf [OF root dp step leaf' new])
  have same: "file_at d' q = file_at d q" if q: "vpath d q" for q
  proof (rule file_at_agree [OF ag])
    show "?q \<noteq> q" using vpath_last_numbered [OF q] by auto
    fix k assume "butlast q \<noteq> []"
    then obtain r c where rc: "q = r @ [c]" "vchild d r c"
      using vpath_cases [OF q] by auto
    show "?q \<noteq> butlast q @ [last q @ CHR ''.'' # k]"
    proof
      assume "?q = butlast q @ [last q @ CHR ''.'' # k]"
      then have "r = dp" "?s @ CHR ''.'' # nm = c @ CHR ''.'' # k"
        using rc by simp_all
      then have "c = ?s" using rc(2) named_key(1) by (simp add: vchild_iff)
      then show False using rc(2) new \<open>r = dp\<close> by simp
    qed
  qed
  have "names_at d' dp ?s = {nm}"
    using none by (auto simp: set_eq_iff in_names_at d' add_named_def)
  moreover have "map_of d' (dp @ [?s]) = Some ob0"
    using num ag by (auto simp: agree_off_def)
  ultimately have "file_at d' (dp @ [?s]) = \<lparr>nf_parent = last dp, nf_names = {nm}, nf_body = obj_body ob0\<rparr>"
    using ur by (simp add: file_at_def)
  then show ?thesis using view_new_leaf [OF wf vp same] by simp
qed

text \<open>Deleting a server file that has nothing below it\<close>

lemma delete_ok:
  assumes wf: "wf_store d" and below: "fids_below n d"
    and q: "q \<noteq> []" "q \<noteq> [''1'']" "q \<noteq> [''tmp'']" and leaf: "\<And>c. map_of d (q @ [c]) = None"
  shows "wf_store (AList.delete q d)" "fids_below n (AList.delete q d)"
proof -
  have wfd: "wf_disk (AList.delete q d)"
    using wf q leaf by (intro wf_disk_delete) (simp_all add: wf_store_def)
  show "wf_store (AList.delete q d)"
    using q by (intro wf_store_agree [OF wf wfd agree_off_delete])
      (auto simp: entry_fits_def exists_at_def)
  show "fids_below n (AList.delete q d)"
    by (rule fids_below_agree [OF below agree_off_delete]) (auto simp: exists_at_def)
qed

text \<open>Without its numbered file the pair is gone.\<close>

lemma delete_numbered_view:
  assumes wf: "wf_store d" "wf_store d'" and dp: "vpath d dp" and vis: "vchild d dp (show_u64 f)"
    and leaf: "\<And>c. map_of d (dp @ [show_u64 f, c]) = None"
    and d': "d' = AList.delete (dp @ [show_u64 f]) d"
  shows "view d' = (view d)(f := None)"
proof -
  let ?s = "show_u64 f" and ?q = "dp @ [show_u64 f]"
  have ag: "agree_off {?q} d' d" by (simp add: agree_off_def d')
  have ur: "under_root dp" "dp \<noteq> []" using dp by (auto dest: vpath_under_root)
  have none: "map_of d' ?q = None" by (simp add: d')
  have step: "vchild d p c \<longleftrightarrow> vchild d' p c \<or> (p = dp \<and> c = ?s)" if p: "under_root p" for p c
  proof (cases "p = dp \<and> c = ?s")
    case True
    then show ?thesis using vis by simp
  next
    case False
    have "names_at d p c = names_at d' p c" if "is_numbered c"
      by (rule names_at_agree [OF ag]) auto
    moreover have "map_of d (p @ [c]) = map_of d' (p @ [c])"
      using ag False by (auto simp: agree_off_def)
    ultimately show ?thesis using False by (auto simp: vchild_names)
  qed
  have new: "\<not> vchild d' dp ?s" using none by (simp add: vchild_iff)
  have leaf': "\<not> vchild d (dp @ [?s]) c" for c using leaf by (simp add: vchild_iff)
  have root: "map_of d [''1''] \<noteq> None \<longleftrightarrow> map_of d' [''1''] \<noteq> None"
    using ag ur by (auto simp: agree_off_def)
  have "vpath d' dp"
  proof -
    have *: "vchild d' p c = vchild d p c" if "under_root p" "prefix (p @ [c]) dp" for p c
      using step [OF that(1), of c] that(2) by (auto dest: prefix_length_le)
    have "prefix r dp \<Longrightarrow> vpath d r \<Longrightarrow> vpath d' r" for r
    proof (induction r rule: rev_induct)
      case (snoc c r)
      show ?case
      proof (cases "r = []")
        case True
        then show ?thesis using snoc.prems root by (auto simp: vpath_def exists_at_def)
      next
        case False
        have "prefix r dp" using snoc.prems(1) by (rule append_prefixD)
        then show ?thesis
          using snoc False * [of r c] by (auto simp: vpath_snoc dest: vpath_under_root)
      qed
    qed simp
    then show ?thesis using dp by simp
  qed
  then have vp: "vpath d q \<longleftrightarrow> vpath d' q \<or> q = ?q" for q
    by (rule vpath_new_leaf [OF root _ step leaf' new])
  have same: "file_at d q = file_at d' q" if "vpath d' q" for q
  proof (rule file_at_agree [OF ag])
    show "?q \<noteq> q" using vpath_exists [OF that] none by auto
  qed auto
  have "view d = (view d')(f \<mapsto> file_at d ?q)"
    by (rule view_new_leaf [OF wf(2,1) vp same])
  moreover have "view d' f = None"
  proof -
    have "\<not> (vpath d' q \<and> last q = ?s)" for q
      using vpath_unique [of d q ?q] vp [of q] vp [of ?q] wf(1) none vpath_exists [of d' q]
      by (auto simp: wf_store_def)
    then show ?thesis by (simp add: view_def fid_path_None)
  qed
  ultimately show ?thesis by (auto simp: fun_eq_iff)
qed

section \<open>The content of a file changes\<close>

lemma content_view:
  assumes wf: "wf_store d" "wf_store d'" and ag: "agree_off {p} d d'" and p: "fid_path d f = Some p"
    and ex: "map_of d' p = Some ob'"
  shows "view d' = (view d)(f \<mapsto> (file_at d p)\<lparr>nf_body := obj_body ob'\<rparr>)"
proof -
  let ?new = "(file_at d p)\<lparr>nf_body := obj_body ob'\<rparr>"
  have vp: "vpath d p" "last p = show_u64 f" using p fid_path_Some [OF wf(1)] by auto
  have nm: "names_at d' r c = names_at d r c" if "is_numbered c" for r c
  proof (rule names_at_agree [OF ag])
    fix k
    show "p \<noteq> r @ [c @ CHR ''.'' # k]"
    proof
      assume "p = r @ [c @ CHR ''.'' # k]"
      with vp(2) have "c @ CHR ''.'' # k = show_u64 f" by simp
      then show False by simp
    qed
  qed
  have ex_same: "map_of d' q = None \<longleftrightarrow> map_of d q = None" for q
    using ag ex vpath_exists [OF vp(1)] by (cases "q = p") (auto simp: agree_off_def)
  have vp': "vpath d' q = vpath d q" for q
  proof (rule vpath_cong)
    show "vchild d' r c = vchild d r c" for r c
      unfolding vchild_names using nm [of c r] ex_same by auto
  qed (simp add: ex_same)
  have at: "file_at d' q = (if q = p then ?new else file_at d q)" if q: "vpath d q" for q
  proof (cases "q = p")
    case True
    then show ?thesis using nm [OF vpath_last_numbered [OF q]] ex by (simp add: file_at_def)
  next
    case False
    then show ?thesis
      using nm [OF vpath_last_numbered [OF q]] ag by (simp add: file_at_def agree_off_def)
  qed
  show ?thesis
  proof
    fix g
    show "view d' g = ((view d)(f \<mapsto> ?new)) g"
    proof (cases "g = f")
      case True
      have "view d' f = Some (file_at d' p)" using vp vp' by (intro view_path [OF wf(2)]) simp_all
      then show ?thesis using True at [OF vp(1)] by simp
    next
      case False
      have "q \<noteq> p" if "last q = show_u64 g" for q using that False vp(2) by auto
      then have "view d' g = Some v \<longleftrightarrow> view d g = Some v" for v
        unfolding view_Some [OF wf(1)] view_Some [OF wf(2)] using vp' at by auto
      then show ?thesis using False by (metis fun_upd_other not_Some_eq)
    qed
  qed
qed

lemma view_fid_path: "fid_path d f = Some p \<Longrightarrow> view d f = Some (file_at d p)"
  by (simp add: view_def)

text \<open>A change of times, or of nothing a client sees\<close>

lemma touches_view:
  assumes wf: "wf_store d" and t: "touches True p d d'"
  shows "view d' = view d"
proof -
  have sh: "same_shape d d'" using t by (simp add: touches_def)
  have wf': "wf_store d'" using same_shape_wf_store [OF sh wf] .
  have "file_at d' q = file_at d q" for q
  proof -
    have "names_at d' r c = names_at d r c" for r c
      using same_shape_tests(1) [OF sh] by (auto simp: set_eq_iff in_names_at exists_at_def)
    moreover have "map_option obj_body (map_of d' q) = map_option obj_body (map_of d q)"
    proof (cases "q = p")
      case True
      show ?thesis
      proof (cases "map_of d p")
        case None
        then have "map_of d' p = None"
          using same_shape_tests(1) [OF sh, of p] by (simp add: exists_at_def)
        with None True show ?thesis by simp
      next
        case (Some ob)
        then show ?thesis
          using t True same_shape_tests(2) [OF sh, of p]
          by (cases ob) (auto simp: touches_def is_dir_at_iff)
      qed
    qed (use t in \<open>simp add: touches_def\<close>)
    ultimately show ?thesis
      by (auto simp: file_at_def split: option.splits)
  qed
  then show ?thesis
    using same_shape_vpath [OF sh] by (intro view_eqI [OF wf wf']) auto
qed

lemma touches_below: "touches keep p d d' \<Longrightarrow> fids_below n d \<Longrightarrow> fids_below n d'"
  by (auto simp: fids_below_iff touches_def same_shape_tests)

section \<open>A file moves to another directory\<close>

text \<open>
  The move of the numbered file \<open>a\<close> to \<open>b\<close>, with everything below it, when the new named
  file is already there.
\<close>

definition moved :: "path \<Rightarrow> path \<Rightarrow> disk \<Rightarrow> disk \<Rightarrow> bool" where
  "moved a b d d' \<longleftrightarrow> (\<forall>q. map_of d' q =
     (if prefix b q then map_of d (a @ drop (length b) q)
      else if prefix a q then None else map_of d q))"

lemma moved_cases:
  assumes "moved a b d d'"
  shows "map_of d' (b @ r) = map_of d (a @ r)"
    and "\<not> prefix b q \<Longrightarrow> prefix a q \<Longrightarrow> map_of d' q = None"
    and "\<not> prefix b q \<Longrightarrow> \<not> prefix a q \<Longrightarrow> map_of d' q = map_of d q"
  using assms by (simp_all add: moved_def)

lemma numbered_prefix_named:
  assumes "is_numbered s"
  shows "prefix (od @ [s]) (p @ [c @ CHR ''.'' # nm]) \<longleftrightarrow> prefix (od @ [s]) p"
  using assms not_numbered_named [of c nm] by auto

definition moves_to :: "path \<Rightarrow> path \<Rightarrow> fid \<Rightarrow> disk \<Rightarrow> disk \<Rightarrow> bool" where
  "moves_to od nd f d d' \<longleftrightarrow> wf_store d \<and> vpath d od \<and> vpath d nd \<and> od \<noteq> nd
     \<and> vchild d od (show_u64 f) \<and> \<not> prefix (od @ [show_u64 f]) nd
     \<and> moved (od @ [show_u64 f]) (nd @ [show_u64 f]) d d'
     \<and> names_at d nd (show_u64 f) \<noteq> {}"

lemma moves_toD:
  assumes "moves_to od nd f d d'"
  shows "wf_store d" "vpath d od" "vpath d nd" "od \<noteq> nd" "vchild d od (show_u64 f)"
    "\<not> prefix (od @ [show_u64 f]) nd" "moved (od @ [show_u64 f]) (nd @ [show_u64 f]) d d'"
    "names_at d nd (show_u64 f) \<noteq> {}" "od \<noteq> []" "nd \<noteq> []" "under_root od" "under_root nd"
  using assms by (auto simp: moves_to_def dest: vpath_under_root)

lemma move_nb:
  assumes m: "moves_to od nd f d d'"
  shows "\<not> prefix (nd @ [show_u64 f]) od" "map_of d (nd @ [show_u64 f]) = None"
proof -
  note wf = moves_toD(1) [OF m] and od = moves_toD(2) [OF m] and ne = moves_toD(4) [OF m]
    and vis = moves_toD(5) [OF m] and ur = moves_toD(11,12) [OF m]
  show none: "map_of d (nd @ [show_u64 f]) = None"
  proof (rule ccontr)
    assume "map_of d (nd @ [show_u64 f]) \<noteq> None"
    then have "nd @ [show_u64 f] = od @ [show_u64 f]"
      using wf vis ur
      by (intro fids_uniqueD [of d]) (auto simp: wf_store_def vchild_iff under_root_def)
    with ne show False by simp
  qed
  show "\<not> prefix (nd @ [show_u64 f]) od"
  proof
    assume "prefix (nd @ [show_u64 f]) od"
    then obtain r where "od = (nd @ [show_u64 f]) @ r" by (rule prefixE)
    then have "vpath d (nd @ [show_u64 f])" using od vpath_prefix [of d "nd @ [show_u64 f]" r] by simp
    then show False using vpath_exists none by blast
  qed
qed

lemma move_incomparable:
  assumes "moves_to od nd f d d'"
  shows "\<not> prefix (nd @ [show_u64 f]) (od @ [show_u64 f])" "\<not> prefix (od @ [show_u64 f]) (nd @ [show_u64 f])"
  using move_nb(1) [OF assms] moves_toD(4,6) [OF assms] by auto

lemma move_names:
  assumes m: "moves_to od nd f d d'"
  shows "names_at d' (nd @ show_u64 f # r) c = names_at d (od @ show_u64 f # r) c"
  "\<not> prefix (od @ [show_u64 f]) p \<Longrightarrow> \<not> prefix (nd @ [show_u64 f]) p \<Longrightarrow> names_at d' p c = names_at d p c"
proof -
  note mv = moves_toD(7) [OF m]
  have "map_of d' (nd @ show_u64 f # r @ [k]) = map_of d (od @ show_u64 f # r @ [k])" for k
    using moved_cases(1) [OF mv, of "r @ [k]"] by simp
  then show "names_at d' (nd @ show_u64 f # r) c = names_at d (od @ show_u64 f # r) c"
    by (simp add: set_eq_iff in_names_at)
  assume p: "\<not> prefix (od @ [show_u64 f]) p" "\<not> prefix (nd @ [show_u64 f]) p"
  have "map_of d' (p @ [c @ CHR ''.'' # nm]) = map_of d (p @ [c @ CHR ''.'' # nm])" for nm
    using p by (intro moved_cases(3) [OF mv]) (simp_all only: numbered_prefix_named is_numbered_show not_False_eq_True)
  then show "names_at d' p c = names_at d p c"
    by (simp add: set_eq_iff in_names_at)
qed

lemma move_vpath:
  assumes m: "moves_to od nd f d d'"
  shows "vpath d' q \<longleftrightarrow>
     (if prefix (nd @ [show_u64 f]) q then vpath d (od @ show_u64 f # drop (Suc (length nd)) q)
      else if prefix (od @ [show_u64 f]) q then False else vpath d q)"
proof (induction q rule: rev_induct)
  case Nil
  then show ?case by simp
next
  case (snoc c q)
  let ?a = "od @ [show_u64 f]" and ?b = "nd @ [show_u64 f]"
  note od = moves_toD(2) [OF m] and nd = moves_toD(3) [OF m] and vis = moves_toD(5) [OF m]
    and na = moves_toD(6) [OF m] and mv = moves_toD(7) [OF m] and named = moves_toD(8) [OF m]
    and ur = moves_toD(9-12) [OF m] and move_names = move_names [OF m]
    and move_incomparable = move_incomparable [OF m]
  show ?case
  proof (cases "q = []")
    case True
    have "map_of d' [''1''] = map_of d [''1'']"
      using ur by (intro moved_cases(3) [OF mv]) (auto simp: prefix_Cons)
    then show ?thesis
      using True ur by (auto simp: vpath_def exists_at_def prefix_Cons)
  next
    case q: False
    consider (inb) "prefix ?b q" | (b) "q @ [c] = ?b" | (ina) "prefix ?a q" "\<not> prefix ?b q"
      | (a) "q @ [c] = ?a" | (other) "\<not> prefix ?a (q @ [c])" "\<not> prefix ?b (q @ [c])"
      by auto
    then show ?thesis
    proof cases
      case inb
      then obtain r where r: "q = nd @ show_u64 f # r" by (auto simp: prefix_def)
      have "vchild d' q c \<longleftrightarrow> vchild d (od @ show_u64 f # r) c"
        using moved_cases(1) [OF mv, of "r @ [c]"] move_names(1) [of r c]
        by (simp add: vchild_names r)
      then show ?thesis
        using snoc inb q ur vpath_snoc [of "od @ show_u64 f # r" d c]
          vpath_snoc [of "nd @ show_u64 f # r" d' c] by (simp add: r)
    next
      case b
      have "map_of d' ?b = map_of d ?a" using moved_cases(1) [OF mv, of "[]"] by simp
      moreover have "names_at d' nd (show_u64 f) = names_at d nd (show_u64 f)"
        using na by (intro move_names(2)) auto
      ultimately have "vchild d' nd (show_u64 f)"
        using named vis by (simp add: vchild_names)
      moreover have "vpath d' nd" using snoc b na nd by auto
      moreover have "vpath d ?a" using od vis ur by (simp add: vpath_snoc)
      ultimately show ?thesis using b ur by (auto simp: vpath_snoc)
    next
      case ina
      then have "q \<noteq> nd" using na by auto
      with ina show ?thesis using snoc q by (simp add: vpath_snoc)
    next
      case a
      have "map_of d' ?a = None" using move_incomparable by (intro moved_cases(2) [OF mv]) auto
      then have "\<not> vpath d' ?a" using vpath_exists by blast
      then show ?thesis using a move_incomparable by simp
    next
      case other
      then have pq: "\<not> prefix ?a q" "\<not> prefix ?b q" by auto
      have "vchild d' q c = vchild d q c"
        using moved_cases(3) [OF mv other(2,1)] move_names(2) [OF pq] by (simp add: vchild_names)
      then show ?thesis using snoc pq other q by (auto simp: vpath_snoc)
    qed
  qed
qed

lemma move_file_at:
  assumes m: "moves_to od nd f d d'"
  shows "file_at d' (nd @ [show_u64 f]) = (file_at d (od @ [show_u64 f]))
      \<lparr>nf_parent := last nd, nf_names := names_at d nd (show_u64 f)\<rparr>"
    and "r \<noteq> [] \<Longrightarrow> file_at d' (nd @ show_u64 f # r) = file_at d (od @ show_u64 f # r)"
    and "\<not> prefix (od @ [show_u64 f]) q \<Longrightarrow> \<not> prefix (nd @ [show_u64 f]) q \<Longrightarrow>
      file_at d' q = file_at d q"
proof -
  note mv = moves_toD(7) [OF m]
  have "names_at d' nd (show_u64 f) = names_at d nd (show_u64 f)"
    using moves_toD(6) [OF m] by (intro move_names(2) [OF m]) auto
  then show "file_at d' (nd @ [show_u64 f]) = (file_at d (od @ [show_u64 f]))
      \<lparr>nf_parent := last nd, nf_names := names_at d nd (show_u64 f)\<rparr>"
    using moved_cases(1) [OF mv, of "[]"] moves_toD(9,10) [OF m] by (simp add: file_at_def)
next
  note mv = moves_toD(7) [OF m]
  assume "r \<noteq> []"
  then obtain r' c where r: "r = r' @ [c]" by (cases r rule: rev_cases) auto
  show "file_at d' (nd @ show_u64 f # r) = file_at d (od @ show_u64 f # r)"
    using moved_cases(1) [OF mv, of r] move_names(1) [OF m, of r' c]
    by (simp add: file_at_def butlast_append r)
next
  note mv = moves_toD(7) [OF m]
  assume q: "\<not> prefix (od @ [show_u64 f]) q" "\<not> prefix (nd @ [show_u64 f]) q"
  have up: "prefix s (butlast q) \<Longrightarrow> prefix s q" for s
    by (metis prefix_order.trans prefixeq_butlast)
  then have "names_at d' (butlast q) (last q) = names_at d (butlast q) (last q)"
    using q by (intro move_names(2) [OF m]) blast+
  then show "file_at d' q = file_at d q"
    using moved_cases(3) [OF mv q(2,1)] by (simp add: file_at_def)
qed

text \<open>Every other visible file keeps its place, as seen through the move.\<close>

lemma move_others:
  assumes m: "moves_to od nd f d d'" and g: "g \<noteq> f"
  shows "(\<exists>q. vpath d' q \<and> last q = show_u64 g \<and> v = file_at d' q)
    \<longleftrightarrow> (\<exists>q. vpath d q \<and> last q = show_u64 g \<and> v = file_at d q)"
proof
  let ?a = "od @ [show_u64 f]" and ?b = "nd @ [show_u64 f]"
  assume "\<exists>q. vpath d' q \<and> last q = show_u64 g \<and> v = file_at d' q"
  then obtain q where q: "vpath d' q" "last q = show_u64 g" "v = file_at d' q" by blast
  show "\<exists>q. vpath d q \<and> last q = show_u64 g \<and> v = file_at d q"
  proof (cases "prefix ?b q")
    case True
    then obtain r where r: "q = nd @ show_u64 f # r" by (auto simp: prefix_def)
    then have "r \<noteq> []" using q(2) g by auto
    moreover from this have "last (od @ show_u64 f # r) = show_u64 g" using q(2) r by simp
    moreover have "vpath d (od @ show_u64 f # r)" using move_vpath [OF m, of q] q(1) True r by simp
    ultimately show ?thesis using q(3) move_file_at(2) [OF m, of r] r by auto
  next
    case nb: False
    then have "vpath d q" "\<not> prefix ?a q"
      using move_vpath [OF m, of q] q(1) by (simp_all split: if_splits)
    then show ?thesis using q move_file_at(3) [OF m _ nb] by auto
  qed
next
  let ?a = "od @ [show_u64 f]" and ?b = "nd @ [show_u64 f]"
  assume "\<exists>q. vpath d q \<and> last q = show_u64 g \<and> v = file_at d q"
  then obtain q where q: "vpath d q" "last q = show_u64 g" "v = file_at d q" by blast
  show "\<exists>q. vpath d' q \<and> last q = show_u64 g \<and> v = file_at d' q"
  proof (cases "prefix ?a q")
    case True
    then obtain r where r: "q = od @ show_u64 f # r" by (auto simp: prefix_def)
    then have "r \<noteq> []" using q(2) g by auto
    moreover from this have "last (nd @ show_u64 f # r) = show_u64 g" using q(2) r by simp
    moreover have "vpath d' (nd @ show_u64 f # r)"
      using move_vpath [OF m, of "nd @ show_u64 f # r"] q(1) r by simp
    ultimately show ?thesis using q(3) move_file_at(2) [OF m, of r] r by auto
  next
    case na: False
    have nb: "\<not> prefix ?b q"
    proof
      assume "prefix ?b q"
      then obtain r where "q = ?b @ r" by (rule prefixE)
      then have "vpath d ?b" using q(1) vpath_prefix [of d ?b r] by simp
      then show False using vpath_exists move_nb(2) [OF m] by blast
    qed
    then have "vpath d' q" using move_vpath [OF m, of q] q(1) na by simp
    then show ?thesis using q move_file_at(3) [OF m na nb] by auto
  qed
qed

lemma move_view:
  assumes m: "moves_to od nd f d d'" and wf': "wf_store d'"
  shows "view d' = (view d)(f \<mapsto> (file_at d (od @ [show_u64 f]))
    \<lparr>nf_parent := last nd, nf_names := names_at d nd (show_u64 f)\<rparr>)"
proof
  fix g
  let ?b = "nd @ [show_u64 f]"
  let ?new = "(file_at d (od @ [show_u64 f]))\<lparr>nf_parent := last nd, nf_names := names_at d nd (show_u64 f)\<rparr>"
  note wf = moves_toD(1) [OF m]
  have vb: "vpath d' ?b"
    using move_vpath [OF m, of ?b] moves_toD(2,5,9) [OF m] by (simp add: vpath_snoc)
  have "view d' g = Some v \<longleftrightarrow> ((view d)(f \<mapsto> ?new)) g = Some v" for v
  proof (cases "g = f")
    case True
    have "view d' f = Some (file_at d' ?b)"
      by (rule view_path [OF wf' vb]) simp
    then show ?thesis unfolding True move_file_at(1) [OF m] fun_upd_same by simp
  next
    case False
    then show ?thesis
      using move_others [OF m False] by (simp add: view_Some [OF wf'] view_Some [OF wf])
  qed
  then show "view d' g = ((view d)(f \<mapsto> ?new)) g" by (metis not_Some_eq)
qed

section \<open>The names of a visible file change\<close>

lemma names_view:
  assumes wf: "wf_store d" "wf_store d'" and ag: "agree_off {p @ [show_u64 f @ CHR ''.'' # nm]} d d'"
    and p: "vpath d p" and vis: "vchild d p (show_u64 f)" "vchild d' p (show_u64 f)"
  shows "view d' = (view d)(f \<mapsto> (file_at d (p @ [show_u64 f]))\<lparr>nf_names := names_at d' p (show_u64 f)\<rparr>)"
proof -
  let ?q = "p @ [show_u64 f @ CHR ''.'' # nm]" and ?a = "p @ [show_u64 f]"
  let ?new = "(file_at d ?a)\<lparr>nf_names := names_at d' p (show_u64 f)\<rparr>"
  have pne: "p \<noteq> []" "under_root p" using p by (auto dest: vpath_under_root)
  have nm: "names_at d' r c = names_at d r c" if "is_numbered c" "r @ [c] \<noteq> ?a" for r c
  proof (rule names_at_agree [OF ag], rule notI)
    fix k assume eq: "?q = r @ [c @ CHR ''.'' # k]"
    then have "c = show_u64 f" using named_key(1) [of f nm c k] that(1) by simp
    with eq that(2) show False by simp
  qed
  have at_num: "map_of d' r = map_of d r" if "is_numbered (last r)" for r
  proof -
    have "r \<noteq> ?q" using that by auto
    then show ?thesis using ag by (simp add: agree_off_def)
  qed
  have vp: "vpath d' q = vpath d q" for q
  proof (rule vpath_cong)
    show "(map_of d' [''1''] \<noteq> None) = (map_of d [''1''] \<noteq> None)"
      using at_num [of "[''1'']"] is_numbered_show [of 1] by simp
    show "vchild d' r c = vchild d r c" for r c
    proof (cases "r @ [c] = ?a")
      case True
      then show ?thesis using vis by simp
    next
      case False
      then have "is_numbered c \<Longrightarrow> names_at d' r c = names_at d r c \<and> map_of d' (r @ [c]) = map_of d (r @ [c])"
        using nm [of c r] at_num [of "r @ [c]"] by simp
      then show ?thesis unfolding vchild_names by metis
    qed
  qed
  have at: "file_at d' q = (if q = ?a then ?new else file_at d q)" if q: "vpath d q" for q
  proof -
    have "map_of d' q = map_of d q" using at_num vpath_last_numbered [OF q] by simp
    moreover have "names_at d' (butlast q) (last q) = names_at d (butlast q) (last q)" if "q \<noteq> ?a"
      using nm [of "last q" "butlast q"] that vpath_last_numbered [OF q] q by (cases "q = []") auto
    ultimately show ?thesis using pne by (simp add: file_at_def)
  qed
  have va: "vpath d ?a" using p vis pne by (simp add: vpath_snoc)
  show ?thesis
  proof
    fix g
    show "view d' g = ((view d)(f \<mapsto> ?new)) g"
    proof (cases "g = f")
      case True
      have "view d' f = Some (file_at d' ?a)" using va vp by (intro view_path [OF wf(2)]) simp_all
      then show ?thesis using True at [OF va] by simp
    next
      case False
      then have "q \<noteq> ?a" if "last q = show_u64 g" for q using that by auto
      then have "view d' g = Some v \<longleftrightarrow> view d g = Some v" for v
        unfolding view_Some [OF wf(1)] view_Some [OF wf(2)] using vp at by auto
      then show ?thesis using False by (metis fun_upd_other not_Some_eq)
    qed
  qed
qed

section \<open>The store after a move\<close>

lemma move_exists:
  assumes mv: "moved a b d d'" and q: "exists_at d' q" "under_root q" and ur: "under_root a"
    and ab: "a \<noteq> []" "b \<noteq> []" "last a = last b"
  obtains r where "exists_at d r" "under_root r" "last r = last q" "is_file_at d' q = is_file_at d r"
    "(prefix b q \<and> r = a @ drop (length b) q) \<or> (\<not> prefix b q \<and> \<not> prefix a q \<and> r = q)"
proof (cases "prefix b q")
  case True
  then obtain t where t: "q = b @ t" by (rule prefixE)
  have "map_of d' q = map_of d (a @ t)" using moved_cases(1) [OF mv] t by simp
  then show ?thesis
    using q ur ab t by (intro that [of "a @ t"]) (auto simp: exists_at_def is_file_at_def under_root_def last_append)
next
  case False
  then have "map_of d' q = (if prefix a q then None else map_of d q)" using mv by (simp add: moved_def)
  then show ?thesis
    using q False by (intro that [of q]) (auto simp: exists_at_def is_file_at_def split: if_splits)
qed

lemma move_wf_store:
  assumes wf: "wf_store d" "wf_disk d'" and mv: "moved a b d d'" and ur: "under_root a" "under_root b"
    and ab: "last a = last b" "a \<noteq> [''1'']" "b \<noteq> [''1'']"
    and below: "fids_below n d"
  shows "wf_store d'" "fids_below n d'"
proof -
  have ne: "a \<noteq> []" "b \<noteq> []" using ur by (auto simp: under_root_def)
  note ex = move_exists [OF mv _ _ ur(1) ne ab(1)]
  note old = wf(1) [unfolded wf_store_iff]
  have keep: "map_of d' q = map_of d q" if "q = [''1''] \<or> q = [''tmp'']" for q
    using that ur ab by (intro moved_cases(3) [OF mv]) (auto simp: prefix_Cons under_root_def)
  have names: "entry_fid (last q) \<noteq> None \<and> (CHR ''.'' \<in> set (last q) \<longrightarrow> is_file_at d' q)"
    if "exists_at d' q" "under_root q" for q
    using that by (rule ex) (use old in metis)
  have uniq: "q = r" if q: "exists_at d' q" "under_root q" "is_numbered (last q)"
    and r: "exists_at d' r" "under_root r" "last q = last r" for q r
  proof -
    obtain q0 where q0: "exists_at d q0" "under_root q0" "last q0 = last q"
        "(prefix b q \<and> q0 = a @ drop (length b) q) \<or> (\<not> prefix b q \<and> \<not> prefix a q \<and> q0 = q)"
      using q(1,2) by (rule ex) blast
    obtain r0 where r0: "exists_at d r0" "under_root r0" "last r0 = last r"
        "(prefix b r \<and> r0 = a @ drop (length b) r) \<or> (\<not> prefix b r \<and> \<not> prefix a r \<and> r0 = r)"
      using r(1,2) by (rule ex) blast
    have "q0 = r0" using old q0(1-3) r0(1-3) q(3) r(3) by metis
    then show ?thesis using q0(4) r0(4) by (auto simp: prefix_def)
  qed
  have dirs: "is_dir_at d' [''1'']" "is_dir_at d' [''tmp'']"
    using old keep [of "[''1'']"] keep [of "[''tmp'']"] by (simp_all add: is_dir_at_def)
  show "wf_store d'"
    unfolding wf_store_iff using wf(2) dirs names uniq by blast
  show "fids_below n d'"
    unfolding fids_below_iff
  proof (intro allI impI)
    fix q f assume q: "exists_at d' q \<and> under_root q \<and> entry_fid (last q) = Some f"
    then obtain r where "exists_at d r" "under_root r" "last r = last q"
      using ex [of q] by metis
    then show "unat f < n" using below q unfolding fids_below_iff by metis
  qed
qed

end
