(* ===== verification/Resize.thy ===== *)
theory Resize
  imports Crash View
begin

text \<open>
  Setting attributes under faults: the content of a file is cut or filled in one step, times
  and syncs are not seen.
\<close>

section \<open>The change of size\<close>

definition resized :: "disk \<Rightarrow> path \<Rightarrow> u64 option \<Rightarrow> disk \<Rightarrow> bool" where
  "resized d p sz d1 \<longleftrightarrow> (case sz of None \<Rightarrow> d1 = d
     | Some n \<Rightarrow> \<exists>st st' bs. map_of d p = Some (RegFile st bs)
         \<and> d1 = AList.update p (RegFile st' (resize_bytes (unat n) bs)) d)"

text \<open>After the change of size only times change.\<close>

definition attrs_set :: "disk \<Rightarrow> path \<Rightarrow> u64 option \<Rightarrow> disk \<Rightarrow> bool" where
  "attrs_set d p sz d' \<longleftrightarrow> (\<exists>d1. resized d p sz d1 \<and> touches True p d1 d')"

lemma resized_touches: "resized d p sz d1 \<Longrightarrow> touches False p d d1"
  by (auto simp: resized_def touches_def intro!: same_shape_update split: option.splits)

lemma attrs_set_touches: "attrs_set d p sz d' \<Longrightarrow> touches False p d d'"
proof -
  assume "attrs_set d p sz d'"
  then obtain d1 where d1: "touches False p d d1" "touches True p d1 d'"
    by (auto simp: attrs_set_def dest: resized_touches)
  from d1(2) have "touches False p d1 d'" by (simp add: touches_def)
  with d1(1) show ?thesis by (rule touches_trans)
qed

lemma attrs_set_times: "attrs_set d p sz d1 \<Longrightarrow> k_utimens a m p d1 = Inr (u, d') \<Longrightarrow> attrs_set d p sz d'"
  unfolding attrs_set_def using touches_utimens touches_trans by blast

lemma set_len_resizes:
  "k_modify now (resize_bytes (unat n)) p d = Inr (u, d1) \<Longrightarrow> attrs_set d p (Some n) d1"
  unfolding attrs_set_def
  by (rule exI [of _ d1]) (auto simp: k_modify_def resized_def split: option.splits obj.splits)

lemma chl_set_attr:
  "chl d c (fs_set_attr E p at mt sz) (\<lambda>_ d' c'. c' = c \<and> attrs_set d p sz d')
    (\<lambda>d' c'. c' = c \<and> (d' = d \<or> attrs_set d p sz d'))"
proof -
  let ?Q = "\<lambda>d' c'. c' = c \<and> attrs_set d p sz d'" and ?C = "\<lambda>d' c'. c' = c \<and> (d' = d \<or> attrs_set d p sz d')"
  have C0: "?C d c" by simp
  have size: "chl d c (case sz of None \<Rightarrow> retM () | Some n \<Rightarrow> bindM (fs_is_dir p) (\<lambda>d2.
      if d2 then nfsM NFSERR_ISDIR else unwrapM (set_len_sys p n))) (\<lambda>_. ?Q) ?C"
  proof (cases sz)
    case None
    have "attrs_set d p None d" by (auto simp: attrs_set_def resized_def)
    then show ?thesis using None by (auto intro: chl_basic)
  next
    case (Some n)
    have "chl d c (set_len_sys p n) (\<lambda>_. ?Q) ?C"
      unfolding set_len_sys_def Some
      by (rule chl_sysM) (auto split: if_splits intro: set_len_resizes)
    then show ?thesis
      unfolding Some option.case
      by (intro chl_still_bind still_rules chl_if chl_lift chl_basic) simp_all
  qed
  have utimens: "chl d1 c (futimens_sys p a m) (\<lambda>_. ?Q) ?Q" if "attrs_set d p sz d1" for d1 a m
    unfolding futimens_sys_def
    by (rule chl_sysM) (use that attrs_set_times in \<open>auto split: if_splits\<close>)
  have ns: "still (usec_to_nsec E u :: (world, thrift_error, u64) M)" for u
    by (simp add: usec_to_nsec_def Let_def still_basic)
  have times: "chl d1 c1 (case at of None \<Rightarrow> retM () | Some atime \<Rightarrow>
      let mtime = (case mt of Some m \<Rightarrow> m | None \<Rightarrow> atime)
      in bindM (usec_to_nsec E (tv_useconds atime)) (\<lambda>ans.
         bindM (usec_to_nsec E (tv_useconds mtime)) (\<lambda>mns.
         bindM (attemptM (futimens_sys p (tv_seconds atime, ans) (tv_seconds mtime, mns))) (\<lambda>retval.
         case retval of Inr _ \<Rightarrow> retM ()
         | Inl errno \<Rightarrow> if errno = ENOENT then nfsM NFSERR_STALE
             else panicM (''Errno = '' @ io_text errno))))) (\<lambda>_. ?Q) ?Q" if "?Q d1 c1" for d1 c1
  proof (cases at)
    case (Some t)
    have d1: "c1 = c" "attrs_set d p sz d1" using that by simp_all
    show ?thesis
      unfolding Some option.case Let_def
      apply (rule chl_still_bind [OF ns], rule that)+
      apply (rule chl_bindM [where Q = "\<lambda>_. ?Q"])
       apply (unfold d1(1), rule chl_mono [OF chl_attemptM [OF utimens [OF d1(2)]]])
        apply (simp split: sum.splits)
       apply assumption
      apply (rule chl_sum; (intro chl_if chl_basic)?; assumption)
      done
  qed (use that in \<open>auto intro: chl_basic\<close>)
  show ?thesis
    unfolding fs_set_attr_def
    apply (rule chl_still_bind, rule still_rules, rule C0)
    apply (rule chl_still_then)
      apply (simp add: still_rules)
     apply (rule C0)
    apply (rule chl_thenM [OF size])
    apply (rule chl_thenM)
     apply (erule chl_mono [OF times]; blast)
    apply (rule chl_still, (rule still_rules)+)
     apply blast+
    done
qed

text \<open>What a client sees of it\<close>

lemma attrs_set_ok:
  assumes wf: "wf_store d" and p: "fid_path d f = Some p" and s: "attrs_set d p sz d'"
  shows "wf_store d'" "fids_below n d \<Longrightarrow> fids_below n d'"
    "case sz of None \<Rightarrow> view d' = view d
     | Some n \<Rightarrow> \<exists>st bs. map_of d p = Some (RegFile st bs)
         \<and> view d' = (view d)(f \<mapsto> (file_at d p)\<lparr>nf_body := FileBody (resize_bytes (unat n) bs)\<rparr>)"
proof -
  note t = attrs_set_touches [OF s]
  show "wf_store d'" using wf t same_shape_wf_store by (auto simp: touches_def)
  show "fids_below n d \<Longrightarrow> fids_below n d'" by (rule touches_below [OF t])
  obtain d1 where d1: "resized d p sz d1" "touches True p d1 d'"
    using s by (auto simp: attrs_set_def)
  have wf1: "wf_store d1"
    using resized_touches [OF d1(1)] same_shape_wf_store wf by (auto simp: touches_def)
  have v: "view d' = view d1" by (rule touches_view [OF wf1 d1(2)])
  show "case sz of None \<Rightarrow> view d' = view d
     | Some n \<Rightarrow> \<exists>st bs. map_of d p = Some (RegFile st bs)
         \<and> view d' = (view d)(f \<mapsto> (file_at d p)\<lparr>nf_body := FileBody (resize_bytes (unat n) bs)\<rparr>)"
  proof (cases sz)
    case None
    then show ?thesis using v d1(1) by (simp add: resized_def)
  next
    case (Some n)
    then obtain st st' bs where st: "map_of d p = Some (RegFile st bs)"
        "d1 = AList.update p (RegFile st' (resize_bytes (unat n) bs)) d"
      using d1(1) by (auto simp: resized_def)
    have "view d1 = (view d)(f \<mapsto> (file_at d p)\<lparr>nf_body := obj_body (RegFile st' (resize_bytes (unat n) bs))\<rparr>)"
      by (rule content_view [OF wf wf1 agree_off_touches [OF resized_touches [OF d1(1)]] p])
        (simp add: st(2))
    then show ?thesis using v st(1) Some by auto
  qed
qed

end
