(* ===== verification/Atomic.thy ===== *)
theory Atomic
  imports Resize
begin

text \<open>
  Atomicity: under every schedule of I/O errors and power cuts, what a client can see after
  a request is what it saw before or what the request is for, nothing in between; and the
  store on disk stays well formed, so that a restarted server finds its files.
\<close>

section \<open>The durable state\<close>

definition durable_ok :: "disk \<Rightarrow> apu \<Rightarrow> bool" where
  "durable_ok d c \<longleftrightarrow> wf_store d \<and> fids_below (unat (ctr_disk c)) d \<and> fids_below (unat (ctr_mem c)) d"

definition server_ok :: "world \<Rightarrow> bool" where
  "server_ok w \<longleftrightarrow> wf_store (h_disk w) \<and> cache_ok (h_disk w) (w_fid_cache w)
     \<and> fids_below (unat (ctr_disk (w_counter w))) (h_disk w)
     \<and> ctr_synced (w_counter w) \<and> unat (ctr_disk (w_counter w)) < 2 ^ 64 - 1"

lemma fids_below_mono: "fids_below n d \<Longrightarrow> n \<le> m \<Longrightarrow> fids_below m d"
  by (fastforce simp: fids_below_iff)

lemma synced_mem: "ctr_synced c \<Longrightarrow> unat (ctr_disk c) \<le> unat (ctr_mem c)"
  by (auto simp: ctr_synced_def split: if_splits)

lemma server_ok_durable: "server_ok w \<Longrightarrow> durable_ok (h_disk w) (w_counter w)"
  by (auto simp: server_ok_def durable_ok_def intro: fids_below_mono synced_mem)

definition survives ::
  "(world, 'e, 'a) M \<Rightarrow> ('a \<Rightarrow> disk \<Rightarrow> apu \<Rightarrow> bool) \<Rightarrow> (disk \<Rightarrow> apu \<Rightarrow> bool) \<Rightarrow> world \<Rightarrow> bool" where
  "survives m Q C w = wp m (\<lambda>r w'. case r of Ok x \<Rightarrow> Q x (h_disk w') (w_counter w') | Hang \<Rightarrow> False
     | _ \<Rightarrow> C (h_disk w') (w_counter w')) w"

lemma chl_survives: "chl (h_disk w) (w_counter w) m Q C \<Longrightarrow> survives m Q C w"
  by (simp add: chl_def survives_def)

text \<open>The first step of every request: resolve a FID.\<close>

lemma survives_find:
  assumes doc: "regex_documented E" and wf: "wf_store (h_disk w)"
    and ok: "cache_ok (h_disk w) (w_fid_cache w)" and crash: "C (h_disk w) (w_counter w)"
    and rest: "\<And>p w1. h_disk w1 = h_disk w \<Longrightarrow> w_counter w1 = w_counter w \<Longrightarrow>
       cache_ok (h_disk w1) (w_fid_cache w1) \<Longrightarrow>
       w_async_bufs w1 = w_async_bufs w \<Longrightarrow> w_async_heap w1 = w_async_heap w \<Longrightarrow> p = None \<or> p = fid_path (h_disk w) f \<Longrightarrow>
       survives (k p) Q C w1"
  shows "survives (bindM (strM (fs_find_by_fid E f)) k) Q C w"
proof -
  obtain r w1 where m: "fs_find_by_fid E f w = (r, w1)" by (cases "fs_find_by_fid E f w")
  then obtain fs c where w1: "w1 = w\<lparr>h_faults := fs, w_fid_cache := c\<rparr>" "cache_ok (h_disk w) c"
      and r: "r \<noteq> Hang" "\<And>x. r = Ok x \<Longrightarrow> x = None \<or> x = fid_path (h_disk w) f"
    using find_by_fid_finds [OF doc wf ok, of f] by (auto simp: finds_def wp_def)
  show ?thesis
  proof (cases r)
    case (Ok p)
    have "survives (k p) Q C w1" using w1 r(2) [OF Ok] by (intro rest) simp_all
    then show ?thesis
      using Ok m by (simp add: survives_def wp_def monad_simps)
  qed (use m w1 r crash in \<open>auto simp: survives_def wp_def monad_simps\<close>)
qed

lemma survives_resolve:
  assumes "regex_documented E" "wf_store (h_disk w)" "cache_ok (h_disk w) (w_fid_cache w)"
    and C: "C (h_disk w) (w_counter w)"
    and rest: "\<And>p. fid_path (h_disk w) f = Some p \<Longrightarrow> chl (h_disk w) (w_counter w) (k p) Q C"
  shows "survives (bindM (strM (fs_find_by_fid E f))
    (\<lambda>p. case p of None \<Rightarrow> nfsM NFSERR_STALE | Some p \<Rightarrow> k p)) Q C w"
proof (rule survives_find [OF assms(1-3), where C = C, OF C])
  fix p and w1 :: world assume w1: "h_disk w1 = h_disk w" "w_counter w1 = w_counter w"
    and p: "p = None \<or> p = fid_path (h_disk w) f"
  show "survives (case p of None \<Rightarrow> nfsM NFSERR_STALE | Some p \<Rightarrow> k p) Q C w1"
    using w1 p rest C by (intro chl_survives) (auto split: option.split intro!: chl_basic)
qed

lemma find_named_reads: "reads (find_named re p ns ks) (\<lambda>_. True) w"
proof (induction ks arbitrary: w)
  case (Cons k ks)
  show ?case
    by (auto intro!: reads_bindM [where P = "\<lambda>_. True"] reads_unwrap_optM reads_retM reads_panicM Cons
        split: option.split)
qed (simp add: reads_retM)

lemma find_by_name_reads_any: "reads (fs_find_by_name E p fname) (\<lambda>_. True) w"
  unfolding fs_find_by_name_def
  by (rule reads_thenM [where P = "\<lambda>_. True"], rule reads_assertM, rule TrueI,
      rule reads_bindM [where P = "\<lambda>_. True"], rule reads_fs_is_dir, rule TrueI,
      rule reads_thenM [where P = "\<lambda>_. True"], rule reads_assertM, rule TrueI,
      rule reads_bindM [where P = "\<lambda>_. True"], rule reads_unwrap_optM, rule TrueI,
      rule reads_bindM [where P = "\<lambda>_. True"], rule reads_unwrap_optM, rule TrueI,
      rule reads_bindM [where P = "\<lambda>_. True"], rule get_files_reads, rule TrueI)
     (auto simp: find_named_reads split: prod.split)

lemma still_find_by_name [still_rules]: "still (fs_find_by_name E p fname)"
  by (rule still_reads, rule find_by_name_reads_any)

section \<open>Creating a file\<close>

lemma chl_fetch:
  assumes sync: "ctr_synced c" "unat (ctr_disk c) < 2 ^ 64 - 1"
    and Q: "\<And>c'. unat (ctr_disk c') = Suc (unat (ctr_disk c)) \<Longrightarrow> ctr_mem c' = ctr_disk c' \<Longrightarrow>
      ctr_synced c' \<Longrightarrow> Q (ctr_disk c) d c'"
    and C: "\<And>c'. unat (ctr_disk c) \<le> unat (ctr_disk c') \<Longrightarrow> unat (ctr_disk c) \<le> unat (ctr_mem c') \<Longrightarrow> C d c'"
  shows "chl d c fetch_incM Q C"
  unfolding chl_def
proof (intro allI impI)
  fix w :: world assume w: "h_disk w = d \<and> w_counter w = c"
  show "wp fetch_incM (\<lambda>r w'. case r of Ok x \<Rightarrow> Q x (h_disk w') (w_counter w') | Hang \<Rightarrow> False
      | _ \<Rightarrow> C (h_disk w') (w_counter w')) w"
  proof (cases "ctr_poisoned c")
    case True
    then show ?thesis
      using w synced_mem [OF sync(1)] C [of c] by (auto simp: wp_def fetch_incM_def)
  next
    case False
    then have mem: "ctr_mem c = ctr_disk c" using sync(1) by (simp add: ctr_synced_def)
    let ?n = "ctr_disk c + 1"
    have n: "unat ?n = Suc (unat (ctr_disk c))" using unat_plus_one sync(2) by blast
    have "Q (ctr_disk c) d (c\<lparr>ctr_mem := ?n, ctr_disk := ?n\<rparr>)"
      using n False by (intro Q) (simp_all add: ctr_synced_def)
    moreover have "C d (c\<lparr>ctr_mem := ?n, ctr_poisoned := True\<rparr>)" "C d (c\<lparr>ctr_mem := ?n\<rparr>)"
      using n by (intro C; simp)+
    ultimately show ?thesis
      using w False mem
      by (auto simp: wp_def fetch_incM_def fetch_inc_def fetch_add_def flush_ok_def flush_fail_def
          drop_fault_def split: option.split fault.split)
  qed
qed

text \<open>The pair of server files that a creation leaves, and what it shows\<close>

definition made :: "disk \<Rightarrow> fid \<Rightarrow> path \<Rightarrow> string \<Rightarrow> bool \<Rightarrow> disk \<Rightarrow> bool" where
  "made d f dp fname is_file d' \<longleftrightarrow> (\<exists>st st2. d' = add_named dp f fname (RegFile st2 [])
     (add_numbered dp f (if is_file then RegFile st [] else DirObj st) d))"

definition new_file :: "path \<Rightarrow> string \<Rightarrow> body \<Rightarrow> nfs_file" where
  "new_file dp fname b = \<lparr>nf_parent = last dp, nf_names = {fname}, nf_body = b\<rparr>"

definition empty_body :: "bool \<Rightarrow> body" where
  "empty_body is_file = (if is_file then FileBody [] else DirBody)"

definition initial_body :: "bool \<Rightarrow> u64 option \<Rightarrow> body" where
  "initial_body is_file sz = (case sz of None \<Rightarrow> empty_body is_file | Some n \<Rightarrow> FileBody (replicate (unat n) 0))"

lemma made_ok:
  assumes wf: "wf_store d" and below: "fids_below (unat f) d" and dp: "vpath d dp" "is_dir_at d dp"
    and made: "made d f dp fname is_file d'"
  shows "wf_store d'" "fids_below (Suc (unat f)) d'"
    "view d' = (view d)(f \<mapsto> new_file dp fname (empty_body is_file))"
    "fid_path d' f = Some (dp @ [show_u64 f])"
    "map_of d' (dp @ [show_u64 f]) \<noteq> None"
    "is_dir_at d' (dp @ [show_u64 f]) \<longleftrightarrow> \<not> is_file"
proof -
  obtain st st2 where d': "d' = add_named dp f fname (RegFile st2 [])
     (add_numbered dp f (if is_file then RegFile st [] else DirObj st) d)"
    using made by (auto simp: made_def)
  define ob where "ob = (if is_file then RegFile st [] else DirObj st)"
  define d1 where "d1 = add_numbered dp f ob d"
  have ur: "under_root dp" "dp \<noteq> []" using dp by (auto dest: vpath_under_root)
  note num = add_numbered_ok(1,2) [OF wf ur(1) dp(2) below, of ob, folded d1_def]
  note hid = add_numbered_ok(3) [OF wf ur(1) dp(2) below]
  note none = fids_below_fresh [OF below ur(1)]
  have dir1: "is_dir_at d1 dp" using dp(2) by (simp add: is_dir_at_iff d1_def add_numbered_def)
  have d'1: "d' = add_named dp f fname (RegFile st2 []) d1" by (simp add: d' d1_def ob_def)
  have "\<not> is_dir_at d1 (dp @ [show_u64 f @ CHR ''.'' # fname])"
    using none(2) [of fname] by (simp add: is_dir_at_iff d1_def add_numbered_def)
  note nam = add_named_ok [OF num(1) ur(1) dir1 refl this num(2) lessI, of st2 "[]", folded d'1]
  show "wf_store d'" "fids_below (Suc (unat f)) d'" using nam by simp_all
  have ag: "agree_off {dp @ [show_u64 f]} d d1" by (simp add: d1_def add_numbered_def agree_off_update)
  have v1: "view d1 = view d" by (rule hidden_view [OF wf num(1) ag hid])
  have vdp: "vpath d1 dp"
  proof -
    have "vpath d1 q = vpath d q" for q
      using ag hid hidden_vchild [OF ag hid]
      by (intro vpath_cong) (auto simp: agree_off_def hidden_def)
    then show ?thesis using dp by simp
  qed
  have at1: "map_of d1 (dp @ [show_u64 f]) = Some ob" by (simp add: d1_def add_numbered_def)
  have nm1: "names_at d1 dp (show_u64 f) = {}"
    using none(2) by (auto simp: set_eq_iff in_names_at d1_def add_numbered_def)
  have leaf1: "map_of d1 (dp @ [show_u64 f, c]) = None" for c
  proof -
    have "\<not> is_dir_at d (dp @ [show_u64 f])" using none(1) by (simp add: is_dir_at_iff)
    moreover have "map_of d ((dp @ [show_u64 f]) @ [c]) \<noteq> None \<Longrightarrow> is_dir_at d (dp @ [show_u64 f])"
      using wf_disk_parent wf unfolding wf_store_def by blast
    ultimately have "map_of d ((dp @ [show_u64 f]) @ [c]) = None" by blast
    then show ?thesis by (simp add: d1_def add_numbered_def)
  qed
  show v: "view d' = (view d)(f \<mapsto> new_file dp fname (empty_body is_file))"
    using add_named_view [OF num(1) nam(1) vdp at1 nm1 leaf1 d'1] v1
    by (simp add: new_file_def empty_body_def ob_def)
  show ex: "map_of d' (dp @ [show_u64 f]) \<noteq> None" "is_dir_at d' (dp @ [show_u64 f]) \<longleftrightarrow> \<not> is_file"
    using at1 by (simp_all add: d'1 add_named_def ob_def is_dir_at_iff)
  have "fid_path d' f \<noteq> None" using v by (auto simp: view_def fun_eq_iff split: if_splits)
  then obtain p where p: "vpath d' p" "last p = show_u64 f" using fid_path_Some [OF nam(1)] by auto
  have "p = dp @ [show_u64 f]"
    using p nam(1) ex(1) ur
    by (intro fids_uniqueD [of d']) (auto simp: wf_store_def under_root_def dest: vpath_exists vpath_under_root)
  then show "fid_path d' f = Some (dp @ [show_u64 f])"
    using p fid_path_Some [OF nam(1)] by auto
qed

text \<open>What a client may see after a creation of \<open>fname\<close> with the FID \<open>f\<close>\<close>

definition create_outcome ::
  "disk \<Rightarrow> fid \<Rightarrow> path \<Rightarrow> string \<Rightarrow> bool \<Rightarrow> disk \<Rightarrow> bool" where
  "create_outcome d f dp fname is_file d' \<longleftrightarrow> view d' = view d
     \<or> (is_dir_at d dp \<and> view d' = (view d)(f \<mapsto> new_file dp fname (empty_body is_file)))"

lemma create_obj_survives:
  assumes wf: "wf_store d" and below: "fids_below (unat (ctr_disk c)) d"
    and sync: "ctr_synced c" "unat (ctr_disk c) < 2 ^ 64 - 1"
    and dp: "vpath d dp"
  shows "chl d c (fs_create_obj dp fname is_file)
    (\<lambda>(f, p) d' c'. f = ctr_disk c \<and> p = dp @ [show_u64 f] \<and> is_dir_at d dp
       \<and> made d f dp fname is_file d'
       \<and> unat (ctr_disk c') = Suc (unat f) \<and> ctr_mem c' = ctr_disk c' \<and> ctr_synced c')
    (\<lambda>d' c'. durable_ok d' c' \<and> unat (ctr_disk c) \<le> unat (ctr_disk c')
       \<and> create_outcome d (ctr_disk c) dp fname is_file d')"
proof -
  let ?f = "ctr_disk c" and ?C = "\<lambda>d' c'. durable_ok d' c' \<and> unat (ctr_disk c) \<le> unat (ctr_disk c')
    \<and> create_outcome d (ctr_disk c) dp fname is_file d'"
  have ur: "under_root dp" "dp \<noteq> []" using dp by (auto dest: vpath_under_root)
  have none: "map_of d (dp @ [show_u64 ?f @ CHR ''.'' # fname]) = None"
    using fids_below_fresh(2) [OF below ur(1)] .
  have C0: "?C d c'" if "unat ?f \<le> unat (ctr_disk c')" "unat ?f \<le> unat (ctr_mem c')" for c'
    using that wf below by (auto simp: durable_ok_def create_outcome_def intro: fids_below_mono)
  define num where "num d1 \<longleftrightarrow> (\<exists>st. d1 = add_numbered dp ?f (if is_file then RegFile st [] else DirObj st) d)
    \<and> is_dir_at d dp" for d1
  have C1: "?C d1 c'" if n: "num d1" "unat (ctr_disk c') = Suc (unat ?f)" "ctr_mem c' = ctr_disk c'" for d1 c'
  proof -
    obtain st where d1: "d1 = add_numbered dp ?f (if is_file then RegFile st [] else DirObj st) d"
        and dir: "is_dir_at d dp"
      using n(1) by (auto simp: num_def)
    note ok = add_numbered_ok(1,2) [OF wf ur(1) dir below, of "if is_file then RegFile st [] else DirObj st", folded d1]
    note hid = add_numbered_ok(3) [OF wf ur(1) dir below]
    have "view d1 = view d"
      using hidden_view [OF wf ok(1) _ hid] by (simp add: d1 add_numbered_def agree_off_update)
    then show ?thesis using ok n(2,3) by (simp add: durable_ok_def create_outcome_def)
  qed
  have C2: "?C d2 c'" if n: "is_dir_at d dp" "made d ?f dp fname is_file d2"
      "unat (ctr_disk c') = Suc (unat ?f)" "ctr_mem c' = ctr_disk c'" for d2 c'
    using made_ok(1-3) [OF wf below dp n(1,2)] n(1,3,4) by (simp add: durable_ok_def create_outcome_def)
  have mk_num: "chl d c' (map_errM io_text (if is_file then create_new_sys (dp @ [show_u64 ?f])
        else create_dir_sys (dp @ [show_u64 ?f]))) (\<lambda>_ d1 c1. num d1 \<and> c1 = c') ?C"
    if "unat (ctr_disk c') = Suc (unat ?f)" "ctr_mem c' = ctr_disk c'" for c'
  proof -
    have "?C d c'" using that by (intro C0) auto
    then show ?thesis
      unfolding create_new_sys_def create_dir_sys_def k_create_new_def k_mkdir_def
      by (cases is_file) (auto intro!: chl_lift chl_sysM simp: num_def add_numbered_def dest!: k_new_map)
  qed
  have mk_nam: "chl d1 c' (map_errM io_text (file_create_sys (dp @ [show_u64 ?f @ ''.'' @ fname])))
      (\<lambda>_ d2 c2. is_dir_at d dp \<and> made d ?f dp fname is_file d2 \<and> c2 = c') ?C"
    if n: "num d1" "unat (ctr_disk c') = Suc (unat ?f)" "ctr_mem c' = ctr_disk c'" for d1 c'
  proof -
    have "map_of d1 (dp @ [show_u64 ?f @ CHR ''.'' # fname]) = None"
      using n(1) none by (auto simp: num_def add_numbered_def)
    then have "is_dir_at d dp \<and> made d ?f dp fname is_file d2"
      if "k_create now (dp @ [show_u64 ?f @ ''.'' @ fname]) d1 = Inr (u, d2)" for now u d2
    proof -
      have "d2 = add_named dp ?f fname (RegFile (fresh_stamps now) []) d1"
        using that \<open>map_of d1 _ = None\<close> k_new_map [of _ _ d1 u d2]
        by (auto simp: k_create_def add_named_def)
      then show ?thesis using n(1) unfolding num_def made_def by blast
    qed
    then show ?thesis
      using C1 [OF n] unfolding file_create_sys_def
      by (intro chl_lift chl_sysM) auto
  qed
  show ?thesis
    unfolding fs_create_obj_def Let_def
    apply (rule chl_bindM [OF chl_fetch [OF sync, where Q = "\<lambda>v d' c'. v = ?f \<and> d' = d \<and>
        unat (ctr_disk c') = Suc (unat ?f) \<and> ctr_mem c' = ctr_disk c' \<and> ctr_synced c'"]])
      apply simp
     apply (rule C0; assumption)
    apply clarify
    apply (rule chl_thenM [OF mk_num], assumption, assumption, clarify)
    apply (rule chl_thenM [where Q = "\<lambda>d1' c1'. num d1' \<and> unat (ctr_disk c1') = Suc (unat ?f)
        \<and> ctr_mem c1' = ctr_disk c1' \<and> ctr_synced c1'"])
     apply (intro chl_lift chl_looks; use C1 in blast)
    apply (rule chl_thenM [where Q = "\<lambda>d1' c1'. num d1' \<and> unat (ctr_disk c1') = Suc (unat ?f)
        \<and> ctr_mem c1' = ctr_disk c1' \<and> ctr_synced c1'"])
     apply (intro chl_lift chl_looks; use C1 in blast)
    apply (rule chl_thenM, (rule mk_nam; simp), clarify)
    apply (rule chl_thenM [where Q = "\<lambda>d2' c2'. is_dir_at d dp \<and> made d ?f dp fname is_file d2' \<and>
        unat (ctr_disk c2') = Suc (unat ?f) \<and> ctr_mem c2' = ctr_disk c2' \<and> ctr_synced c2'"])
     apply (intro chl_lift chl_looks; use C2 in blast)
    apply (rule chl_basic)
    apply simp
    done
qed

lemma touched_create:
  assumes wf: "wf_store d" and below: "fids_below (unat f) d" and dp: "vpath d dp" "is_dir_at d dp"
    and made: "made d f dp fname is_file d1" and t: "touches keep (dp @ [show_u64 f]) d1 d2"
  shows "wf_store d2" "fids_below (Suc (unat f)) d2"
    "\<exists>b. (keep \<longrightarrow> b = empty_body is_file) \<and> view d2 = (view d)(f \<mapsto> new_file dp fname b)"
proof -
  note ok = made_ok [OF wf below dp made]
  have sh: "same_shape d1 d2" using t by (simp add: touches_def)
  show wf2: "wf_store d2" by (rule same_shape_wf_store [OF sh ok(1)])
  show "fids_below (Suc (unat f)) d2" by (rule touches_below [OF t ok(2)])
  show "\<exists>b. (keep \<longrightarrow> b = empty_body is_file) \<and> view d2 = (view d)(f \<mapsto> new_file dp fname b)"
  proof (cases keep)
    case True
    then have "view d2 = view d1" using touches_view [OF ok(1), of "dp @ [show_u64 f]" d2] t by simp
    then show ?thesis using ok(3) by auto
  next
    case False
    have "exists_at d2 (dp @ [show_u64 f])"
      using same_shape_tests(1) [OF sh] ok(5) by (simp add: exists_at_def)
    then obtain ob' where ob': "map_of d2 (dp @ [show_u64 f]) = Some ob'"
      by (auto simp: exists_at_def)
    have "file_at d1 (dp @ [show_u64 f]) = new_file dp fname (empty_body is_file)"
      using view_fid_path [OF ok(4)] ok(3) by simp
    then have "view d2 = (view d)(f \<mapsto> new_file dp fname (obj_body ob'))"
      using content_view [OF ok(1) wf2 agree_off_touches [OF t] ok(4) ob'] ok(3)
      by (simp add: new_file_def)
    then show ?thesis using False by auto
  qed
qed

text \<open>The attributes of the new file are set in place.\<close>

lemma attrs_set_create:
  assumes wf: "wf_store d" and below: "fids_below (unat f) d" and dp: "vpath d dp" "is_dir_at d dp"
    and made: "made d f dp fname is_file d1" and s: "attrs_set d1 (dp @ [show_u64 f]) sz d2"
  shows "wf_store d2" "fids_below (Suc (unat f)) d2"
    "view d2 = (view d)(f \<mapsto> new_file dp fname (initial_body is_file sz))"
proof -
  note ok = made_ok [OF wf below dp made]
  note set = attrs_set_ok [OF ok(1,4) s]
  show "wf_store d2" "fids_below (Suc (unat f)) d2" using set(1,2) ok(2) by blast+
  show "view d2 = (view d)(f \<mapsto> new_file dp fname (initial_body is_file sz))"
  proof (cases sz)
    case None
    then show ?thesis using set(3) ok(3) by (simp add: initial_body_def)
  next
    case (Some n)
    then obtain st bs where st: "map_of d1 (dp @ [show_u64 f]) = Some (RegFile st bs)"
        "view d2 = (view d1)(f \<mapsto> (file_at d1 (dp @ [show_u64 f]))\<lparr>nf_body := FileBody (resize_bytes (unat n) bs)\<rparr>)"
      using set(3) by auto
    have at: "file_at d1 (dp @ [show_u64 f]) = new_file dp fname (empty_body is_file)"
      using view_fid_path [OF ok(4)] ok(3) by simp
    then have "bs = []" using st(1) by (auto simp: file_at_def new_file_def empty_body_def split: if_splits)
    then show ?thesis
      using st(2) ok(3) at Some by (simp add: new_file_def initial_body_def resize_bytes_def)
  qed
qed

text \<open>Looking up a name\<close>

lemma chl_find_name:
  assumes doc: "regex_documented E" "plain_name fname" and d: "names_ok d" "under_root p"
    and "C d c" and "Q (find_name d p fname) d c"
  shows "chl d c (fs_find_by_name E p fname) Q C"
  by (rule chl_reads [where P = "\<lambda>x. x = find_name d p fname"])
     (use assms find_by_name_reads [OF doc] in auto)

lemma chl_try_name:
  assumes doc: "regex_documented E" and d: "names_ok d" "under_root p" and C: "C d c"
  shows "chl d c (attemptM (fs_find_by_name E p fname)) (\<lambda>r d' c'. d' = d \<and> c' = c
    \<and> (plain_name fname \<longrightarrow> (\<forall>x. r = Inr x \<longrightarrow> x = find_name d p fname))) C"
proof (cases "plain_name fname")
  case True
  have "chl d c (fs_find_by_name E p fname) (\<lambda>x d' c'. d' = d \<and> c' = c \<and> x = find_name d p fname)
      (\<lambda>d' c'. d' = d \<and> c' = c)"
    by (rule chl_find_name [OF doc True d]) simp_all
  then show ?thesis
    by (rule chl_mono [OF chl_attemptM]) (use C in \<open>auto split: sum.splits\<close>)
next
  case False
  then show ?thesis by (intro chl_still still_rules C) simp
qed

text \<open>The whole of CREATE and MKDIR\<close>

definition create_sees :: "world \<Rightarrow> zip_create_args \<Rightarrow> body \<Rightarrow> disk \<Rightarrow> bool" where
  "create_sees w a b d' \<longleftrightarrow>
     (\<exists>dp. fid_path (h_disk w) (da_dir (ca_where a)) = Some dp \<and> is_dir_at (h_disk w) dp
        \<and> (plain_name (da_filename (ca_where a)) \<longrightarrow> find_name (h_disk w) dp (da_filename (ca_where a)) = None)
        \<and> view d' = (view (h_disk w))(ctr_disk (w_counter w) \<mapsto>
             new_file dp (da_filename (ca_where a)) b))"

lemma create_survives_counter:
  assumes doc: "regex_documented E" and ok: "server_ok w"
  shows "survives (create_object E a is_file)
    (\<lambda>res d' c'. durable_ok d' c' \<and> unat (ctr_disk c') = Suc (unat (ctr_disk (w_counter w)))
       \<and> dr_file res = ctr_disk (w_counter w)
       \<and> create_sees w a (initial_body is_file (sa_size (ca_attributes a))) d')
    (\<lambda>d' c'. durable_ok d' c' \<and> unat (ctr_disk (w_counter w)) \<le> unat (ctr_disk c')
       \<and> (view d' = view (h_disk w) \<or> create_sees w a (empty_body is_file) d'
            \<or> create_sees w a (initial_body is_file (sa_size (ca_attributes a))) d')) w"
    (is "survives _ ?Q ?C w")
proof -
  let ?d = "h_disk w" and ?c = "w_counter w" and ?dir = "da_dir (ca_where a)"
    and ?fn = "da_filename (ca_where a)" and ?f = "ctr_disk (w_counter w)"
  have wf: "wf_store ?d" and cache: "cache_ok ?d (w_fid_cache w)" and below: "fids_below (unat ?f) ?d"
    and sync: "ctr_synced ?c" "unat ?f < 2 ^ 64 - 1"
    using ok by (simp_all add: server_ok_def)
  have C0: "?C ?d ?c" using server_ok_durable [OF ok] by simp
  have body: "chl ?d ?c (create_owned E a dp is_file) ?Q ?C"
    if p: "fid_path ?d ?dir = Some dp" and free: "plain_name ?fn \<longrightarrow> find_name ?d dp ?fn = None" for dp
  proof -
    have dp: "vpath ?d dp" using p fid_path_Some [OF wf] by simp
    let ?p = "dp @ [show_u64 ?f]" and ?sz = "sa_size (ca_attributes a)"
    let ?M = "\<lambda>d1 c'. is_dir_at ?d dp \<and> made ?d ?f dp ?fn is_file d1
      \<and> unat (ctr_disk c') = Suc (unat ?f) \<and> ctr_mem c' = ctr_disk c'"
    let ?D = "\<lambda>d' c'. durable_ok d' c' \<and> unat (ctr_disk c') = Suc (unat ?f) \<and> create_sees w a (initial_body is_file ?sz) d'"
    have made: "?C d1 c'" if "?M d1 c'" for d1 c'
      using made_ok(1-3) [OF wf below dp, of ?fn is_file d1] that p free
      by (auto simp: durable_ok_def create_sees_def le_Suc_eq)
    have whole: "?D d' c'" if m: "?M d1 c'" and s: "attrs_set d1 ?p ?sz d'" for d1 d' c'
      using attrs_set_create [OF wf below dp _ _ s, of ?fn is_file] m p free
      by (simp add: durable_ok_def create_sees_def)
    have fin: "?C d' c'" if "?D d' c'" for d' c' using that by (simp add: le_Suc_eq)
    have set: "chl d1 c' (fs_set_attr E ?p (sa_atime (ca_attributes a)) (sa_mtime (ca_attributes a)) ?sz) (\<lambda>_. ?D) ?C"
      if m: "?M d1 c'" for d1 c'
      by (rule chl_mono [OF chl_set_attr]) (use made [OF m] whole [OF m] fin in blast)+
    show ?thesis
      unfolding create_owned_def
      apply (rule chl_bindM)
       apply (rule chl_lift)
       apply (rule chl_mono [OF create_obj_survives [OF wf below sync dp, of ?fn is_file]])
        apply assumption
       apply (use p free in \<open>auto simp: create_outcome_def create_sees_def\<close>)[1]
      apply clarify
      apply (rule chl_thenM [OF set])
       apply blast
      apply (rule chl_still_then, rule still_rules, erule fin)+
      apply (rule chl_still_bind, rule still_rules, erule fin)
      apply (rule chl_basic)
      apply simp
      done
  qed
  show ?thesis
    unfolding create_object_def Let_def
    apply (rule survives_resolve [where C = ?C, OF doc wf cache C0])
    apply (rule chl_still_bind, rule still_rules, rule C0, rule chl_if, rule chl_basic, rule C0)
    apply (rule chl_still_bind, rule still_rules, rule C0, rule chl_if, rule chl_basic, rule C0)
    apply (rule chl_bindM [OF chl_try_name [OF doc]])
       apply (use wf in \<open>simp add: wf_store_def\<close>)
      apply (use fid_path_Some [OF wf] vpath_under_root in blast)
     apply (rule C0)
    subgoal for dp isd locked already d' c'
      using body [of dp]
      by (cases already; cases "projr already")
        (auto intro!: chl_still_then chl_basic still_rules simp: C0 [simplified])
    done
qed

lemma survives_mono:
  "survives m Q C w \<Longrightarrow> (\<And>x d c. Q x d c \<Longrightarrow> Q' x d c) \<Longrightarrow> (\<And>d c. C d c \<Longrightarrow> C' d c) \<Longrightarrow> survives m Q' C' w"
  unfolding survives_def by (erule wp_mono, auto split: outcome.splits)

lemma create_survives:
  assumes "regex_documented E" "server_ok w"
  shows "survives (create_object E a is_file)
    (\<lambda>res d' c'. durable_ok d' c' \<and> dr_file res = ctr_disk (w_counter w)
       \<and> create_sees w a (initial_body is_file (sa_size (ca_attributes a))) d')
    (\<lambda>d' c'. durable_ok d' c' \<and> (view d' = view (h_disk w) \<or> create_sees w a (empty_body is_file) d'
       \<or> create_sees w a (initial_body is_file (sa_size (ca_attributes a))) d')) w"
  by (rule survives_mono [OF create_survives_counter [OF assms]]) auto

section \<open>Deleting a file\<close>

lemma delete_numbered_ok:
  assumes wf: "wf_store d" and below: "fids_below n d" and dp: "vpath d dp"
    and vis: "vchild d dp (show_u64 f)" and leaf: "\<And>c. map_of d (dp @ [show_u64 f, c]) = None"
    and d1: "d1 = AList.delete (dp @ [show_u64 f]) d"
  shows "wf_store d1" "fids_below n d1" "view d1 = (view d)(f := None)"
    and "hidden d1 (dp @ [show_u64 f @ CHR ''.'' # nm])"
proof -
  have ur: "under_root dp" "dp \<noteq> []" using dp by (auto dest: vpath_under_root)
  have ok: "wf_store (AList.delete (dp @ [show_u64 f]) d)" "fids_below n (AList.delete (dp @ [show_u64 f]) d)"
    using ur leaf by (auto intro!: delete_ok [OF wf below])
  then show "wf_store d1" "fids_below n d1" by (simp_all add: d1)
  show "view d1 = (view d)(f := None)"
    by (rule delete_numbered_view [OF wf _ dp vis leaf d1]) (simp add: d1 ok)
  show "hidden d1 (dp @ [show_u64 f @ CHR ''.'' # nm])"
    using ur(2) by (intro absent_hidden) (simp_all add: d1)
qed

lemma delete_hidden_ok:
  assumes wf: "wf_store d" and below: "fids_below n d" and hid: "hidden d (dp @ [k])"
    and dp: "under_root dp" and isf: "is_file_at d (dp @ [k])"
  shows "wf_store (AList.delete (dp @ [k]) d)" "fids_below n (AList.delete (dp @ [k]) d)"
    "view (AList.delete (dp @ [k]) d) = view d"
proof -
  have ok: "wf_store (AList.delete (dp @ [k]) d)" "fids_below n (AList.delete (dp @ [k]) d)"
    using dp file_is_leaf [OF _ isf] wf wf_store_def [of d]
    by (auto intro!: delete_ok [OF wf below] simp: under_root_def)
  then show "wf_store (AList.delete (dp @ [k]) d)" "fids_below n (AList.delete (dp @ [k]) d)" by simp_all
  show "view (AList.delete (dp @ [k]) d) = view d"
    by (rule hidden_view [OF wf ok(1) agree_off_delete hid])
qed

lemma delete_obj_survives:
  assumes ok: "durable_ok d c" and dp: "vpath d dp" and vis: "vchild d dp (show_u64 f)"
  shows "chl d c (fs_delete_obj dp f fname is_file)
    (\<lambda>_ d' c'. durable_ok d' c' \<and> view d' = (view d)(f := None))
    (\<lambda>d' c'. durable_ok d' c' \<and> (view d' = view d \<or> view d' = (view d)(f := None)))"
    (is "chl _ _ _ ?Q ?C")
proof -
  let ?q = "dp @ [show_u64 f]" and ?n = "dp @ [show_u64 f @ ''.'' @ fname]"
  have wf: "wf_store d" and below: "fids_below (unat (ctr_disk c)) d" "fids_below (unat (ctr_mem c)) d"
    using ok by (simp_all add: durable_ok_def)
  have wfd: "wf_disk d" using wf by (simp add: wf_store_def)
  have ur: "under_root dp" using dp by (rule vpath_under_root)
  have C0: "?C d c" using ok by simp
  define gone where "gone d1 \<longleftrightarrow> d1 = AList.delete ?q d \<and> (\<forall>k. map_of d (?q @ [k]) = None)" for d1
  have gone: "durable_ok d1 c" "view d1 = (view d)(f := None)" "hidden d1 ?n"
    if "gone d1" for d1
    using delete_numbered_ok [OF wf below(1) dp vis _, of d1] delete_numbered_ok(2) [OF wf below(2) dp vis _, of d1]
      that by (simp_all add: gone_def durable_ok_def)
  have first: "chl d c (if is_file then strM (map_errM io_text (remove_file_sys ?q))
      else bindM (unwrapM (read_dir_sys ?q)) (\<lambda>entries.
        bindM (attemptM dirents_sys) (\<lambda>it.
        if entries \<noteq> [] \<or> isl it then nfsM NFSERR_NOTEMPTY
        else strM (map_errM io_text (remove_dir_sys ?q))))) (\<lambda>_ d1 c1. gone d1 \<and> c1 = c) ?C"
  proof (rule chl_if)
    have "gone d1" if "k_unlink ?q d = Inr (u, d1)" for u d1
      using k_unlink_map [OF that] file_is_leaf [OF wfd, of ?q] by (auto simp: gone_def)
    then show "chl d c (strM (map_errM io_text (remove_file_sys ?q))) (\<lambda>_ d1 c1. gone d1 \<and> c1 = c) ?C"
      unfolding remove_file_sys_def using C0 by (intro chl_lift chl_sysM) auto
  next
    have "gone d1" if "k_rmdir ?q d = Inr (u, d1)" for u d1
    proof -
      have "map_of d (?q @ [k]) = None" for k
        using k_rmdir_map [OF that] in_children_iff [of k d ?q] by simp
      then show ?thesis using k_rmdir_map [OF that] by (simp add: gone_def)
    qed
    then have rm: "chl d c (strM (map_errM io_text (remove_dir_sys ?q))) (\<lambda>_ d1 c1. gone d1 \<and> c1 = c) ?C"
      unfolding remove_dir_sys_def using C0 by (intro chl_lift chl_sysM) auto
    show "chl d c (bindM (unwrapM (read_dir_sys ?q)) (\<lambda>entries.
        bindM (attemptM dirents_sys) (\<lambda>it.
        if entries \<noteq> [] \<or> isl it then nfsM NFSERR_NOTEMPTY
        else strM (map_errM io_text (remove_dir_sys ?q))))) (\<lambda>_ d1 c1. gone d1 \<and> c1 = c) ?C"
      by (rule chl_still_bind, rule still_rules, rule still_rules, rule C0,
          rule chl_still_bind, rule still_rules, rule still_rules, rule C0,
          rule chl_if, rule chl_basic, rule C0, rule rm)
  qed
  have last: "chl d1 c (strM (map_errM io_text (remove_file_sys ?n))) (\<lambda>_ d2 c2. ?Q () d2 c2) ?C"
    if g: "gone d1" for d1
  proof -
    have "?Q () d2 c" if "k_unlink ?n d1 = Inr (u, d2)" for u d2
    proof -
      note m = k_unlink_map [OF that]
      have d1: "wf_store d1" "fids_below (unat (ctr_disk c)) d1" "fids_below (unat (ctr_mem c)) d1"
        using gone(1) [OF g] by (simp_all add: durable_ok_def)
      show ?thesis
        using delete_hidden_ok [OF d1(1,2) gone(3) [OF g] ur] delete_hidden_ok(2) [OF d1(1,3) gone(3) [OF g] ur]
          m gone(2) [OF g] by (simp add: durable_ok_def)
    qed
    then show ?thesis
      unfolding remove_file_sys_def using gone [OF g] by (intro chl_lift chl_sysM) auto
  qed
  show ?thesis
    unfolding fs_delete_obj_def Let_def
    apply (rule chl_thenM [OF first], clarify)
    apply (rule chl_under_cache_lock, simp add: gone)
    apply (rule chl_still_then, rule still_rules, simp add: gone)
    apply (rule chl_still_then, rule still_rules, rule still_rules, simp add: gone)
    apply (rule chl_still_then, rule still_rules, rule still_rules, rule still_rules, simp add: gone)
    apply (rule chl_thenM [where Q = "?Q ()"], rule last, assumption)
    apply (rule chl_still, (rule still_rules)+, simp, simp)
    done
qed

definition remove_sees :: "disk \<Rightarrow> zip_dir_op_args \<Rightarrow> disk \<Rightarrow> bool" where
  "remove_sees d a d' \<longleftrightarrow> (\<exists>dp f. fid_path d (da_dir a) = Some dp
     \<and> find_name d dp (da_filename a) = Some f \<and> view d' = (view d)(f := None))"

lemma find_name_vchild:
  assumes "wf_store d" "vpath d dp" "find_name d dp fname = Some f"
  shows "vchild d dp (show_u64 f)"
proof -
  obtain nm where "named_in d dp f nm"
    using find_name_SomeD [of d dp fname f] assms by (auto simp: wf_store_def dest: vpath_under_root)
  then show ?thesis by (auto simp: vchild_iff named_in_def exists_at_def)
qed

lemma delete_request:
  assumes doc: "regex_documented E" and ok: "server_ok w" and plain: "plain_name (da_filename a)"
    and k: "\<And>dp f d c. d = h_disk w \<Longrightarrow> c = w_counter w \<Longrightarrow> chl d c (fs_delete_obj dp f (da_filename a) is_file) (\<lambda>_. Q) C \<Longrightarrow>
      chl d c (k dp f) (\<lambda>_. Q) C"
    and Q: "Q = (\<lambda>d' c'. durable_ok d' c' \<and> remove_sees (h_disk w) a d')"
    and C: "C = (\<lambda>d' c'. durable_ok d' c' \<and> (view d' = view (h_disk w) \<or> remove_sees (h_disk w) a d'))"
  shows "survives (bindM (strM (fs_find_by_fid E (da_dir a))) (\<lambda>dpath.
     case dpath of None \<Rightarrow> nfsM NFSERR_STALE | Some dpath \<Rightarrow>
         bindM (fs_is_dir dpath) (\<lambda>d.
         if \<not> d then nfsM NFSERR_NOTDIR
         else bindM (strM (fs_find_by_name E dpath (da_filename a))) (\<lambda>fid.
           case fid of Some fid \<Rightarrow> k dpath fid | None \<Rightarrow> nfsM NFSERR_NOENT)))) (\<lambda>_. Q) C w"
proof -
  let ?d = "h_disk w" and ?c = "w_counter w"
  have wf: "wf_store ?d" and cache: "cache_ok ?d (w_fid_cache w)" using ok by (simp_all add: server_ok_def)
  have C0: "C ?d ?c" using server_ok_durable [OF ok] by (simp add: C)
  show ?thesis
  proof (rule survives_resolve [where C = C, OF doc wf cache C0])
    fix dp assume p: "fid_path ?d (da_dir a) = Some dp"
    then have dp: "vpath ?d dp" using fid_path_Some [OF wf] by simp
    have del: "chl ?d ?c (k dp f) (\<lambda>_. Q) C" if f: "find_name ?d dp (da_filename a) = Some f" for f
    proof (rule k [OF refl refl])
      have sees: "view d' = (view ?d)(f := None) \<Longrightarrow> remove_sees ?d a d'" for d'
        using p f by (auto simp: remove_sees_def)
      show "chl ?d ?c (fs_delete_obj dp f (da_filename a) is_file) (\<lambda>_. Q) C"
        by (rule chl_mono [OF delete_obj_survives [OF server_ok_durable [OF ok] dp
                find_name_vchild [OF wf dp f]]])
          (use sees in \<open>auto simp: Q C\<close>)
    qed
    show "chl ?d ?c (bindM (fs_is_dir dp) (\<lambda>d. if \<not> d then nfsM NFSERR_NOTDIR
        else bindM (strM (fs_find_by_name E dp (da_filename a))) (\<lambda>fid.
           case fid of Some fid \<Rightarrow> k dp fid | None \<Rightarrow> nfsM NFSERR_NOENT))) (\<lambda>_. Q) C"
      apply (rule chl_still_bind, rule still_rules, rule C0, rule chl_if, rule chl_basic, rule C0)
      apply (rule chl_bindM [where Q = "\<lambda>x d' c'. x = find_name ?d dp (da_filename a) \<and> d' = ?d \<and> c' = ?c"])
       apply (rule chl_lift, rule chl_find_name [OF doc plain])
      using wf dp C0 del by (auto simp: wf_store_def vpath_under_root intro: chl_basic split: option.split)
  qed
qed

lemma remove_survives:
  assumes "regex_documented E" "server_ok w" "plain_name (da_filename a)"
  shows "survives (handle_remove E a)
      (\<lambda>_ d' c'. durable_ok d' c' \<and> remove_sees (h_disk w) a d')
      (\<lambda>d' c'. durable_ok d' c' \<and> (view d' = view (h_disk w) \<or> remove_sees (h_disk w) a d')) w"
    and "survives (handle_rmdir E a)
      (\<lambda>_ d' c'. durable_ok d' c' \<and> remove_sees (h_disk w) a d')
      (\<lambda>d' c'. durable_ok d' c' \<and> (view d' = view (h_disk w) \<or> remove_sees (h_disk w) a d')) w"
  unfolding handle_remove_def handle_rmdir_def
  by (rule delete_request [OF assms]; (rule refl)?;
      intro chl_still_bind chl_if chl_basic still_rules; use server_ok_durable [OF assms(2)] in simp)+

end
