(* ===== verification/AtomicData.thy ===== *)
theory AtomicData
  imports Atomic
begin

text \<open>
  Atomicity of stable writes and of COMMIT: the new content is prepared in a temporary file
  and takes the place of the old one by one rename, so a client sees the old content or the
  whole new one, whatever fails.
\<close>

section \<open>Work on a temporary file\<close>

definition tmp_name :: "path \<Rightarrow> bool" where
  "tmp_name q \<longleftrightarrow> (\<exists>c. q = [''tmp'', c])"

lemma tmp_path_name [simp]: "tmp_name (tmp_path E s)"
  by (simp add: tmp_name_def tmp_path_def)

text \<open>Only the temporary file differs.\<close>

definition aside :: "path \<Rightarrow> disk \<Rightarrow> disk \<Rightarrow> bool" where
  "aside tmp d d1 \<longleftrightarrow> agree_off {tmp} d d1 \<and> wf_store d1"

definition staged :: "path \<Rightarrow> disk \<Rightarrow> bytes \<Rightarrow> disk \<Rightarrow> bool" where
  "staged tmp d bs d1 \<longleftrightarrow> aside tmp d d1 \<and> (\<exists>st. map_of d1 tmp = Some (RegFile st bs))"

lemma tmp_hidden: "tmp_name tmp \<Longrightarrow> hidden d tmp"
  by (auto simp: hidden_def tmp_name_def under_root_def Cons_eq_append_conv)

lemma tmp_not_under: "tmp_name tmp \<Longrightarrow> \<not> under_root tmp"
  by (auto simp: tmp_name_def under_root_def)

lemma aside_ok:
  assumes tmp: "tmp_name tmp" and d: "durable_ok d c" and a: "aside tmp d d1"
  shows "durable_ok d1 c" "view d1 = view d" "vpath d1 p = vpath d p"
    "under_root p \<Longrightarrow> map_of d1 p = map_of d p"
proof -
  have ag: "agree_off {tmp} d d1" and wf1: "wf_store d1" using a by (simp_all add: aside_def)
  have wf: "wf_store d" using d by (simp add: durable_ok_def)
  have "fids_below n d1" if "fids_below n d" for n
    by (rule fids_below_agree [OF that ag]) (use tmp_not_under [OF tmp] in auto)
  then show "durable_ok d1 c" using d wf1 by (simp add: durable_ok_def)
  show "view d1 = view d" by (rule hidden_view [OF wf wf1 ag tmp_hidden [OF tmp]])
  show "vpath d1 p = vpath d p" by (rule hidden_vpath [OF ag tmp_hidden [OF tmp]])
  show "under_root p \<Longrightarrow> map_of d1 p = map_of d p"
    using ag tmp_not_under [OF tmp] by (auto simp: agree_off_def)
qed

lemma aside_refl: "wf_store d \<Longrightarrow> aside tmp d d"
  by (simp add: aside_def agree_off_def)

lemma aside_update:
  assumes tmp: "tmp_name tmp" and a: "aside tmp d d1"
    and ok: "wf_disk (AList.update tmp ob d1)"
  shows "aside tmp d (AList.update tmp ob d1)"
proof -
  have "wf_store d1" using a by (simp add: aside_def)
  then have "wf_store (AList.update tmp ob d1)"
    using tmp tmp_not_under [OF tmp]
    by (intro wf_store_agree [OF _ ok agree_off_update]) (auto simp: tmp_name_def entry_fits_def)
  then show ?thesis using a by (simp add: aside_def agree_off_def)
qed

lemma aside_create:
  assumes tmp: "tmp_name tmp" and a: "aside tmp d d1" and run: "k_create now tmp d1 = Inr (u, d2)"
  shows "staged tmp d [] d2"
proof -
  have wf: "wf_disk d1" using a by (simp add: aside_def wf_store_def)
  obtain st where d2: "d2 = AList.update tmp (RegFile st []) d1"
      and "wf_disk (AList.update tmp (RegFile st []) d1)"
  proof (cases "map_of d1 tmp")
    case None
    then have new: "k_new (RegFile (fresh_stamps now) []) tmp d1 = Inr (u, d2)"
      using run by (simp add: k_create_def)
    show ?thesis
      using k_new_map [OF new] wf by (intro that) (auto intro: wf_disk_update_new)
  next
    case (Some ob)
    then show ?thesis
      using run wf by (cases ob) (auto simp: k_create_def is_dir_at_iff intro!: that wf_disk_update_same)
  qed
  then show ?thesis using aside_update [OF tmp a] by (simp add: staged_def)
qed

lemma staged_modify:
  assumes tmp: "tmp_name tmp" and s: "staged tmp d bs d1" and run: "k_modify now g tmp d1 = Inr (u, d2)"
  shows "staged tmp d (g bs) d2"
proof -
  obtain st where st: "map_of d1 tmp = Some (RegFile st bs)" and a: "aside tmp d d1"
    using s by (auto simp: staged_def)
  then have d2: "d2 = AList.update tmp (RegFile (st\<lparr>st_mtime := now\<rparr>) (g bs)) d1"
    using run by (simp add: k_modify_def)
  have "wf_disk d2"
    unfolding d2 using a st by (intro wf_disk_update_same) (auto simp: aside_def wf_store_def is_dir_at_iff)
  then show ?thesis using aside_update [OF tmp a, of "RegFile (st\<lparr>st_mtime := now\<rparr>) (g bs)"] d2
    by (simp add: staged_def)
qed

text \<open>The rename puts the prepared content in place.\<close>

lemma staged_rename:
  assumes tmp: "tmp_name tmp" and ok: "durable_ok d c" and p: "fid_path d f = Some p"
    and s: "staged tmp d bs d1" and run: "k_rename tmp p d1 = Inr (u, d2)"
  shows "durable_ok d2 c" "view d2 = (view d)(f \<mapsto> (file_at d p)\<lparr>nf_body := FileBody bs\<rparr>)"
proof -
  have wf: "wf_store d" using ok by (simp add: durable_ok_def)
  have vp: "vpath d p" "last p = show_u64 f" using p fid_path_Some [OF wf] by auto
  have ur: "under_root p" using vp(1) by (rule vpath_under_root)
  obtain st where st: "map_of d1 tmp = Some (RegFile st bs)" and a: "aside tmp d d1"
    using s by (auto simp: staged_def)
  have wf1: "wf_store d1" using a by (simp add: aside_def)
  note same = aside_ok [OF tmp ok a]
  have ne: "tmp \<noteq> p" using ur tmp_not_under [OF tmp] by auto
  have wfd1: "wf_disk d1" using wf1 by (simp add: wf_store_def)
  note m = k_rename_map [OF run]
  have pe: "map_of d1 p \<noteq> None" using same(4) [OF ur] vpath_exists [OF vp(1)] by simp
  then have filep: "is_file_at d1 p" using m ne st by (auto simp: is_dir_at_iff)
  have leaf: "map_of d1 (p @ r) = None" "map_of d1 (tmp @ r) = None" if "r \<noteq> []" for r
  proof -
    have "is_file_at d1 tmp" using st by (auto simp: is_file_at_iff)
    then show "map_of d1 (p @ r) = None" "map_of d1 (tmp @ r) = None"
      using leaf_no_extension [OF wfd1 file_is_leaf [OF wfd1 filep], of "p @ r"]
        leaf_no_extension [OF wfd1 file_is_leaf [OF wfd1], of tmp "tmp @ r"] that by auto
  qed
  have look: "map_of d2 q = (if q = p then Some (RegFile st bs) else if q = tmp then None else map_of d1 q)" for q
  proof -
    note lk = k_rename_lookup [OF wfd1 run ne, of q]
    consider r where "q = p @ r" | r where "\<not> prefix p q" "q = tmp @ r" | "\<not> prefix p q" "\<not> prefix tmp q"
      by (auto simp: prefix_def)
    then show ?thesis
    proof cases
      case (1 r)
      then show ?thesis using lk st leaf [of r] ne by (cases "r = []") auto
    next
      case (2 r)
      then show ?thesis using lk leaf(2) [of r] by (cases "r = []") auto
    next
      case 3
      then show ?thesis using lk by auto
    qed
  qed
  define dm where "dm = AList.update p (RegFile st bs) d1"
  have sh: "same_shape d1 dm"
    unfolding dm_def using filep by (auto simp: is_file_at_iff intro!: same_shape_update)
  have wfm: "wf_store dm" by (rule same_shape_wf_store [OF sh wf1])
  have agm: "agree_off {p} d1 dm" by (simp add: dm_def agree_off_update)
  have ag2: "agree_off {tmp} dm d2" by (auto simp: agree_off_def look dm_def)
  have wf2: "wf_store d2"
    using tmp tmp_not_under [OF tmp] wf_disk_rename [OF wfd1 run]
    by (intro wf_store_agree [OF wfm _ ag2]) (auto simp: tmp_name_def entry_fits_def)
  have pd1: "fid_path d1 f = Some p" using fid_path_Some [OF wf1] vp same(3) by simp
  have at1: "file_at d1 p = file_at d p"
    using same(2) view_fid_path [OF p] view_fid_path [OF pd1] by simp
  have "view dm = (view d1)(f \<mapsto> (file_at d1 p)\<lparr>nf_body := obj_body (RegFile st bs)\<rparr>)"
    by (rule content_view [OF wf1 wfm agm pd1]) (simp add: dm_def)
  moreover have "view d2 = view dm" by (rule hidden_view [OF wfm wf2 ag2 tmp_hidden [OF tmp]])
  ultimately show "view d2 = (view d)(f \<mapsto> (file_at d p)\<lparr>nf_body := FileBody bs\<rparr>)"
    using same(2) at1 by simp
  have "fids_below n d2" if "fids_below n d1" for n
  proof (rule fids_below_agree [OF _ ag2 order_refl])
    show "fids_below n dm"
      using that same_shape_tests(1) [OF sh] by (simp add: fids_below_iff)
  qed (use tmp_not_under [OF tmp] in auto)
  then show "durable_ok d2 c" using same(1) wf2 by (simp add: durable_ok_def)
qed

section \<open>The programs\<close>

text \<open>What is prepared so far shows nothing.\<close>

definition content_states :: "disk \<Rightarrow> fid \<Rightarrow> path \<Rightarrow> (bytes \<Rightarrow> bytes) \<Rightarrow> disk \<Rightarrow> bool" where
  "content_states d f p g d' \<longleftrightarrow> view d' = view d \<or> (\<exists>st bs. map_of d p = Some (RegFile st bs)
     \<and> view d' = (view d)(f \<mapsto> (file_at d p)\<lparr>nf_body := FileBody (g bs)\<rparr>))"

lemma copy_stages:
  assumes tmp: "tmp_name tmp" and wf: "wf_store d" and ur: "under_root p"
    and C: "\<And>d1. aside tmp d d1 \<Longrightarrow> C d1 c"
  shows "chl d c (copy_sys p tmp)
    (\<lambda>_ d1 c1. c1 = c \<and> (\<exists>st bs. map_of d p = Some (RegFile st bs) \<and> staged tmp d bs d1)) C"
proof -
  have C0: "C d c" using C aside_refl [OF wf] by blast
  have Cs: "C d1 c" if "staged tmp d bs d1" for d1 bs using that C by (simp add: staged_def)
  have fin: "chl d1 c (sysM (\<lambda>now. k_modify now (\<lambda>_. bs) tmp)) (\<lambda>_ d1 c1. c1 = c \<and> staged tmp d bs d1) C"
    if "staged tmp d [] d1" for d1 bs
    using staged_modify [OF tmp that] Cs [OF that] by (intro chl_sysM) auto
  have mk: "chl d c (file_create_sys tmp) (\<lambda>_ d1 c1. c1 = c \<and> staged tmp d [] d1) C"
    unfolding file_create_sys_def
    using aside_create [OF tmp aside_refl [OF wf]] C0 by (intro chl_sysM) auto
  show ?thesis
    unfolding copy_sys_def
    apply (rule chl_still_bind, rule still_rules, rule C0, rule chl_if, rule chl_basic, rule C0)
    apply (rule chl_bindM [where Q = "\<lambda>bs d1 c1. d1 = d \<and> c1 = c \<and> (\<exists>st. map_of d p = Some (RegFile st bs))"])
     apply (rule chl_sysM, rule C0)
     apply (auto simp: k_content_def split: option.splits obj.splits)[1]
    apply (elim conjE exE, hypsubst)
    apply (rule chl_thenM [OF mk], elim conjE, hypsubst)
    apply (rule chl_mono [OF fin], assumption, blast, assumption)
    done
qed

lemma write_stages:
  assumes tmp: "tmp_name tmp" and s: "staged tmp d bs d1" and C: "C d1 c"
  shows "chl d1 c (write_all_sys tmp off data) (\<lambda>_ d2 c2. c2 = c \<and> staged tmp d (write_at (unat off) data bs) d2) C"
  unfolding write_all_sys_def
proof (rule chl_if)
  show "chl d1 c (retM ()) (\<lambda>_ d2 c2. c2 = c \<and> staged tmp d (write_at (unat off) data bs) d2) C"
    if "data = []" using that s by (intro chl_basic) simp
  show "chl d1 c (sysM (\<lambda>now. k_modify now (write_at (unat off) data) tmp))
      (\<lambda>_ d2 c2. c2 = c \<and> staged tmp d (write_at (unat off) data bs) d2) C"
    using C staged_modify [OF tmp s] by (intro chl_sysM) auto
qed

text \<open>The rename step, with its two outcomes\<close>

lemma rename_stages:
  assumes tmp: "tmp_name tmp" and ok: "durable_ok d c" and p: "fid_path d f = Some p"
    and old: "map_of d p = Some (RegFile st bs)" and s: "staged tmp d (g bs) d1"
  shows "chl d1 c (rename_sys tmp p)
    (\<lambda>_ d' c'. durable_ok d' c' \<and> view d' = (view d)(f \<mapsto> (file_at d p)\<lparr>nf_body := FileBody (g bs)\<rparr>))
    (\<lambda>d' c'. durable_ok d' c' \<and> content_states d f p g d')"
proof -
  have a: "aside tmp d d1" using s by (simp add: staged_def)
  show ?thesis
    unfolding rename_sys_def
    using aside_ok [OF tmp ok a] staged_rename [OF tmp ok p s]
    by (intro chl_sysM) (auto simp: content_states_def)
qed

lemma aside_content:
  "tmp_name tmp \<Longrightarrow> durable_ok d c \<Longrightarrow> aside tmp d d1 \<Longrightarrow> durable_ok d1 c \<and> content_states d f p g d1"
  using aside_ok(1,2) [of tmp d c d1] by (simp add: content_states_def)

definition write_done :: "disk \<Rightarrow> fid \<Rightarrow> (bytes \<Rightarrow> bytes) \<Rightarrow> disk \<Rightarrow> bool" where
  "write_done d f g d' \<longleftrightarrow> (\<exists>p st bs. fid_path d f = Some p \<and> map_of d p = Some (RegFile st bs)
     \<and> view d' = (view d)(f \<mapsto> (file_at d p)\<lparr>nf_body := FileBody (g bs)\<rparr>))"

lemma stable_write_survives:
  assumes doc: "regex_documented E" and ok: "server_ok w"
  shows "survives (fs_stable_write E f off cnt data)
    (\<lambda>n d' c'. durable_ok d' c' \<and> n = of_nat (length data) \<and> length data = unat cnt
       \<and> write_done (h_disk w) f (write_at (unat off) data) d')
    (\<lambda>d' c'. durable_ok d' c' \<and> (view d' = view (h_disk w) \<or> write_done (h_disk w) f (write_at (unat off) data) d')) w"
    (is "survives _ ?Q ?C w")
proof -
  let ?d = "h_disk w" and ?c = "w_counter w" and ?tmp = "tmp_path E (show_u64 f)"
    and ?g = "write_at (unat off) data"
  have wf: "wf_store ?d" and cache: "cache_ok ?d (w_fid_cache w)" using ok by (simp_all add: server_ok_def)
  note dur = server_ok_durable [OF ok]
  have Ca: "?C d1 ?c" if "aside ?tmp ?d d1" for d1
    using aside_ok(1,2) [OF tmp_path_name dur that] by simp
  have Cs: "?C d1 ?c" if "staged ?tmp ?d bs d1" for d1 bs
    using that Ca by (simp add: staged_def)
  have ur: "under_root p" if "fid_path ?d f = Some p" for p
    using that fid_path_Some [OF wf] vpath_under_root by blast
  have ren: "chl d1 ?c (rename_sys ?tmp p) (\<lambda>_ d' c'. durable_ok d' c' \<and> write_done ?d f ?g d') ?C"
    if p: "fid_path ?d f = Some p" "map_of ?d p = Some (RegFile st bs)" "staged ?tmp ?d (?g bs) d1"
    for p st bs d1
    by (rule chl_mono [OF rename_stages [where g = ?g, OF tmp_path_name dur p]])
      (use p in \<open>auto simp: write_done_def content_states_def\<close>)
  show ?thesis
    unfolding fs_stable_write_def Let_def
    apply (rule survives_resolve [where C = ?C, OF doc wf cache])
     apply (use dur in simp)
    apply (rule chl_thenM)
     apply (rule chl_lift, rule copy_stages [OF tmp_path_name wf ur], assumption, rule Ca, assumption)
    apply (elim conjE exE, hypsubst)
    apply (rule chl_still_then, rule still_rules, rule still_rules, rule Cs, assumption)
    apply (rule chl_still_then, rule still_rules, rule still_rules, rule Cs, assumption)
    apply (rule chl_still_then, rule still_rules, rule still_rules, rule Cs, assumption)
    subgoal for p d1 c1 st bs
      apply (rule chl_thenM [where Q = "\<lambda>d1 c1. c1 = ?c \<and> length data = unat cnt \<and> staged ?tmp ?d bs d1"])
       apply (rule chl_assertM, blast, rule Cs, assumption)
      apply (elim conjE, hypsubst)
      apply (rule chl_thenM)
       apply (rule chl_lift, rule write_stages [OF tmp_path_name], assumption, rule Cs, assumption)
      apply (elim conjE, hypsubst)
      apply (rule chl_still_then, rule still_rules, rule still_rules, rule Cs, assumption)
      apply (rule chl_thenM)
       apply (rule chl_lift, rule ren, assumption, assumption, assumption)
      apply (rule chl_basic, simp)
      done
    done
qed

text \<open>The pending writes in order\<close>

definition apply_writes :: "pending_write list \<Rightarrow> bytes \<Rightarrow> bytes" where
  "apply_writes ws bs = fold (\<lambda>(off, cnt, buf). write_at (unat off) buf) ws bs"

lemma commit_loop_stages:
  assumes tmp: "tmp_name tmp" and Cs: "\<And>bs d1. staged tmp d bs d1 \<Longrightarrow> C d1 c"
  shows "staged tmp d bs d1 \<Longrightarrow>
    chl d1 c (commit_loop tmp ws) (\<lambda>_ d2 c2. c2 = c \<and> staged tmp d (apply_writes ws bs) d2) C"
proof (induction ws arbitrary: bs d1)
  case Nil
  then show ?case by (simp add: apply_writes_def chl_basic)
next
  case (Cons x ws)
  obtain off cnt buf where x: "x = (off, cnt, buf)" by (cases x)
  have step: "apply_writes (x # ws) bs = apply_writes ws (write_at (unat off) buf bs)"
    by (simp add: apply_writes_def x)
  show ?case
    unfolding x commit_loop.simps step [unfolded x]
    apply (rule chl_still_then, rule still_rules, rule still_rules, rule Cs, rule Cons.prems)
    apply (rule chl_still_then, rule still_rules, rule Cs, rule Cons.prems)
    apply (rule chl_thenM)
     apply (rule chl_lift, rule write_stages [OF tmp Cons.prems], rule Cs, rule Cons.prems)
    apply (elim conjE, hypsubst, rule Cons.IH, assumption)
    done
qed

section \<open>COMMIT\<close>

text \<open>The calls on files leave the buffers of unstable writes alone.\<close>

definition keeps_bufs :: "(world, 'e, 'a) M \<Rightarrow> bool" where
  "keeps_bufs m \<longleftrightarrow> (\<forall>w. w_async_heap (snd (m w)) = w_async_heap w)"

lemma keeps_bufs_sysM: "keeps_bufs (sysM k)" "keeps_bufs (queryM q)"
  by (auto simp: keeps_bufs_def sysM_def queryM_def run_call_def drop_fault_def
      split: option.split fault.split sum.split)

lemma keeps_bufs_bindM: "keeps_bufs m \<Longrightarrow> (\<And>x. keeps_bufs (f x)) \<Longrightarrow> keeps_bufs (bindM m f)"
  unfolding keeps_bufs_def
proof
  fix w assume m: "\<forall>w. w_async_heap (snd (m w)) = w_async_heap w"
    and f: "\<And>x. \<forall>w. w_async_heap (snd (f x w)) = w_async_heap w"
  obtain r w1 where mw: "m w = (r, w1)" by (cases "m w")
  then have "w_async_heap w1 = w_async_heap w" using m by (metis snd_conv)
  then show "w_async_heap (snd (bindM m f w)) = w_async_heap w"
    using f mw by (cases r) (auto simp: bindM_apply)
qed

lemma keeps_bufs_lift:
  "keeps_bufs m \<Longrightarrow> keeps_bufs (ioM m)" "keeps_bufs (errM e)"
  by (simp_all add: keeps_bufs_def monad_simps case_prod_beta)

lemma keeps_bufs_calls:
  "keeps_bufs (copy_sys a b)" "keeps_bufs (open_write_sys b)" "keeps_bufs sync_sys"
  by (auto simp: copy_sys_def fs_is_file_def file_create_sys_def open_write_sys_def sync_sys_def thenM_def
      intro!: keeps_bufs_bindM keeps_bufs_sysM keeps_bufs_lift)

lemma survives_bufs_bind:
  assumes m: "chl (h_disk w) (w_counter w) m Q C" and bufs: "keeps_bufs m"
    and f: "\<And>x w1. Q x (h_disk w1) (w_counter w1) \<Longrightarrow> w_async_heap w1 = w_async_heap w \<Longrightarrow>
      survives (f x) R C w1"
  shows "survives (bindM m f) R C w"
proof -
  obtain r w1 where mw: "m w = (r, w1)" by (cases "m w")
  then have heap: "w_async_heap w1 = w_async_heap w" using bufs by (metis keeps_bufs_def snd_conv)
  have r: "case r of Ok x \<Rightarrow> Q x (h_disk w1) (w_counter w1) | Hang \<Rightarrow> False | _ \<Rightarrow> C (h_disk w1) (w_counter w1)"
    using m mw by (auto simp: chl_def wp_def)
  show ?thesis
  proof (cases r)
    case (Ok x)
    then have "survives (f x) R C w1" using f r heap by simp
    then show ?thesis using Ok mw by (simp add: survives_def wp_def bindM_apply)
  qed (use r mw in \<open>auto simp: survives_def wp_def bindM_apply\<close>)
qed

definition pending :: "world \<Rightarrow> fid \<Rightarrow> pending_write list" where
  "pending w f = (case map_of (w_async_bufs w) f of None \<Rightarrow> [] | Some a \<Rightarrow> w_async_heap w a)"

definition commit_done :: "world \<Rightarrow> fid \<Rightarrow> disk \<Rightarrow> bool" where
  "commit_done w f d' \<longleftrightarrow>
     (if pending w f = [] then view d' = view (h_disk w)
      else write_done (h_disk w) f (apply_writes (pending w f)) d')"

lemma commit_survives:
  assumes doc: "regex_documented E" and ok: "server_ok w"
  shows "survives (handle_commit E a)
    (\<lambda>_ d' c'. durable_ok d' c' \<and> commit_done w (cm_file a) d')
    (\<lambda>d' c'. durable_ok d' c' \<and> (view d' = view (h_disk w) \<or> commit_done w (cm_file a) d')) w"
    (is "survives _ ?Q ?C w")
proof -
  let ?d = "h_disk w" and ?c = "w_counter w" and ?f = "cm_file a" and ?tmp = "tmp_path E (show_i64 (cm_file a))"
  let ?ws = "pending w (cm_file a)"
  have wf: "wf_store ?d" and cache: "cache_ok ?d (w_fid_cache w)" using ok by (simp_all add: server_ok_def)
  note dur = server_ok_durable [OF ok]
  have C0: "?C ?d ?c" using dur by simp
  have Ca: "?C d1 ?c" if "aside ?tmp ?d d1" for d1
    using aside_ok(1,2) [OF tmp_path_name dur that] by simp
  have Cs: "?C d1 ?c" if "staged ?tmp ?d bs d1" for d1 bs
    using that Ca by (simp add: staged_def)
  have wr: "survives (thenM (ioM (copy_sys p ?tmp)) (
       thenM (ioM (open_write_sys ?tmp)) (
       thenM (ioM sync_sys) (
       bindM (async_drain addr) (\<lambda>drained.
       thenM (commit_loop ?tmp drained) (
       thenM (ioM sync_sys) (
       thenM (ioM (rename_sys ?tmp p)) (
       getsM w_epoch)))))))) ?Q ?C w1"
    if p: "fid_path ?d ?f = Some p" and w1: "h_disk w1 = ?d" "w_counter w1 = ?c"
      and ws: "w_async_heap w1 addr = ?ws" "?ws \<noteq> []" for p addr w1
  proof -
    have ur: "under_root p" using p fid_path_Some [OF wf] vpath_under_root by blast
    have ren: "chl d1 ?c (rename_sys ?tmp p) (\<lambda>_ d' c'. durable_ok d' c' \<and> commit_done w ?f d') ?C"
      if s: "map_of ?d p = Some (RegFile st bs)" "staged ?tmp ?d (apply_writes ?ws bs) d1" for st bs d1
      by (rule chl_mono [OF rename_stages [where g = "apply_writes ?ws", OF tmp_path_name dur p s]])
        (use p s(1) ws(2) in \<open>auto simp: commit_done_def write_done_def content_states_def\<close>)
    have fin: "chl d1 ?c (thenM (commit_loop ?tmp ?ws) (
       thenM (ioM sync_sys) (
       thenM (ioM (rename_sys ?tmp p)) (
       getsM w_epoch)))) ?Q ?C"
      if s: "map_of ?d p = Some (RegFile st bs)" "staged ?tmp ?d bs d1" for st bs d1
      apply (rule chl_thenM)
       apply (rule commit_loop_stages [OF tmp_path_name], rule Cs, assumption, rule s(2))
      apply (elim conjE, hypsubst)
      apply (rule chl_still_then, rule still_rules, rule still_rules, rule Cs, assumption)
      apply (rule chl_thenM)
       apply (rule chl_lift, rule ren [OF s(1)], assumption)
      apply (rule chl_basic, assumption)
      done
    have drained: "survives (bindM (async_drain addr) (\<lambda>drained.
       bindM (commit_loop ?tmp drained) (\<lambda>_.
       bindM (ioM sync_sys) (\<lambda>_.
       bindM (ioM (rename_sys ?tmp p)) (\<lambda>_. getsM w_epoch))))) ?Q ?C w2"
      if "map_of ?d p = Some (RegFile st bs)" "staged ?tmp ?d bs (h_disk w2)" "w_counter w2 = ?c"
        "w_async_heap w2 addr = ?ws" for st bs w2
      using fin [OF that(1,2)] that(3,4)
      by (simp add: survives_def chl_def thenM_def wp_def [of "bindM (async_drain addr) _"]
          bindM_apply [of "async_drain addr"] async_drain_def wp_def [symmetric])
    show ?thesis
      unfolding thenM_def
      apply (rule survives_bufs_bind)
        apply (rule chl_lift, unfold w1, rule copy_stages [OF tmp_path_name wf ur], rule Ca, assumption)
       apply (rule keeps_bufs_lift, rule keeps_bufs_calls)
      apply (elim conjE exE)
      apply (rule survives_bufs_bind)
        apply (rule chl_still [where Q = "\<lambda>_ d1 c1. c1 = ?c \<and> (\<exists>st bs. map_of ?d p = Some (RegFile st bs)
            \<and> staged ?tmp ?d bs d1)"], rule still_rules, rule still_rules)
         apply (simp add: Cs)
        apply blast
       apply (rule keeps_bufs_lift, rule keeps_bufs_calls)
      apply (elim conjE exE)
      apply (rule survives_bufs_bind)
        apply (rule chl_still [where Q = "\<lambda>_ d1 c1. c1 = ?c \<and> (\<exists>st bs. map_of ?d p = Some (RegFile st bs)
            \<and> staged ?tmp ?d bs d1)"], rule still_rules, rule still_rules)
         apply (simp add: Cs)
        apply blast
       apply (rule keeps_bufs_lift, rule keeps_bufs_calls)
      apply (elim conjE exE)
      apply (rule drained, assumption, assumption, assumption)
      using ws(1) by simp
  qed
  show ?thesis
    unfolding handle_commit_def Let_def
  proof (rule survives_find [where C = ?C, OF doc wf cache C0])
    fix p and w1 :: world
    assume w1: "h_disk w1 = ?d" "w_counter w1 = ?c" "w_async_bufs w1 = w_async_bufs w"
        "w_async_heap w1 = w_async_heap w"
      and p: "p = None \<or> p = fid_path ?d ?f"
    show "survives (case p of
       None \<Rightarrow> nfsM NFSERR_STALE
     | Some fpath_numbered \<Rightarrow>
         bindM (async_remove ?f) (\<lambda>to_write.
         case to_write of
           None \<Rightarrow> getsM w_epoch
         | Some unlocked \<Rightarrow>
             bindM (async_read unlocked) (\<lambda>pending.
             if pending = [] then getsM w_epoch
             else
               thenM (ioM (copy_sys fpath_numbered ?tmp)) (
               thenM (ioM (open_write_sys ?tmp)) (
               thenM (ioM sync_sys) (
               bindM (async_drain unlocked) (\<lambda>drained.
               thenM (commit_loop ?tmp drained) (
               thenM (ioM sync_sys) (
               thenM (ioM (rename_sys ?tmp fpath_numbered)) (
               getsM w_epoch)))))))))) ?Q ?C w1"
    proof (cases p)
      case None
      then show ?thesis using w1 C0 by (auto intro!: chl_survives chl_basic)
    next
      case (Some q)
      then have q: "fid_path ?d ?f = Some q" using p by auto
      let ?w2 = "w1\<lparr>w_async_bufs := AList.delete ?f (w_async_bufs w1)\<rparr>"
      show ?thesis
      proof (cases "map_of (w_async_bufs w) ?f")
        case None
        then have "pending w ?f = []" by (simp add: pending_def)
        then show ?thesis
          using Some None w1 dur
          by (simp add: survives_def wp_def monad_simps async_remove_def commit_done_def)
      next
        case (Some addr)
        then have ws: "w_async_heap ?w2 addr = ?ws" using w1 by (simp add: pending_def)
        show ?thesis
        proof (cases "?ws = []")
          case True
          then show ?thesis
            using \<open>p = Some q\<close> Some w1 dur ws
            by (simp add: survives_def wp_def monad_simps async_remove_def async_read_def commit_done_def)
        next
          case False
          then have "survives (thenM (ioM (copy_sys q ?tmp)) (
               thenM (ioM (open_write_sys ?tmp)) (
               thenM (ioM sync_sys) (
               bindM (async_drain addr) (\<lambda>drained.
               thenM (commit_loop ?tmp drained) (
               thenM (ioM sync_sys) (
               thenM (ioM (rename_sys ?tmp q)) (
               getsM w_epoch)))))))) ?Q ?C ?w2"
            using w1 ws by (intro wr [OF q]) simp_all
          then show ?thesis
            using \<open>p = Some q\<close> Some w1 ws False
            by (simp add: survives_def wp_def bindM_apply getsM_apply async_remove_def async_read_def)
        qed
      qed
    qed
  qed
qed

end
