(* ===== verification/Overwrite.thy ===== *)
theory Overwrite
  imports AtomicData
begin

text \<open>
  Sequences of writes to one file: a write that comes again later in the sequence has no
  effect where it comes first, and repeating a write at once has none either. This is what
  makes it safe for a client to send its buffered writes once more.
\<close>

section \<open>The bytes of a file\<close>

text \<open>The byte at a position, where a file reads as zeros past its end\<close>

definition byte_at :: "bytes \<Rightarrow> nat \<Rightarrow> byte" where
  "byte_at bs i = (if i < length bs then bs ! i else 0)"

lemma bytes_eqI: "length xs = length ys \<Longrightarrow> (\<And>i. byte_at xs i = byte_at ys i) \<Longrightarrow> xs = ys"
  by (rule nth_equalityI, simp) (metis byte_at_def)

definition covers :: "pending_write \<Rightarrow> nat \<Rightarrow> bool" where
  "covers x i = (case x of (off, cnt, data) \<Rightarrow> unat off \<le> i \<and> i < unat off + length data)"

definition write1 :: "pending_write \<Rightarrow> bytes \<Rightarrow> bytes" where
  "write1 x = (case x of (off, cnt, data) \<Rightarrow> write_at (unat off) data)"

lemma apply_writes_simps [simp]:
  "apply_writes [] bs = bs"
  "apply_writes (x # ws) bs = apply_writes ws (write1 x bs)"
  "apply_writes (ws @ ws') bs = apply_writes ws' (apply_writes ws bs)"
  by (simp_all add: apply_writes_def write1_def case_prod_beta)

lemma byte_at_write1:
  "byte_at (write1 x bs) i =
     (case x of (off, cnt, data) \<Rightarrow> if covers x i then data ! (i - unat off) else byte_at bs i)"
proof (cases x)
  case (fields off cnt data)
  then show ?thesis
    by (cases "data = []")
       (auto simp: write1_def covers_def byte_at_def nth_write_at length_write_at)
qed

lemma byte_at_write1_cong: "byte_at a i = byte_at b i \<Longrightarrow> byte_at (write1 x a) i = byte_at (write1 x b) i"
  by (simp add: byte_at_write1 split: prod.split)

lemma byte_at_covered: "covers x i \<Longrightarrow> byte_at (write1 x a) i = byte_at (write1 x b) i"
  by (simp add: byte_at_write1 split: prod.split)

lemma byte_at_free: "\<not> covers x i \<Longrightarrow> byte_at (write1 x a) i = byte_at a i"
  by (simp add: byte_at_write1 split: prod.split)

lemma byte_at_writes_cong: "byte_at a i = byte_at b i \<Longrightarrow> byte_at (apply_writes ws a) i = byte_at (apply_writes ws b) i"
proof (induction ws arbitrary: a b)
  case (Cons x ws)
  show ?case using Cons.IH [OF byte_at_write1_cong [OF Cons.prems, of x]] by simp
qed simp

lemma byte_at_writes_covered:
  "x \<in> set ws \<Longrightarrow> covers x i \<Longrightarrow> byte_at (apply_writes ws a) i = byte_at (apply_writes ws b) i"
proof (induction ws arbitrary: a b)
  case (Cons y ws)
  show ?case
  proof (cases "x = y")
    case True
    then show ?thesis using byte_at_writes_cong [OF byte_at_covered [OF Cons.prems(2)]] by simp
  next
    case False
    then show ?thesis using Cons by simp
  qed
qed simp

definition end_of :: "pending_write \<Rightarrow> nat" where
  "end_of x = (case x of (off, cnt, data) \<Rightarrow> if data = [] then 0 else unat off + length data)"

lemma length_write1: "length (write1 x bs) = max (length bs) (end_of x)"
  by (cases x) (simp add: write1_def end_of_def length_write_at)

fun max_end :: "pending_write list \<Rightarrow> nat" where
  "max_end [] = 0"
| "max_end (x # ws) = max (end_of x) (max_end ws)"

lemma length_writes: "length (apply_writes ws bs) = max (length bs) (max_end ws)"
  by (induction ws arbitrary: bs) (simp_all add: length_write1)

lemma max_end_member: "x \<in> set ws \<Longrightarrow> end_of x \<le> max_end ws"
  by (induction ws) auto

section \<open>Writes that are repeated\<close>

lemma write_again:
  assumes "x \<in> set ws"
  shows "apply_writes ws (write1 x bs) = apply_writes ws bs"
proof (rule bytes_eqI)
  show "length (apply_writes ws (write1 x bs)) = length (apply_writes ws bs)"
    using max_end_member [OF assms] by (simp add: length_writes length_write1)
  show "byte_at (apply_writes ws (write1 x bs)) i = byte_at (apply_writes ws bs) i" for i
  proof (cases "covers x i")
    case True
    show ?thesis by (rule byte_at_writes_covered [OF assms True])
  next
    case False
    show ?thesis by (rule byte_at_writes_cong [OF byte_at_free [OF False]])
  qed
qed

lemma writes_again:
  "set pre \<subseteq> set ws \<Longrightarrow> apply_writes ws (apply_writes pre bs) = apply_writes ws bs"
  by (induction pre arbitrary: bs) (simp_all add: write_again)

text \<open>\<open>stutter ws q\<close>: \<open>q\<close> is \<open>ws\<close> with some of the writes sent several times in a row.\<close>

inductive stutter :: "pending_write list \<Rightarrow> pending_write list \<Rightarrow> bool" where
  none: "stutter [] []"
| sent: "stutter ws q \<Longrightarrow> stutter (ws @ [x]) (q @ [x])"
| again: "stutter (ws @ [x]) q \<Longrightarrow> stutter (ws @ [x]) (q @ [x])"

lemma stutter_set: "stutter ws q \<Longrightarrow> set q = set ws"
  by (induction rule: stutter.induct) auto

lemma stutter_again: "stutter ws q \<Longrightarrow> ws = us @ [x] \<Longrightarrow> stutter ws (q @ [x])"
  by (simp add: stutter.again)

lemma stutter_apply: "stutter ws q \<Longrightarrow> apply_writes q bs = apply_writes ws bs"
proof (induction rule: stutter.induct)
  case (again ws x q)
  then show ?case using write_again [of x "[x]"] by simp
qed simp_all

inductive_simps stutter_Nil [simp]: "stutter [] q"

text \<open>The history of the writes a file got: old ones, then all of them in order\<close>

lemma resent_apply:
  assumes "stutter ws q" and "set pre \<subseteq> set ws"
  shows "apply_writes (pre @ q) bs = apply_writes ws bs"
  using assms by (simp add: stutter_apply writes_again)

section \<open>A write in pieces\<close>

function pieces :: "u64 \<Rightarrow> bytes \<Rightarrow> pending_write list" where
  "pieces off data =
     (if data = [] then []
      else let n = min (length data) MAX_BUF_LEN
           in (off, of_nat n, take n data) # pieces (off + of_nat n) (drop n data))"
  by pat_completeness auto
termination
  by (relation "measure (\<lambda>(off, data). length data)") (auto simp: MAX_BUF_LEN_def)

declare pieces.simps [simp del]

lemma apply_pieces:
  "unat off + length data < 2 ^ 64 \<Longrightarrow> apply_writes (pieces off data) bs = write_at (unat off) data bs"
proof (induction off data arbitrary: bs rule: pieces.induct)
  case (1 off data)
  show ?case
  proof (cases "data = []")
    case True
    then show ?thesis by (simp add: pieces.simps)
  next
    case False
    define n where "n = min (length data) MAX_BUF_LEN"
    have small: "n \<le> length data" "unat (of_nat n :: u64) = n"
      using "1.prems" by (simp_all add: n_def unat_of_nat)
    have off': "unat (off + of_nat n) = unat off + n"
      using "1.prems" small by (subst unat_add_lem [THEN iffD1]) simp_all
    have "apply_writes (pieces off data) bs
        = apply_writes (pieces (off + of_nat n) (drop n data)) (write_at (unat off) (take n data) bs)"
      using False by (simp add: pieces.simps [of off data] n_def [symmetric] Let_def write1_def)
    also have "\<dots> = write_at (unat off + n) (drop n data) (write_at (unat off) (take n data) bs)"
      using "1.IH" [OF False n_def] "1.prems" small by (simp add: off')
    also have "\<dots> = write_at (unat off) data bs"
      using write_at_append [of "unat off" "take n data" "drop n data" bs] small by (simp add: min_absorb2)
    finally show ?thesis .
  qed
qed

end
