(* ===== verification/Fuse.thy ===== *)
theory Fuse
  imports Protocol ServerState "HOL-Library.Signed_Division"
begin

text \<open>
  The FUSE client (\<^verbatim>\<open>client/src/bin/client_fuse.rs\<close>): the retry macros, the helpers for parts of
  reads and writes, the epoch protocol of unstable writes, and the handlers of the
  \<^verbatim>\<open>Filesystem\<close> trait. A handler returns what it gives to its reply object, or the error number.
\<close>

section \<open>State and parameters\<close>

datatype c_int =
    C_ENOENT | C_ENOTEMPTY | C_ENOTDIR | C_EISDIR | C_EEXIST | C_ENAMETOOLONG | C_EIO | C_EAGAIN

text \<open>
  The generated Thrift client, on the state \<open>'w\<close> of the connection and what is behind it; the
  last field is \<^verbatim>\<open>new_client\<close> with the assignment of the new connection when there is one.
\<close>

record 'w rpc =
  rpc_null :: "('w, thrift_error, u64) M"
  rpc_getattr :: "fid \<Rightarrow> ('w, thrift_error, zip_fattr) M"
  rpc_setattr :: "zip_sattr_args \<Rightarrow> ('w, thrift_error, zip_fattr) M"
  rpc_lookup :: "zip_dir_op_args \<Rightarrow> ('w, thrift_error, zip_dir_op_res) M"
  rpc_read :: "zip_read_args \<Rightarrow> ('w, thrift_error, zip_read_res) M"
  rpc_write :: "zip_write_args \<Rightarrow> ('w, thrift_error, zip_write_res) M"
  rpc_create :: "zip_create_args \<Rightarrow> ('w, thrift_error, zip_dir_op_res) M"
  rpc_remove :: "zip_dir_op_args \<Rightarrow> ('w, thrift_error, unit) M"
  rpc_rename :: "zip_rename_args \<Rightarrow> ('w, thrift_error, unit) M"
  rpc_mkdir :: "zip_create_args \<Rightarrow> ('w, thrift_error, zip_dir_op_res) M"
  rpc_rmdir :: "zip_dir_op_args \<Rightarrow> ('w, thrift_error, unit) M"
  rpc_readdir :: "zip_read_dir_args \<Rightarrow> ('w, thrift_error, zip_dir_entry list) M"
  rpc_statfs :: "fid \<Rightarrow> ('w, thrift_error, zip_stat_fs_res) M"
  rpc_commit :: "zip_commit_args \<Rightarrow> ('w, thrift_error, u64) M"
  rpc_new_client :: "'w \<Rightarrow> 'w"

text \<open>\<^verbatim>\<open>ZippyFileSystem\<close>; \<open>fs_slept\<close> records the pauses before retries, in seconds.\<close>

record 'w fuse =
  fs_remote :: 'w
  fs_epoch :: u64
  fs_bufs :: "(fid \<times> pending_write list) list"
  fs_slept :: "nat list"

definition callM :: "('w, thrift_error, 'a) M \<Rightarrow> ('w fuse, thrift_error, 'a) M" where
  "callM m s = (case m (fs_remote s) of (r, w) \<Rightarrow> (r, s\<lparr>fs_remote := w\<rparr>))"

definition sleepM :: "nat \<Rightarrow> ('w fuse, 'e, unit) M" where
  "sleepM n = modifyM (\<lambda>s. s\<lparr>fs_slept := fs_slept s @ [n]\<rparr>)"

section \<open>Errors and retries\<close>

definition MAX_TRIES :: nat where
  "MAX_TRIES = 5"

definition ASYNC_WRITES :: bool where
  "ASYNC_WRITES = True"

fun errno_of :: "zip_error_type \<Rightarrow> c_int" where
  "errno_of NFSERR_STALE = C_ENOENT"
| "errno_of NFSERR_NOENT = C_ENOENT"
| "errno_of NFSERR_NOTEMPTY = C_ENOTEMPTY"
| "errno_of NFSERR_NAMETOOLONG = C_ENAMETOOLONG"
| "errno_of NFSERR_ISDIR = C_EISDIR"
| "errno_of NFSERR_NOTDIR = C_ENOTDIR"
| "errno_of NFSERR_EXIST = C_EEXIST"

text \<open>The macro \<^verbatim>\<open>errors!\<close>: whether to try again, and the error number if not\<close>

fun errors :: "'w rpc \<Rightarrow> zip_error \<Rightarrow> ('w fuse, 'e, bool \<times> c_int option) M" where
  "errors R (ZipNfs t msg) = retM (False, Some (errno_of t))"
| "errors R (ZipTransport te) =
     thenM (modifyM (\<lambda>s. s\<lparr>fs_remote := rpc_new_client R (fs_remote s)\<rparr>)) (retM (True, None))"
| "errors R err = retM (False, Some C_EAGAIN)"

text \<open>
  The macro \<^verbatim>\<open>do_with_retry!\<close>; \<open>n\<close> is \<^verbatim>\<open>MAX_TRIES - tries\<close>, so the loop stops when it is zero.
\<close>

fun retry_loop :: "'w rpc \<Rightarrow> ('w, thrift_error, 'a) M \<Rightarrow> nat \<Rightarrow> nat \<Rightarrow> ('w fuse, c_int, 'a) M" where
  "retry_loop R rpc 0 tries = errM C_EIO"
| "retry_loop R rpc (Suc n) tries =
     bindM (attemptM (callM rpc)) (\<lambda>res.
     case res of
       Inr val \<Rightarrow> retM val
     | Inl e \<Rightarrow>
         bindM (errors R (zip_error_from e)) (\<lambda>(st, le).
         thenM (assertM (st \<or> le \<noteq> None) ''assertion failed: st || le.is_some()'') (
         thenM (assertM (\<not> st \<or> le = None) ''assertion failed: !st || !le.is_some()'') (
         case le of
           Some err \<Rightarrow> errM err
         | None \<Rightarrow> thenM (sleepM (push_bit tries 1)) (retry_loop R rpc n (Suc tries))))))"

definition do_with_retry :: "'w rpc \<Rightarrow> ('w, thrift_error, 'a) M \<Rightarrow> ('w fuse, c_int, 'a) M" where
  "do_with_retry R rpc = retry_loop R rpc MAX_TRIES 0"

section \<open>Times and attributes\<close>

record timespec =
  ts_sec :: u64
  ts_nsec :: u32

definition to_sys_time :: "zip_time_val \<Rightarrow> timespec" where
  "to_sys_time z = \<lparr>ts_sec = tv_seconds z, ts_nsec = ucast (tv_useconds z * 1000)\<rparr>"

definition to_zip_time :: "timespec \<Rightarrow> zip_time_val" where
  "to_zip_time s = \<lparr>tv_seconds = ts_sec s, tv_useconds = word_of_int (sint (ts_nsec s) sdiv 1000)\<rparr>"

definition TTL :: timespec where
  "TTL = \<lparr>ts_sec = 1, ts_nsec = 0\<rparr>"

datatype file_type = RegularFile | Directory | NamedPipe | BlockDevice | CharDevice | Symlink

fun kind_of :: "zip_ftype \<Rightarrow> file_type" where
  "kind_of NFREG = RegularFile"
| "kind_of NFDIR = Directory"
| "kind_of NFNON = NamedPipe"
| "kind_of NFBLK = BlockDevice"
| "kind_of NFCHR = CharDevice"
| "kind_of NFLNK = Symlink"

record file_attr =
  at_ino :: u64
  at_size :: u64
  at_blocks :: u64
  at_atime :: timespec
  at_mtime :: timespec
  at_ctime :: timespec
  at_crtime :: timespec
  at_kind :: file_type
  at_perm :: u16
  at_nlink :: u32
  at_uid :: u32
  at_gid :: u32
  at_rdev :: u32
  at_flags :: u32

definition file_attr_of :: "u32 \<Rightarrow> zip_fattr \<Rightarrow> file_attr" where
  "file_attr_of flags lres =
     (let my_time = to_sys_time (fa_ctime lres)
      in \<lparr>at_ino = fa_fid lres, at_size = fa_size lres, at_blocks = fa_blocks lres,
          at_atime = to_sys_time (fa_atime lres), at_mtime = to_sys_time (fa_mtime lres),
          at_ctime = my_time, at_crtime = my_time, at_kind = kind_of (fa_type lres),
          at_perm = fa_mode lres, at_nlink = ucast (fa_nlink lres), at_uid = ucast (fa_uid lres),
          at_gid = ucast (fa_gid lres), at_rdev = ucast (fa_rdev lres), at_flags = flags\<rparr>)"


section \<open>Reading and writing\<close>

definition read_part ::
  "'w rpc \<Rightarrow> u64 \<Rightarrow> u64 \<Rightarrow> u32 \<Rightarrow> bytes \<Rightarrow> ('w fuse, c_int, nat \<times> bytes) M" where
  "read_part R ino offset sz buf =
     bindM (do_with_retry R (rpc_read R \<lparr>ra_file = ino, ra_offset = offset, ra_count = ucast sz\<rparr>)) (\<lambda>resattr.
     retM (length (rr_data resattr), buf @ rr_data resattr))"

text \<open>
  The loop of \<^verbatim>\<open>read\<close>. It goes on as long as each part brings at least one byte, so \<open>sz\<close>
  rounds and one more are enough fuel.
\<close>

fun read_loop :: "'w rpc \<Rightarrow> nat \<Rightarrow> u64 \<Rightarrow> u64 \<Rightarrow> nat \<Rightarrow> bytes \<Rightarrow> ('w fuse, c_int, bytes) M" where
  "read_loop R 0 ino offset sz buf = hangM"
| "read_loop R (Suc n) ino offset sz buf =
     (if length buf < sz
      then bindM (read_part R ino (offset + of_nat (length buf)) (of_nat (sz - length buf)) buf) (\<lambda>(got, buf).
           if got = 0 then retM buf else read_loop R n ino offset sz buf)
      else retM buf)"

definition fuse_read :: "'w rpc \<Rightarrow> u64 \<Rightarrow> u64 \<Rightarrow> u32 \<Rightarrow> ('w fuse, c_int, bytes) M" where
  "fuse_read R ino offset sz = read_loop R (Suc (unat sz)) ino offset (unat sz) []"

definition write_part ::
  "'w rpc \<Rightarrow> u64 \<Rightarrow> u64 \<Rightarrow> bytes \<Rightarrow> zip_write_stable \<Rightarrow> ('w fuse, c_int, u64) M" where
  "write_part R fid offset data_vec stability =
     (let data_len = min (length data_vec) MAX_BUF_LEN;
          args = \<lparr>wa_file = fid, wa_offset = offset, wa_count = of_nat data_len, wa_data = data_vec, wa_stable = stability\<rparr>
      in bindM (do_with_retry R (rpc_write R args)) (\<lambda>result.
         thenM (assertM (unat (wr_count result) = data_len) ''assertion failed'') (retM (wr_verf result))))"

text \<open>
  The loop of \<^verbatim>\<open>write_async_handle_epochs\<close>. The server may restart without end, so the loop has
  fuel.
\<close>

fun epoch_loop :: "'w rpc \<Rightarrow> nat \<Rightarrow> fid \<Rightarrow> pending_write list \<Rightarrow> nat \<Rightarrow> ('w fuse, c_int, unit) M" where
  "epoch_loop R 0 fid writes pos = hangM"
| "epoch_loop R (Suc n) fid writes pos =
     (if pos < length writes
      then
        let (offset, sz, data) = writes ! pos
        in thenM (assertM (unat sz = length data) ''assertion failed'') (
           bindM (write_part R fid offset data UNSTABLE) (\<lambda>epoch.
           bindM (getsM fs_epoch) (\<lambda>server_epoch.
           thenM (assertM (server_epoch \<le> epoch) ''assertion failed'') (
           if epoch \<noteq> server_epoch
           then thenM (modifyM (\<lambda>s. s\<lparr>fs_epoch := epoch\<rparr>)) (epoch_loop R n fid writes 0)
           else epoch_loop R n fid writes (Suc pos)))))
      else retM ())"

definition write_async_handle_epochs :: "'w rpc \<Rightarrow> nat \<Rightarrow> fid \<Rightarrow> nat \<Rightarrow> ('w fuse, c_int, unit) M" where
  "write_async_handle_epochs R fuel fid pos =
     bindM (getsM (\<lambda>s. map_of (fs_bufs s) fid)) (\<lambda>bufs.
     case bufs of None \<Rightarrow> retM () | Some writes \<Rightarrow> epoch_loop R fuel fid writes pos)"

definition write_async_part ::
  "'w rpc \<Rightarrow> nat \<Rightarrow> fid \<Rightarrow> u64 \<Rightarrow> u64 \<Rightarrow> bytes \<Rightarrow> ('w fuse, c_int, u64) M" where
  "write_async_part R fuel fid offset sz data =
     bindM (getsM (\<lambda>s. map_of (fs_bufs s) fid)) (\<lambda>bufs.
     let old = (case bufs of Some ws \<Rightarrow> ws | None \<Rightarrow> [])
     in thenM (modifyM (\<lambda>s. s\<lparr>fs_bufs := AList.update fid (old @ [(offset, sz, data)]) (fs_bufs s)\<rparr>)) (
        thenM (write_async_handle_epochs R fuel fid (length old)) (
        retM sz)))"

text \<open>The helper \<^verbatim>\<open>commit\<close>: send COMMIT until the epoch in the reply is the expected one\<close>

fun commit_retry :: "'w rpc \<Rightarrow> nat \<Rightarrow> nat \<Rightarrow> fid \<Rightarrow> ('w fuse, c_int, unit) M" where
  "commit_retry R 0 fuel fid = hangM"
| "commit_retry R (Suc n) fuel fid =
     bindM (do_with_retry R (rpc_commit R \<lparr>cm_file = fid, cm_count = 0, cm_offset = 0\<rparr>)) (\<lambda>epoch.
     bindM (getsM fs_epoch) (\<lambda>server_epoch.
     thenM (assertM (server_epoch \<le> epoch) ''assertion failed'') (
     if epoch = server_epoch
     then modifyM (\<lambda>s. s\<lparr>fs_bufs := AList.delete fid (fs_bufs s)\<rparr>)
     else
       thenM (modifyM (\<lambda>s. s\<lparr>fs_epoch := epoch\<rparr>)) (
       thenM (write_async_handle_epochs R fuel fid 0) (
       commit_retry R n fuel fid)))))"

text \<open>The loop of \<^verbatim>\<open>write\<close>, in pieces of at most \<^const>\<open>MAX_BUF_LEN\<close> bytes\<close>

function write_loop :: "'w rpc \<Rightarrow> nat \<Rightarrow> u64 \<Rightarrow> u64 \<Rightarrow> u64 \<Rightarrow> bytes \<Rightarrow> ('w fuse, c_int, unit) M" where
  "write_loop R fuel ino offset sent_bytes data_vec =
     (if data_vec = [] then retM ()
      else
        let to_send_len = min (length data_vec) MAX_BUF_LEN;
            to_send = take to_send_len data_vec
        in thenM (if ASYNC_WRITES
                  then thenM (write_async_part R fuel ino (offset + sent_bytes) (of_nat to_send_len) to_send) (retM ())
                  else thenM (write_part R ino (offset + sent_bytes) to_send FILE_SYNC) (retM ()))
                 (write_loop R fuel ino offset (sent_bytes + of_nat to_send_len) (drop to_send_len data_vec)))"
  by pat_completeness auto
termination
  by (relation "measure (\<lambda>(R, fuel, ino, offset, sent_bytes, data_vec). length data_vec)")
     (auto simp: MAX_BUF_LEN_def)

declare write_loop.simps [simp del]

definition fuse_write :: "'w rpc \<Rightarrow> nat \<Rightarrow> u64 \<Rightarrow> u64 \<Rightarrow> bytes \<Rightarrow> ('w fuse, c_int, u32) M" where
  "fuse_write R fuel ino offset data =
     thenM (write_loop R fuel ino offset 0 data) (retM (of_nat (length data)))"

definition fuse_flush :: "'w rpc \<Rightarrow> nat \<Rightarrow> u64 \<Rightarrow> ('w fuse, c_int, unit) M" where
  "fuse_flush R fuel ino = commit_retry R fuel fuel ino"

definition fuse_fsync :: "'w rpc \<Rightarrow> nat \<Rightarrow> u64 \<Rightarrow> ('w fuse, c_int, unit) M" where
  "fuse_fsync R fuel ino = commit_retry R fuel fuel ino"

section \<open>The other handlers of the file system\<close>

definition fuse_init :: "'w rpc \<Rightarrow> ('w fuse, c_int, unit) M" where
  "fuse_init R =
     bindM (do_with_retry R (rpc_null R)) (\<lambda>epoch.
     modifyM (\<lambda>s. s\<lparr>fs_epoch := epoch\<rparr>))"

text \<open>\<^verbatim>\<open>reply.entry(&TTL, &attr, generation)\<close>\<close>

definition fuse_lookup :: "'w rpc \<Rightarrow> u64 \<Rightarrow> string \<Rightarrow> ('w fuse, c_int, timespec \<times> file_attr \<times> u64) M" where
  "fuse_lookup R parent name =
     bindM (do_with_retry R (rpc_lookup R \<lparr>da_dir = parent, da_filename = name\<rparr>)) (\<lambda>dopres.
     retM (TTL, file_attr_of 0 (dr_attributes dopres), 0))"

definition fuse_getattr :: "'w rpc \<Rightarrow> u64 \<Rightarrow> ('w fuse, c_int, timespec \<times> file_attr) M" where
  "fuse_getattr R ino =
     bindM (do_with_retry R (rpc_getattr R ino)) (\<lambda>resattr. retM (TTL, file_attr_of 0 resattr))"

text \<open>
  \<^verbatim>\<open>reply.add\<close> of the fuse crate says whether the reply is full; then the entry is not in it.
  \<open>fits\<close> is that answer on what was added so far.
\<close>

type_synonym dirent = "u64 \<times> u64 \<times> file_type \<times> string"

fun add_entries :: "(dirent list \<Rightarrow> dirent \<Rightarrow> bool) \<Rightarrow> u64 \<Rightarrow> u64 \<Rightarrow> dirent list \<Rightarrow> zip_dir_entry list \<Rightarrow> dirent list" where
  "add_entries fits offset count added [] = added"
| "add_entries fits offset count added (entry # entries) =
     (let item = (de_fid entry, offset + count, kind_of (de_type entry), de_fname entry)
      in if fits added item then add_entries fits offset (count + 1) (added @ [item]) entries else added)"

definition fuse_readdir ::
  "'w rpc \<Rightarrow> (dirent list \<Rightarrow> dirent \<Rightarrow> bool) \<Rightarrow> u64 \<Rightarrow> u64 \<Rightarrow> ('w fuse, c_int, dirent list) M" where
  "fuse_readdir R fits ino offset =
     bindM (do_with_retry R (rpc_readdir R \<lparr>rd_dir = ino, rd_offset = offset\<rparr>)) (\<lambda>dir_list.
     retM (add_entries fits offset 1 [] dir_list))"

definition fuse_setattr ::
  "'w rpc \<Rightarrow> u64 \<Rightarrow> u32 option \<Rightarrow> u32 option \<Rightarrow> u32 option \<Rightarrow> u64 option \<Rightarrow> timespec option \<Rightarrow> timespec option
    \<Rightarrow> ('w fuse, c_int, timespec \<times> file_attr) M" where
  "fuse_setattr R ino mode uid gid sz atime mtime =
     (let newattrs = \<lparr>sa_mode = map_option ucast mode, sa_uid = map_option ucast uid,
            sa_gid = map_option ucast gid, sa_size = sz,
            sa_atime = map_option to_zip_time atime, sa_mtime = map_option to_zip_time mtime\<rparr>
      in bindM (do_with_retry R (rpc_setattr R \<lparr>ss_file = ino, ss_attributes = newattrs\<rparr>)) (\<lambda>resattr.
         retM (TTL, file_attr_of 0 resattr)))"

text \<open>The attributes that \<^verbatim>\<open>mkdir\<close> and \<^verbatim>\<open>create\<close> send\<close>

definition new_attrs :: "u32 \<Rightarrow> u32 \<Rightarrow> u32 \<Rightarrow> timespec \<Rightarrow> zip_sattr" where
  "new_attrs mode uid gid time_now =
     \<lparr>sa_mode = Some (ucast mode), sa_uid = Some (ucast uid), sa_gid = Some (ucast gid), sa_size = None,
      sa_atime = Some (to_zip_time time_now), sa_mtime = Some (to_zip_time time_now)\<rparr>"

definition fuse_mkdir ::
  "'w rpc \<Rightarrow> timespec \<Rightarrow> u32 \<Rightarrow> u32 \<Rightarrow> u64 \<Rightarrow> string \<Rightarrow> u32 \<Rightarrow> ('w fuse, c_int, timespec \<times> file_attr \<times> u64) M" where
  "fuse_mkdir R time_now uid gid parent name mode =
     (let args = \<lparr>ca_where = \<lparr>da_dir = parent, da_filename = name\<rparr>, ca_attributes = new_attrs mode uid gid time_now\<rparr>
      in bindM (do_with_retry R (rpc_mkdir R args)) (\<lambda>dopres.
         retM (TTL, file_attr_of 0 (dr_attributes dopres), 0)))"

definition fuse_open :: "u64 \<Rightarrow> u32 \<Rightarrow> ('w fuse, c_int, u64 \<times> u32) M" where
  "fuse_open ino flags = retM (ino, flags)"

definition fuse_create ::
  "'w rpc \<Rightarrow> timespec \<Rightarrow> u32 \<Rightarrow> u32 \<Rightarrow> u64 \<Rightarrow> string \<Rightarrow> u32 \<Rightarrow> u32
    \<Rightarrow> ('w fuse, c_int, timespec \<times> file_attr \<times> u64 \<times> u64 \<times> u32) M" where
  "fuse_create R time_now uid gid parent name mode flags =
     (let args = \<lparr>ca_where = \<lparr>da_dir = parent, da_filename = name\<rparr>, ca_attributes = new_attrs mode uid gid time_now\<rparr>
      in bindM (do_with_retry R (rpc_create R args)) (\<lambda>dopres.
         retM (TTL, file_attr_of flags (dr_attributes dopres), 0, dr_file dopres, flags)))"

definition fuse_unlink :: "'w rpc \<Rightarrow> u64 \<Rightarrow> string \<Rightarrow> ('w fuse, c_int, unit) M" where
  "fuse_unlink R parent name = do_with_retry R (rpc_remove R \<lparr>da_dir = parent, da_filename = name\<rparr>)"

definition fuse_rmdir :: "'w rpc \<Rightarrow> u64 \<Rightarrow> string \<Rightarrow> ('w fuse, c_int, unit) M" where
  "fuse_rmdir R parent name = do_with_retry R (rpc_rmdir R \<lparr>da_dir = parent, da_filename = name\<rparr>)"

definition fuse_rename :: "'w rpc \<Rightarrow> u64 \<Rightarrow> string \<Rightarrow> u64 \<Rightarrow> string \<Rightarrow> ('w fuse, c_int, unit) M" where
  "fuse_rename R parent name newparent newname =
     do_with_retry R (rpc_rename R \<lparr>rn_old_loc = \<lparr>da_dir = parent, da_filename = name\<rparr>,
       rn_new_loc = \<lparr>da_dir = newparent, da_filename = newname\<rparr>\<rparr>)"

text \<open>\<^verbatim>\<open>reply.statfs(blocks, bfree, bavail, files, ffree, bsize, namelen, frsize)\<close>\<close>

definition fuse_statfs ::
  "'w rpc \<Rightarrow> u64 \<Rightarrow> ('w fuse, c_int, u64 \<times> u64 \<times> u64 \<times> u64 \<times> u64 \<times> u32 \<times> u32 \<times> u32) M" where
  "fuse_statfs R ino =
     bindM (do_with_retry R (rpc_statfs R ino)) (\<lambda>result.
     retM (sf_blocks result, sf_bfree result, sf_bavail result, 1, 1, ucast (sf_bsize result), 256,
           ucast (sf_tsize result)))"

text \<open>What \<^verbatim>\<open>run\<close> mounts\<close>

definition mounted :: "'w \<Rightarrow> 'w fuse" where
  "mounted conn = \<lparr>fs_remote = conn, fs_epoch = 0, fs_bufs = [], fs_slept = []\<rparr>"

end
