(* ===== verification/Retries.thy ===== *)
theory Retries
  imports Fuse
begin

text \<open>
  What \<^const>\<open>do_with_retry\<close> does with the answers to a request, and the conversions between
  the times and attributes of the two protocols.
\<close>

section \<open>Retries\<close>

text \<open>The state of the connection after \<open>k\<close> requests that ended with a transport error\<close>

fun after_failures :: "'w rpc \<Rightarrow> ('w, thrift_error, 'a) M \<Rightarrow> nat \<Rightarrow> 'w \<Rightarrow> 'w" where
  "after_failures R rpc 0 w = w"
| "after_failures R rpc (Suc k) w = rpc_new_client R (snd (rpc (after_failures R rpc k w)))"

lemma after_failures_Suc:
  "after_failures R rpc (Suc k) w = after_failures R rpc k (rpc_new_client R (snd (rpc w)))"
  by (induction k) simp_all

definition cut_off :: "(thrift_error, 'a) outcome \<Rightarrow> bool" where
  "cut_off r = (case r of Err (ThriftTransport te) \<Rightarrow> True | _ \<Rightarrow> False)"

text \<open>What the application gets for an answer of the server\<close>

fun answer :: "(thrift_error, 'a) outcome \<Rightarrow> (c_int, 'a) outcome" where
  "answer (Ok v) = Ok v"
| "answer (Err e) = Err (case zip_error_from e of ZipNfs t msg \<Rightarrow> errno_of t | _ \<Rightarrow> C_EAGAIN)"
| "answer (Panic p) = Panic p"
| "answer Crash = Crash"
| "answer Hang = Hang"

lemma retry_step:
  assumes "rpc (fs_remote s) = (r, w)"
  shows "retry_loop R rpc (Suc n) tries s =
     (if cut_off r
      then retry_loop R rpc n (Suc tries)
             (s\<lparr>fs_remote := rpc_new_client R w, fs_slept := fs_slept s @ [2 ^ tries]\<rparr>)
      else (answer r, s\<lparr>fs_remote := w\<rparr>))"
proof (cases r)
  case (Err e)
  then show ?thesis
    using assms
    by (cases e) (simp_all add: bindM_apply attemptM_apply callM_def cut_off_def thenM_apply modifyM_apply
        assertM_apply retM_apply errM_apply sleepM_def push_bit_eq_mult)
qed (use assms in \<open>simp_all add: bindM_apply attemptM_apply callM_def cut_off_def retM_apply\<close>)

text \<open>
  The loop with \<open>n\<close> tries left, from the state \<open>s\<close>: \<open>k\<close> requests end with a transport error, each
  followed by a pause twice as long as the one before; then either no try is left, or the next
  answer is the result.
\<close>

definition retried ::
  "'w rpc \<Rightarrow> ('w, thrift_error, 'a) M \<Rightarrow> nat \<Rightarrow> nat \<Rightarrow> 'w fuse \<Rightarrow> nat \<Rightarrow> (c_int, 'a) outcome \<times> 'w fuse \<Rightarrow> bool" where
  "retried R rpc n tries s k res \<longleftrightarrow>
     (let w = after_failures R rpc k (fs_remote s);
          waits = fs_slept s @ map (\<lambda>i. 2 ^ (tries + i)) [0..<k]
      in k \<le> n \<and> (\<forall>i < k. cut_off (fst (rpc (after_failures R rpc i (fs_remote s)))))
       \<and> (if k = n then res = (Err C_EIO, s\<lparr>fs_remote := w, fs_slept := waits\<rparr>)
          else \<not> cut_off (fst (rpc w))
            \<and> res = (answer (fst (rpc w)), s\<lparr>fs_remote := snd (rpc w), fs_slept := waits\<rparr>)))"

lemma retried_Suc:
  assumes rw: "rpc (fs_remote s) = (r, w)" "cut_off r"
    and k: "retried R rpc n (Suc tries)
      (s\<lparr>fs_remote := rpc_new_client R w, fs_slept := fs_slept s @ [2 ^ tries]\<rparr>) k res"
  shows "retried R rpc (Suc n) tries s (Suc k) res"
proof -
  have shift: "after_failures R rpc i (rpc_new_client R w) = after_failures R rpc (Suc i) (fs_remote s)" for i
    using after_failures_Suc [of R rpc i "fs_remote s"] rw by simp
  have waits: "(fs_slept s @ [2 ^ tries]) @ map (\<lambda>i. 2 ^ (Suc tries + i)) [0..<k]
      = fs_slept s @ map (\<lambda>i. 2 ^ (tries + i)) [0..<Suc k]"
    by (simp add: upt_rec [of 0 "Suc k"] map_Suc_upt [symmetric] del: upt_Suc)
  have first: "cut_off (fst (rpc (after_failures R rpc i (fs_remote s))))"
    if "\<forall>i < k. cut_off (fst (rpc (after_failures R rpc (Suc i) (fs_remote s))))" "i < Suc k" for i
    using that rw by (cases i) auto
  let ?s = "s\<lparr>fs_remote := rpc_new_client R w, fs_slept := fs_slept s @ [2 ^ tries]\<rparr>"
  have "fs_remote ?s = rpc_new_client R w" "fs_slept ?s = fs_slept s @ [2 ^ tries]"
    and "?s\<lparr>fs_remote := x, fs_slept := y\<rparr> = s\<lparr>fs_remote := x, fs_slept := y\<rparr>" for x y
    by simp_all
  note facts = this
  note k' = k [unfolded retried_def Let_def facts shift waits]
  show ?thesis
    unfolding retried_def Let_def Suc_le_mono nat.inject
    using conjunct1 [OF k'] first [OF conjunct1 [OF conjunct2 [OF k']]] conjunct2 [OF conjunct2 [OF k']]
    by (intro conjI allI impI) assumption+
qed

lemma retry_loop_spec: "\<exists>k. retried R rpc n tries s k (retry_loop R rpc n tries s)"
proof (induction n arbitrary: tries s)
  case 0
  show ?case by (intro exI [of _ 0]) (simp add: errM_apply retried_def)
next
  case (Suc n)
  obtain r w where rw: "rpc (fs_remote s) = (r, w)" by (cases "rpc (fs_remote s)")
  note step = retry_step [where rpc = rpc and s = s and R = R and n = n and tries = tries, OF rw]
  note later = retried_Suc [where rpc = rpc and s = s and R = R and n = n and tries = tries, OF rw]
  show ?case
  proof (cases "cut_off r")
    case False
    then have "retried R rpc (Suc n) tries s 0 (retry_loop R rpc (Suc n) tries s)"
      unfolding step using rw by (simp add: retried_def)
    then show ?thesis by blast
  next
    case True
    obtain k where "retried R rpc n (Suc tries)
        (s\<lparr>fs_remote := rpc_new_client R w, fs_slept := fs_slept s @ [2 ^ tries]\<rparr>) k
        (retry_loop R rpc n (Suc tries)
          (s\<lparr>fs_remote := rpc_new_client R w, fs_slept := fs_slept s @ [2 ^ tries]\<rparr>))"
      using Suc.IH by blast
    from later [OF True this] show ?thesis
      unfolding step if_P [OF True] by blast
  qed
qed

lemma total_wait: "k \<le> MAX_TRIES \<Longrightarrow> sum_list (map (\<lambda>i. 2 ^ i) [0..<k]) < (32 :: nat)"
proof -
  assume "k \<le> MAX_TRIES"
  then have "sum_list (map (\<lambda>i. 2 ^ i) [0..<k]) = (2 ^ k :: nat) - 1"
    by (induction k) simp_all
  moreover have "(2 :: nat) ^ k \<le> 2 ^ 5" using \<open>k \<le> MAX_TRIES\<close> by (intro power_increasing) (simp_all add: MAX_TRIES_def)
  ultimately show ?thesis by simp
qed

text \<open>
  A rule for requests that may be sent several times: \<open>P i\<close> holds after \<open>i\<close> attempts, all of which
  ended with a transport error, and an attempt that succeeds gives \<open>Q\<close>.
\<close>

definition same_client :: "'w fuse \<Rightarrow> 'w fuse \<Rightarrow> bool" where
  "same_client s s' \<longleftrightarrow> fs_epoch s' = fs_epoch s \<and> fs_bufs s' = fs_bufs s"

lemma same_client_refl [simp]: "same_client s s"
  by (simp add: same_client_def)

lemma same_client_update [simp]:
  "same_client s (s'\<lparr>fs_remote := w\<rparr>) = same_client s s'"
  "same_client s (s'\<lparr>fs_slept := t\<rparr>) = same_client s s'"
  by (simp_all add: same_client_def)

lemma same_client_trans: "same_client a b \<Longrightarrow> same_client b c \<Longrightarrow> same_client a c"
  by (simp add: same_client_def)

fun answers :: "('a \<Rightarrow> bool) \<Rightarrow> bool \<Rightarrow> ('e, 'a) outcome \<Rightarrow> bool" where
  "answers Q P (Ok v) = Q v"
| "answers Q P (Err e) = P"
| "answers Q P (Panic p) = False"
| "answers Q P Crash = False"
| "answers Q P Hang = False"

lemma answers_mono: "answers Q P r \<Longrightarrow> (\<And>v. Q v \<Longrightarrow> Q' v) \<Longrightarrow> (P \<Longrightarrow> P') \<Longrightarrow> answers Q' P' r"
  by (cases r) auto

lemma answers_cases:
  assumes "answers Q P r"
  obtains (Ok) v where "r = Ok v" "Q v" | (Err) e where "r = Err e" "P"
  using assms by (cases r) auto

lemma retry_loop_rule:
  assumes step: "\<And>i w. P i w \<Longrightarrow> answers (\<lambda>v. Q v (snd (rpc w))) (P (Suc i) (snd (rpc w))) (fst (rpc w))"
    and cut: "\<And>i w e. P i w \<Longrightarrow> fst (rpc w) = Err e \<Longrightarrow> cut_off (fst (rpc w))"
    and new: "\<And>i w. P i w \<Longrightarrow> P i (rpc_new_client R w)"
  shows "P i (fs_remote s) \<Longrightarrow> retry_loop R rpc n tries s = (r, s') \<Longrightarrow>
    same_client s s' \<and> answers (\<lambda>v. Q v (fs_remote s')) (P (i + n) (fs_remote s')) r"
proof (induction n arbitrary: i tries s)
  case 0
  then show ?case by (auto simp: errM_apply)
next
  case (Suc n)
  obtain r1 w where rw: "rpc (fs_remote s) = (r1, w)" by (cases "rpc (fs_remote s)")
  have first: "answers (\<lambda>v. Q v w) (P (Suc i) w) r1" using step [OF Suc.prems(1)] rw by simp
  note run = retry_step [where rpc = rpc and s = s and R = R and n = n and tries = tries, OF rw]
  show ?case
  proof (cases "cut_off r1")
    case True
    then have "P (Suc i) (rpc_new_client R w)" using first new by (cases r1) (simp_all add: cut_off_def)
    then show ?thesis
      using Suc.IH [of "Suc i" "s\<lparr>fs_remote := rpc_new_client R w, fs_slept := fs_slept s @ [2 ^ tries]\<rparr>" "Suc tries"]
        Suc.prems(2) run True by (simp add: same_client_def)
  next
    case False
    then have "r1 \<noteq> Err e" for e using cut [OF Suc.prems(1)] rw by auto
    then show ?thesis using run Suc.prems(2) first False by (cases r1) (auto simp: same_client_def)
  qed
qed

lemma do_with_retry_rule:
  assumes "\<And>i w. P i w \<Longrightarrow> answers (\<lambda>v. Q v (snd (rpc w))) (P (Suc i) (snd (rpc w))) (fst (rpc w))"
    and "\<And>i w e. P i w \<Longrightarrow> fst (rpc w) = Err e \<Longrightarrow> cut_off (fst (rpc w))"
    and "\<And>i w. P i w \<Longrightarrow> P i (rpc_new_client R w)"
    and "P 0 (fs_remote s)" and "do_with_retry R rpc s = (r, s')"
  shows "same_client s s'" and "answers (\<lambda>v. Q v (fs_remote s')) (P MAX_TRIES (fs_remote s')) r"
proof -
  have "same_client s s' \<and> answers (\<lambda>v. Q v (fs_remote s')) (P (0 + MAX_TRIES) (fs_remote s')) r"
  proof (rule retry_loop_rule)
    show "retry_loop R rpc MAX_TRIES 0 s = (r, s')" using assms(5) by (simp add: do_with_retry_def)
  qed (erule assms(1) assms(2) assms(3) | rule assms(4) | assumption)+
  then show "same_client s s'" and "answers (\<lambda>v. Q v (fs_remote s')) (P MAX_TRIES (fs_remote s')) r" by simp_all
qed

section \<open>Times\<close>

text \<open>A time of the server survives the way to FUSE and back.\<close>

lemma fuse_time:
  assumes "unat (tv_useconds t) < 1000000"
  shows "to_zip_time (to_sys_time t) = t"
proof -
  define u where "u = unat (tv_useconds t)"
  have u: "tv_useconds t = of_nat u" "u < 1000000" using assms by (simp_all add: u_def)
  have "take_bit 64 (u * 1000) = u * 1000" using u(2) by (simp add: take_bit_nat_eq_self)
  moreover have "tv_useconds t * 1000 = of_nat (u * 1000)" by (simp add: u(1))
  ultimately have "ucast (tv_useconds t * 1000) = (of_nat (u * 1000) :: u32)"
    by (simp only: unsigned_of_nat) simp
  moreover have "sint (of_nat (u * 1000) :: u32) = int (u * 1000)"
    using u(2) by (simp only: signed_of_nat) (simp add: signed_take_bit_int_eq_self)
  moreover have "int (u * 1000) sdiv 1000 = int u"
    by (cases "u = 0") (simp_all add: signed_divide_int_def sgn_mult)
  ultimately show ?thesis
    by (simp add: to_zip_time_def to_sys_time_def u(1))
qed

end
