(* ===== verification/Epochs.thy ===== *)
theory Epochs
  imports Overwrite Retries
begin

text \<open>
  The epoch protocol of unstable writes, from the client's side. A server holds the content of
  a file, the writes that are pending for it, and an epoch that grows when the server
  restarts; a restart forgets what is pending. The locale states what the client relies on,
  for one file, and its lemmas show that a session of writes that all succeed, followed by a
  flush that succeeds, leaves the file with every write in place.
\<close>

section \<open>What a client can know of the server\<close>

text \<open>
  \<open>sv_left\<close> is how many restarts are still to come, \<open>sv_losses\<close> how many requests or replies
  will still be lost.
\<close>

record srv =
  sv_content :: bytes
  sv_pend :: "pending_write list"
  sv_epoch :: u64
  sv_left :: nat
  sv_losses :: nat

definition restarts :: "srv \<Rightarrow> srv \<Rightarrow> bool" where
  "restarts a b \<longleftrightarrow> sv_content b = sv_content a \<and> sv_losses b \<le> sv_losses a \<and>
     (sv_pend b = sv_pend a \<and> sv_epoch b = sv_epoch a \<and> sv_left b \<le> sv_left a
      \<or> sv_pend b = [] \<and> sv_epoch a < sv_epoch b \<and> sv_left b < sv_left a)"

definition got :: "pending_write \<Rightarrow> srv \<Rightarrow> srv" where
  "got x a = a\<lparr>sv_pend := sv_pend a @ [x]\<rparr>"

definition committed :: "srv \<Rightarrow> srv" where
  "committed a = a\<lparr>sv_content := apply_writes (sv_pend a) (sv_content a), sv_pend := []\<rparr>"

text \<open>
  A request that was carried out at epoch \<open>e\<close>, between restarts; and one that ended with an
  error, of which the client does not know whether it was.
\<close>

definition request_done :: "(srv \<Rightarrow> srv) \<Rightarrow> u64 \<Rightarrow> srv \<Rightarrow> srv \<Rightarrow> bool" where
  "request_done g e a b \<longleftrightarrow> (\<exists>m. restarts a m \<and> e = sv_epoch m \<and> restarts (g m) b)"

definition request_lost :: "(srv \<Rightarrow> srv) \<Rightarrow> srv \<Rightarrow> srv \<Rightarrow> bool" where
  "request_lost g a b \<longleftrightarrow> sv_losses b < sv_losses a \<and> (restarts a b \<or> (\<exists>e. request_done g e a b))"

lemma restarts_refl [simp]: "restarts a a"
  by (simp add: restarts_def)

lemma restarts_trans: "restarts a b \<Longrightarrow> restarts b c \<Longrightarrow> restarts a c"
  by (auto simp: restarts_def)

lemma request_done_after: "restarts a b \<Longrightarrow> request_done g e b c \<Longrightarrow> request_done g e a c"
  unfolding request_done_def using restarts_trans by blast

lemma request_lost_after: "restarts a b \<Longrightarrow> request_lost g b c \<Longrightarrow> request_lost g a c"
  unfolding request_lost_def using restarts_trans request_done_after
  by (metis (no_types, lifting) order_less_le_trans restarts_def)

lemma got_simps [simp]:
  "sv_content (got x a) = sv_content a" "sv_pend (got x a) = sv_pend a @ [x]"
  "sv_epoch (got x a) = sv_epoch a" "sv_left (got x a) = sv_left a" "sv_losses (got x a) = sv_losses a"
  by (simp_all add: got_def)

lemma committed_simps [simp]:
  "sv_content (committed a) = apply_writes (sv_pend a) (sv_content a)" "sv_pend (committed a) = []"
  "sv_epoch (committed a) = sv_epoch a" "sv_left (committed a) = sv_left a" "sv_losses (committed a) = sv_losses a"
  by (simp_all add: committed_def)

section \<open>The invariant\<close>

text \<open>
  The client has the writes \<open>ws\<close> in its buffer, of which the server has acknowledged \<open>us\<close> at
  the epoch \<open>e\<close> that the client knows. Whatever the server did to the file came from \<open>ws\<close>; and
  unless it has restarted since, the last it got is \<open>us\<close>, in order and with repetitions.
\<close>

definition ends_with :: "pending_write list \<Rightarrow> pending_write list \<Rightarrow> bool" where
  "ends_with us l \<longleftrightarrow> (\<exists>pre q. l = pre @ q \<and> stutter us q)"

lemma ends_with_Nil [simp]: "ends_with [] l"
  unfolding ends_with_def using stutter.none by (metis append_Nil2)

lemma ends_with_sent: "ends_with us l \<Longrightarrow> ends_with (us @ [x]) (l @ [x])"
  unfolding ends_with_def using stutter.sent by (metis append.assoc)

lemma ends_with_again: "ends_with (us @ [x]) l \<Longrightarrow> ends_with (us @ [x]) (l @ [x])"
  unfolding ends_with_def using stutter.again by (metis append.assoc)

lemma ends_with_apply:
  assumes "ends_with ws l" "set l \<subseteq> set ws"
  shows "apply_writes l base = apply_writes ws base"
  using assms resent_apply unfolding ends_with_def by (metis le_sup_iff set_append)

definition history :: "bytes \<Rightarrow> pending_write list \<Rightarrow> pending_write list \<Rightarrow> u64 \<Rightarrow> srv \<Rightarrow> bool" where
  "history base ws us e a \<longleftrightarrow> e \<le> sv_epoch a \<and>
     (\<exists>p. sv_content a = apply_writes p base \<and> set (p @ sv_pend a) \<subseteq> set ws \<and>
       (sv_epoch a = e \<longrightarrow> ends_with us (p @ sv_pend a)))"

text \<open>How often the client can still find a new epoch\<close>

definition surprises :: "u64 \<Rightarrow> srv \<Rightarrow> nat" where
  "surprises e a = sv_left a + (if sv_epoch a = e then 0 else 1)"

lemma history_epoch: "history base ws us e a \<Longrightarrow> e \<le> sv_epoch a"
  by (simp add: history_def)

lemma history_mono: "history base ws us e a \<Longrightarrow> set ws \<subseteq> set ws' \<Longrightarrow> history base ws' us e a"
  unfolding history_def by blast

lemma history_cases:
  assumes "history base ws us e a"
  obtains p where "e \<le> sv_epoch a" "sv_content a = apply_writes p base" "set (p @ sv_pend a) \<subseteq> set ws"
    "sv_epoch a = e \<longrightarrow> ends_with us (p @ sv_pend a)"
  using assms unfolding history_def by blast

lemma history_restarts:
  assumes h: "history base ws us e a" and r: "restarts a b"
  shows "history base ws us e b"
proof -
  obtain p where "e \<le> sv_epoch a" "sv_content a = apply_writes p base" "set (p @ sv_pend a) \<subseteq> set ws"
    "sv_epoch a = e \<longrightarrow> ends_with us (p @ sv_pend a)"
    using h by (rule history_cases)
  then show ?thesis using r unfolding history_def restarts_def by (intro conjI exI [of _ p]) auto
qed

lemma history_step:
  assumes h: "history base ws us e a" and x: "x \<in> set ws"
    and s: "\<And>l. ends_with us l \<Longrightarrow> ends_with us' (l @ [x])"
  shows "history base ws us' e (got x a)"
proof -
  obtain p where "e \<le> sv_epoch a" "sv_content a = apply_writes p base" "set (p @ sv_pend a) \<subseteq> set ws"
    "sv_epoch a = e \<longrightarrow> ends_with us (p @ sv_pend a)"
    using h by (rule history_cases)
  then show ?thesis using x s [of "p @ sv_pend a"] unfolding history_def by (intro conjI exI [of _ p]) auto
qed

lemmas history_got = history_step [OF _ _ ends_with_sent]
lemmas history_got_again = history_step [OF _ _ ends_with_again]

lemma history_committed:
  assumes "history base ws us e a"
  shows "history base ws us e (committed a)"
proof -
  obtain p where "e \<le> sv_epoch a" "sv_content a = apply_writes p base" "set (p @ sv_pend a) \<subseteq> set ws"
    "sv_epoch a = e \<longrightarrow> ends_with us (p @ sv_pend a)"
    using assms by (rule history_cases)
  then show ?thesis unfolding history_def by (intro conjI exI [of _ "p @ sv_pend a"]) simp_all
qed

text \<open>Starting again at a new epoch\<close>

lemma history_anew:
  assumes "history base ws us e a" "e' \<le> sv_epoch a"
  shows "history base ws [] e' a"
  using assms unfolding history_def by auto

text \<open>A commit at the known epoch, once everything is acknowledged\<close>

lemma history_commit_all:
  assumes h: "history base ws ws e a" and e: "sv_epoch a = e"
  shows "sv_content (committed a) = apply_writes ws base"
proof -
  obtain p where p: "e \<le> sv_epoch a" "sv_content a = apply_writes p base" "set (p @ sv_pend a) \<subseteq> set ws"
    "sv_epoch a = e \<longrightarrow> ends_with ws (p @ sv_pend a)"
    using h by (rule history_cases)
  show ?thesis using ends_with_apply [OF p(4) [rule_format, OF e] p(3), of base] p(2) by simp
qed

section \<open>Surprises\<close>

lemma surprises_restarts: "restarts a b \<Longrightarrow> e \<le> sv_epoch a \<Longrightarrow> surprises e b \<le> surprises e a"
  by (auto simp: restarts_def surprises_def)

lemma surprises_same [simp]: "surprises e (got x a) = surprises e a" "surprises e (committed a) = surprises e a"
  by (simp_all add: surprises_def)

lemma surprises_new: "restarts m b \<Longrightarrow> sv_epoch m \<noteq> e \<Longrightarrow> surprises (sv_epoch m) b < surprises e m"
  by (auto simp: restarts_def surprises_def)

end
