(* ===== verification/AtomicRename.thy ===== *)
theory AtomicRename
  imports Atomic
begin

text \<open>
  Atomicity of RENAME. The steps are: create the new named file, move the numbered file,
  remove the old named file. A rename to another directory is atomic for a client; a rename
  within a directory shows both names between the first and the last step.
\<close>

section \<open>Renaming a file\<close>

text \<open>
  What a client sees once the new named file is there, and once the move is done. In
  between the two, a rename within a directory shows both names; a rename to another
  directory shows nothing of the new named file.
\<close>

definition rename_mid :: "disk \<Rightarrow> path \<Rightarrow> fid \<Rightarrow> string \<Rightarrow> fid \<Rightarrow> nfs_file option" where
  "rename_mid d od f new = (view d)(f \<mapsto> (file_at d (od @ [show_u64 f]))
     \<lparr>nf_names := insert new (names_at d od (show_u64 f))\<rparr>)"

definition rename_done :: "disk \<Rightarrow> path \<Rightarrow> path \<Rightarrow> fid \<Rightarrow> string \<Rightarrow> string \<Rightarrow> fid \<Rightarrow> nfs_file option" where
  "rename_done d od nd f old new =
     (if od = nd
      then (view d)(f \<mapsto> (file_at d (od @ [show_u64 f]))
             \<lparr>nf_names := insert new (names_at d od (show_u64 f) - {old})\<rparr>)
      else (view d)(f \<mapsto> (file_at d (od @ [show_u64 f]))
             \<lparr>nf_parent := last nd, nf_names := insert new (names_at d nd (show_u64 f))\<rparr>))"

text \<open>First step: the new named file\<close>

definition name_added :: "disk \<Rightarrow> path \<Rightarrow> fid \<Rightarrow> string \<Rightarrow> disk \<Rightarrow> bool" where
  "name_added d nd f new d1 \<longleftrightarrow> (\<exists>st. d1 = add_named nd f new (RegFile st []) d) \<and> is_dir_at d nd
     \<and> \<not> is_dir_at d (nd @ [show_u64 f @ CHR ''.'' # new])"

lemma file_create_adds:
  assumes "wf_store d" "k_create now (nd @ [show_u64 f @ ''.'' @ new]) d = Inr (u, d1)"
  shows "name_added d nd f new d1"
proof (cases "map_of d (nd @ [show_u64 f @ CHR ''.'' # new])")
  case None
  then show ?thesis
    using assms k_new_map [of "RegFile (fresh_stamps now) []" "nd @ [show_u64 f @ CHR ''.'' # new]" d u d1]
    by (auto simp: k_create_def name_added_def add_named_def is_dir_at_iff)
next
  case (Some ob)
  then have "is_dir_at d nd" using assms(1) wf_disk_parent [of d nd "show_u64 f @ CHR ''.'' # new"] by (simp add: wf_store_def)
  then show ?thesis
    using assms(2) Some by (cases ob) (auto simp: k_create_def name_added_def add_named_def is_dir_at_iff)
qed

lemma name_added_ok:
  assumes wf: "wf_store d" and below: "fids_below n d" "unat f < n" and nd: "vpath d nd"
    and add: "name_added d nd f new d1"
  shows "wf_store d1" "fids_below n d1"
    "names_at d1 nd (show_u64 f) = insert new (names_at d nd (show_u64 f))"
    "\<And>p. is_numbered (last p) \<Longrightarrow> map_of d1 p = map_of d p"
    "agree_off {nd @ [show_u64 f @ CHR ''.'' # new]} d d1"
proof -
  obtain st where d1: "d1 = add_named nd f new (RegFile st []) d" and dir: "is_dir_at d nd"
      and no: "\<not> is_dir_at d (nd @ [show_u64 f @ CHR ''.'' # new])"
    using add by (auto simp: name_added_def)
  have ur: "under_root nd" using nd by (rule vpath_under_root)
  show "wf_store d1" "fids_below n d1"
    unfolding d1 by (rule add_named_ok [OF wf ur dir refl no below])+
  show "names_at d1 nd (show_u64 f) = insert new (names_at d nd (show_u64 f))"
    by (auto simp: set_eq_iff in_names_at d1 add_named_def)
  show ag: "agree_off {nd @ [show_u64 f @ CHR ''.'' # new]} d d1"
    by (simp add: d1 add_named_def agree_off_update)
  fix p assume "is_numbered (last p)"
  then have "p \<noteq> nd @ [show_u64 f @ CHR ''.'' # new]" by auto
  then show "map_of d1 p = map_of d p" using ag by (simp add: agree_off_def)
qed

lemma fids_below_vchild:
  assumes "fids_below n d" "vpath d p" "vchild d p (show_u64 f)"
  shows "unat f < n"
proof -
  have "exists_at d (p @ [show_u64 f])" "under_root (p @ [show_u64 f])"
    using assms(2,3) by (auto simp: vchild_iff exists_at_def under_root_def dest: vpath_under_root)
  then show ?thesis using assms(1) unfolding fids_below_iff by fastforce
qed

lemma other_dir_absent:
  assumes wf: "wf_store d" and od: "vpath d od" and nd: "vpath d nd" and vis: "vchild d od (show_u64 f)"
    and ne: "od \<noteq> nd"
  shows "map_of d (nd @ [show_u64 f]) = None"
proof (rule ccontr)
  assume "map_of d (nd @ [show_u64 f]) \<noteq> None"
  then have "nd @ [show_u64 f] = od @ [show_u64 f]"
    using wf vis od nd
    by (intro fids_uniqueD [of d]) (auto simp: wf_store_def vchild_iff under_root_def dest: vpath_under_root)
  with ne show False by simp
qed

lemma vchild_vpath_agree:
  assumes ag: "agree_off {nd @ [show_u64 f @ CHR ''.'' # nm]} d d1"
    and vis: "vchild d nd (show_u64 f)" and vis1: "names_at d1 nd (show_u64 f) \<noteq> {}"
  shows "vchild d1 r c = vchild d r c"
proof (cases "is_numbered c")
  case num: True
  have eq: "map_of d1 (r @ [c]) = map_of d (r @ [c])"
  proof -
    have "r @ [c] \<noteq> nd @ [show_u64 f @ CHR ''.'' # nm]" using num by auto
    then show ?thesis using ag by (simp add: agree_off_def)
  qed
  show ?thesis
  proof (cases "r = nd \<and> c = show_u64 f")
    case True
    then show ?thesis using vis vis1 eq by (auto simp: vchild_names)
  next
    case False
    have "names_at d1 r c = names_at d r c"
    proof (rule names_at_agree [OF ag], rule notI)
      fix k assume "nd @ [show_u64 f @ CHR ''.'' # nm] = r @ [c @ CHR ''.'' # k]"
      then show False using False named_key(1) [of f nm c k] num by simp
    qed
    then show ?thesis using eq by (simp add: vchild_names)
  qed
qed (simp add: vchild_iff)

text \<open>The view after the first step\<close>

lemma name_added_view:
  assumes wf: "wf_store d" and below: "fids_below n d" and od: "vpath d od" and nd: "vpath d nd"
    and vis: "vchild d od (show_u64 f)" and add: "name_added d nd f new d1"
  shows "view d1 = (if od = nd then rename_mid d od f new else view d)"
    and "vpath d1 p = vpath d p" and "vchild d1 od (show_u64 f)"
proof -
  note ok = name_added_ok [OF wf below fids_below_vchild [OF below od vis] nd add]
  have ne: "nd \<noteq> []" using nd by auto
  have both: "view d1 = (if od = nd then rename_mid d od f new else view d) \<and> (\<forall>p. vpath d1 p = vpath d p)
      \<and> vchild d1 od (show_u64 f)"
  proof (cases "od = nd")
    case True
    have vc: "vchild d1 r c = vchild d r c" for r c
      using vchild_vpath_agree [OF ok(5)] vis True ok(3) by simp
    have "vpath d1 p = vpath d p" for p
      using ok(4) [of "[''1'']"] vc is_numbered_show [of 1] by (intro vpath_cong) simp_all
    then show ?thesis
      using names_view [OF wf ok(1) ok(5) nd] vis vc True ok(3) by (simp add: rename_mid_def)
  next
    case False
    have hid: "hidden d (nd @ [show_u64 f @ CHR ''.'' # new])"
      by (rule absent_hidden [OF other_dir_absent [OF wf od nd vis False] ne])
    have "under_root od" using od by (rule vpath_under_root)
    then show ?thesis
      using hidden_view [OF wf ok(1) ok(5) hid] hidden_vpath [OF ok(5) hid]
        hidden_vchild [OF ok(5) hid] vis False by simp
  qed
  then show "view d1 = (if od = nd then rename_mid d od f new else view d)"
    and "vpath d1 p = vpath d p" and "vchild d1 od (show_u64 f)" by blast+
qed

text \<open>Second step: the move of the numbered file\<close>

lemma rename_moves:
  assumes wf: "wf_store d" and below: "fids_below n d" and od: "vpath d od" and nd: "vpath d nd"
    and vis: "vchild d od (show_u64 f)" and ne: "od \<noteq> nd" and add: "name_added d nd f new d1"
    and run: "k_rename (od @ [show_u64 f]) (nd @ [show_u64 f]) d1 = Inr (u, d2)"
  shows "wf_store d2" "fids_below n d2" "view d2 = rename_done d od nd f old new"
    "map_of d2 (od @ [show_u64 f]) = None"
    "map_of d2 (od @ [show_u64 f @ CHR ''.'' # nm]) = map_of d (od @ [show_u64 f @ CHR ''.'' # nm])"
proof -
  let ?a = "od @ [show_u64 f]" and ?b = "nd @ [show_u64 f]"
  note ok = name_added_ok [OF wf below fids_below_vchild [OF below od vis] nd add]
  note v1 = name_added_view [OF wf below od nd vis add]
  have ur: "under_root od" "under_root nd" "od \<noteq> []" "nd \<noteq> []"
    using od nd by (auto dest: vpath_under_root)
  have wf1: "wf_disk d1" using ok(1) by (simp add: wf_store_def)
  have ab: "?a \<noteq> ?b" using ne by simp
  have mv: "moved ?a ?b d1 d2"
    unfolding moved_def using k_rename_lookup [OF wf1 run ab] by blast
  have nab: "\<not> prefix ?a nd"
    using k_rename_map [OF run] ab by (auto simp: prefix_def)
  have m: "moves_to od nd f d1 d2"
    unfolding moves_to_def using ok(1,3) v1(2,3) od nd ne nab mv by auto
  have wf2: "wf_store d2" and below2: "fids_below n d2"
    using move_wf_store [OF ok(1) wf_disk_rename [OF wf1 run] mv] ur ok(2)
    by (simp_all add: under_root_def)
  then show "wf_store d2" "fids_below n d2" by simp_all
  have "file_at d1 ?a = file_at d ?a"
    using ok(5) ne named_key(1) [of f new "show_u64 f"] by (intro file_at_agree [OF ok(5)]) auto
  then show "view d2 = rename_done d od nd f old new"
    using move_view [OF m wf2] v1(1) ok(3) ne by (simp add: rename_done_def)
  show "map_of d2 ?a = None"
    using moved_cases(2) [OF mv] move_incomparable [OF m] by simp
  have "map_of d2 (od @ [show_u64 f @ CHR ''.'' # nm]) = map_of d1 (od @ [show_u64 f @ CHR ''.'' # nm])"
    using move_nb(1) [OF m]
    by (intro moved_cases(3) [OF mv]) (simp_all only: numbered_prefix_named is_numbered_show, simp_all)
  then show "map_of d2 (od @ [show_u64 f @ CHR ''.'' # nm]) = map_of d (od @ [show_u64 f @ CHR ''.'' # nm])"
    using ok(5) ne by (simp add: agree_off_def)
qed

text \<open>Last step: the removal of the old named file\<close>

lemma rename_cleans:
  assumes wf: "wf_store d" and below: "fids_below n d" and od: "vpath d od" and nd: "vpath d nd"
    and vis: "vchild d od (show_u64 f)" and add: "name_added d nd f new d1" and on: "od = nd \<Longrightarrow> old \<noteq> new"
    and run: "k_rename (od @ [show_u64 f]) (nd @ [show_u64 f]) d1 = Inr (u, d2)"
    and rm: "k_unlink (od @ [show_u64 f @ CHR ''.'' # old]) d2 = Inr (v, d3)"
  shows "wf_store d3" "fids_below n d3" "view d3 = rename_done d od nd f old new"
proof -
  note m = k_unlink_map [OF rm]
  have ur: "under_root od" "od \<noteq> []" using od by (auto dest: vpath_under_root)
  note ok1 = name_added_ok [OF wf below fids_below_vchild [OF below od vis] nd add]
  note v1 = name_added_view [OF wf below od nd vis add]
  have d3: "d3 = AList.delete (od @ [show_u64 f @ CHR ''.'' # old]) d2" using m by simp
  have "wf_store d3 \<and> fids_below n d3 \<and> view d3 = rename_done d od nd f old new"
  proof (cases "od = nd")
    case False
    note ok = rename_moves [OF wf below od nd vis False add run]
    have "hidden d2 (od @ [show_u64 f @ CHR ''.'' # old])" by (rule absent_hidden [OF ok(4) ur(2)])
    then show ?thesis
      using delete_hidden_ok [OF ok(1,2) _ ur(1)] m ok(3) by (simp add: d3)
  next
    case True
    then have d2: "d2 = d1" using k_rename_map [OF run] by simp
    let ?q = "od @ [show_u64 f @ CHR ''.'' # old]"
    have leaf: "map_of d1 (?q @ [c]) = None" for c
      using file_is_leaf [of d1 ?q c] m ok1(1) d2 by (simp add: wf_store_def)
    have ok3: "wf_store d3" "fids_below n d3"
      unfolding d3 d2 using ur leaf by (auto intro!: delete_ok [OF ok1(1,2)])
    have names3: "names_at d3 od (show_u64 f) = insert new (names_at d od (show_u64 f) - {old})"
      using ok1(3) on True by (auto simp: set_eq_iff in_names_at d3 d2)
    have num3: "map_of d3 (od @ [show_u64 f]) = map_of d1 (od @ [show_u64 f])" by (simp add: d3 d2)
    have vis3: "vchild d3 od (show_u64 f)"
      using v1(3) names3 num3 by (auto simp: vchild_names)
    have ag: "agree_off {?q} d1 d3" by (simp add: d3 d2 agree_off_delete)
    have "vpath d1 od" using v1(2) od by simp
    from names_view [OF ok1(1) ok3(1) ag this v1(3) vis3]
    have "view d3 = (view d1)(f \<mapsto> (file_at d1 (od @ [show_u64 f]))
        \<lparr>nf_names := insert new (names_at d od (show_u64 f) - {old})\<rparr>)"
      by (simp add: names3)
    moreover have "map_of d1 (od @ [show_u64 f]) = map_of d (od @ [show_u64 f])"
      using ok1(4) by simp
    ultimately show ?thesis
      using ok3 v1(1) True ur by (simp add: rename_mid_def rename_done_def file_at_def)
  qed
  then show "wf_store d3" "fids_below n d3" "view d3 = rename_done d od nd f old new" by blast+
qed

text \<open>Everything after the request owns the new name\<close>

definition rename_states :: "disk \<Rightarrow> path \<Rightarrow> path \<Rightarrow> fid \<Rightarrow> string \<Rightarrow> string \<Rightarrow> disk \<Rightarrow> bool" where
  "rename_states d od nd f old new d' \<longleftrightarrow> view d' = view d
     \<or> (od = nd \<and> view d' = rename_mid d od f new)
     \<or> view d' = rename_done d od nd f old new"

lemma rename_move_survives:
  assumes ok: "durable_ok d c" and od: "vpath d od" and nd: "vpath d nd"
    and vis: "vchild d od (show_u64 f)"
    and names: "old = da_filename (rn_old_loc a)" "new = da_filename (rn_new_loc a)"
    and on: "od = nd \<Longrightarrow> old \<noteq> new"
  shows "chl d c (rename_move a od nd f)
    (\<lambda>_ d' c'. durable_ok d' c' \<and> view d' = rename_done d od nd f old new)
    (\<lambda>d' c'. durable_ok d' c' \<and> rename_states d od nd f old new d')" (is "chl _ _ _ ?Q ?C")
proof -
  have wf: "wf_store d" and below: "fids_below (unat (ctr_disk c)) d" "fids_below (unat (ctr_mem c)) d"
    using ok by (simp_all add: durable_ok_def)
  have C0: "?C d c" using ok by (simp add: rename_states_def)
  have C1: "?C d1 c" if "name_added d nd f new d1" for d1
    using name_added_ok(1,2) [OF wf below(1) fids_below_vchild [OF below(1) od vis] nd that]
      name_added_ok(2) [OF wf below(2) fids_below_vchild [OF below(2) od vis] nd that]
      name_added_view(1) [OF wf below(1) od nd vis that]
    by (auto simp: durable_ok_def rename_states_def)
  define mvd where "mvd d2 \<longleftrightarrow> (\<exists>d1 u. name_added d nd f new d1
     \<and> k_rename (od @ [show_u64 f]) (nd @ [show_u64 f]) d1 = Inr (u, d2))" for d2
  have C2: "?C d2 c" if mv: "mvd d2" for d2
  proof -
    obtain d1 u where d1: "name_added d nd f new d1"
        "k_rename (od @ [show_u64 f]) (nd @ [show_u64 f]) d1 = Inr (u, d2)"
      using mv by (auto simp: mvd_def)
    show ?thesis
    proof (cases "od = nd")
      case True
      then show ?thesis using k_rename_map [OF d1(2)] C1 [OF d1(1)] by simp
    next
      case False
      then show ?thesis
        using rename_moves [OF wf below(1) od nd vis False d1] rename_moves(2) [OF wf below(2) od nd vis False d1]
        by (simp add: durable_ok_def rename_states_def)
    qed
  qed
  have Q3: "?Q () d3 c" if mv: "mvd d2" and rm: "k_unlink (od @ [show_u64 f @ CHR ''.'' # old]) d2 = Inr (v, d3)"
    for d2 d3 v
  proof -
    obtain d1 u where d1: "name_added d nd f new d1"
        "k_rename (od @ [show_u64 f]) (nd @ [show_u64 f]) d1 = Inr (u, d2)"
      using mv by (auto simp: mvd_def)
    show ?thesis
      using rename_cleans [OF wf below(1) od nd vis d1(1) on d1(2) rm]
        rename_cleans(2) [OF wf below(2) od nd vis d1(1) on d1(2) rm]
      by (simp add: durable_ok_def)
  qed
  have create: "chl d c (file_create_sys (nd @ [show_u64 f @ ''.'' @ new]))
      (\<lambda>_ d1 c1. name_added d nd f new d1 \<and> c1 = c) ?C"
    unfolding file_create_sys_def using file_create_adds [OF wf] C0 by (intro chl_sysM) auto
  have move: "chl d1 c (rename_locked a od nd f) (\<lambda>_ d2 c2. mvd d2 \<and> c2 = c) ?C"
    if add: "name_added d nd f new d1" for d1
  proof -
    have ren: "chl d1 c (rename_sys (od @ [show_u64 f]) (nd @ [show_u64 f])) (\<lambda>_ d2 c2. mvd d2 \<and> c2 = c) ?C"
      unfolding rename_sys_def using C1 [OF add] add by (intro chl_sysM) (auto simp: mvd_def)
    show ?thesis
      unfolding rename_locked_def Let_def
      apply (rule chl_under_cache_lock, rule C1 [OF add])
      apply (rule chl_bindM [OF chl_attemptM [OF ren]])
      apply (rule chl_sum; simp?)
       apply (rule chl_still_then, rule still_rules, simp, rule chl_basic, simp)
      apply (rule chl_still_bind, rule still_rules, rule still_rules, simp add: C2)
      apply (rule chl_sum; simp?)
       apply (rule chl_still_then, rule still_rules, simp add: C2, rule chl_basic, simp add: C2)
      apply (rule chl_still_bind, rule still_rules, simp add: C2)
      apply (auto intro!: chl_basic chl_assertM simp: C2 split: option.split)
      done
  qed
  show ?thesis
    unfolding rename_move_def Let_def names [symmetric]
    apply (rule chl_still_then, rule still_rules, rule still_rules, rule C0)
    apply (rule chl_bindM [OF chl_attemptM [OF create]])
    apply (rule chl_sum; simp?)
     apply (rule chl_still_then, rule still_rules, simp, rule chl_basic, simp)
    apply (rule chl_still_bind, rule still_rules, rule still_rules, simp add: C1)
    apply (rule chl_sum; simp?)
     apply (rule chl_still_then, rule still_rules, simp add: C1, rule chl_basic, simp add: C1)
    apply (rule chl_thenM [OF move], simp)
    apply (rule chl_still_then, rule still_rules, simp add: C2)
    apply (unfold remove_file_sys_def, rule chl_lift, rule chl_sysM, simp add: C2)
    apply (use Q3 in fastforce)
    done
qed

section \<open>The whole request\<close>

definition rename_sees :: "disk \<Rightarrow> zip_rename_args \<Rightarrow> (path \<Rightarrow> path \<Rightarrow> fid \<Rightarrow> bool) \<Rightarrow> bool" where
  "rename_sees d a P \<longleftrightarrow> (\<exists>od nd f. fid_path d (da_dir (rn_old_loc a)) = Some od
     \<and> fid_path d (da_dir (rn_new_loc a)) = Some nd
     \<and> find_name d od (da_filename (rn_old_loc a)) = Some f
     \<and> find_name d nd (da_filename (rn_new_loc a)) = None \<and> P od nd f)"

lemma rename_survives:
  assumes doc: "regex_documented E" and ok: "server_ok w"
    and plain: "plain_name (da_filename (rn_old_loc a))" "plain_name (da_filename (rn_new_loc a))"
  shows "survives (handle_rename E a)
    (\<lambda>_ d' c'. durable_ok d' c' \<and> rename_sees (h_disk w) a (\<lambda>od nd f.
       view d' = rename_done (h_disk w) od nd f (da_filename (rn_old_loc a)) (da_filename (rn_new_loc a))))
    (\<lambda>d' c'. durable_ok d' c' \<and> (view d' = view (h_disk w) \<or> rename_sees (h_disk w) a (\<lambda>od nd f.
       rename_states (h_disk w) od nd f (da_filename (rn_old_loc a)) (da_filename (rn_new_loc a)) d'))) w"
    (is "survives _ ?Q ?C w")
proof -
  let ?d = "h_disk w" and ?c = "w_counter w"
  let ?old = "da_filename (rn_old_loc a)" and ?new = "da_filename (rn_new_loc a)"
  have wf: "wf_store ?d" and cache: "cache_ok ?d (w_fid_cache w)" using ok by (simp_all add: server_ok_def)
  have C0: "?C ?d ?c" using server_ok_durable [OF ok] by simp
  have body: "chl ?d ?c (rename_move a od nd f) ?Q ?C"
    if "fid_path ?d (da_dir (rn_old_loc a)) = Some od" "fid_path ?d (da_dir (rn_new_loc a)) = Some nd"
      "find_name ?d od ?old = Some f" "find_name ?d nd ?new = None" for od nd f
  proof -
    have v: "vpath ?d od" "vpath ?d nd" using that fid_path_Some [OF wf] by auto
    have other: "od = nd \<Longrightarrow> ?old \<noteq> ?new" using that(3,4) by auto
    show ?thesis
      by (rule chl_mono [OF rename_move_survives [OF server_ok_durable [OF ok] v
              find_name_vchild [OF wf v(1) that(3)] refl refl other]])
        (use that in \<open>auto simp: rename_sees_def\<close>)
  qed
  have names: "names_ok ?d" using wf by (simp add: wf_store_def)
  have rest: "chl ?d ?c (bindM (strM (fs_find_by_name E od ?old)) (\<lambda>fid. case fid of
       None \<Rightarrow> nfsM NFSERR_NOENT
     | Some fid \<Rightarrow>
         let name = (nd, ?new) in
         bindM (lock_name name) (\<lambda>locked.
         if \<not> locked then nfsM NFSERR_EXIST
         else bindM (attemptM (fs_find_by_name E nd ?new)) (\<lambda>already. case already of
             Inl e \<Rightarrow> thenM (unlock_name name) (errM (ThriftApplication e))
           | Inr (Some _) \<Rightarrow> thenM (unlock_name name) (nfsM NFSERR_EXIST)
           | Inr None \<Rightarrow> rename_move a od nd fid)))) ?Q ?C"
    if p: "fid_path ?d (da_dir (rn_old_loc a)) = Some od" "fid_path ?d (da_dir (rn_new_loc a)) = Some nd"
    for od nd
  proof -
    have ur: "under_root od" "under_root nd" using p fid_path_Some [OF wf] vpath_under_root by blast+
    show ?thesis
      unfolding Let_def
      apply (rule chl_bindM [where Q = "\<lambda>x d' c'. x = find_name ?d od ?old \<and> d' = ?d \<and> c' = ?c"])
       apply (rule chl_lift, rule chl_find_name [OF doc plain(1) names ur(1)], rule C0, simp)
      apply (clarsimp simp del: fun_upd_apply split: option.split)
      apply (rule conjI)
       apply (use C0 in \<open>simp add: chl_basic\<close>)
      apply clarsimp
      apply (rule chl_still_bind, rule still_rules, rule C0, rule chl_if, rule chl_basic, rule C0)
      apply (rule chl_bindM [OF chl_attemptM [where Q = "\<lambda>x d' c'. x = find_name ?d nd ?new \<and> d' = ?d \<and> c' = ?c"]])
       apply (rule chl_find_name [OF doc plain(2) names ur(2)], rule C0, simp)
      apply (rule chl_sum)
       apply (simp only: sum.case)
       apply (rule chl_still_then, rule still_rules, assumption, rule chl_basic, assumption)
      apply (simp only: sum.case, elim conjE, hypsubst)
      apply (cases "find_name ?d nd ?new")
       apply (simp only: option.case, rule body [OF p]; simp)
      apply (simp only: option.case)
      apply (rule chl_still_then, rule still_rules, rule C0, rule chl_basic, rule C0)
      done
  qed
  show ?thesis
    unfolding handle_rename_def
  proof (rule survives_find [where C = ?C, OF doc wf cache C0])
    fix p and w1 :: world
    assume w1: "h_disk w1 = ?d" "w_counter w1 = ?c" "cache_ok (h_disk w1) (w_fid_cache w1)"
      and p: "p = None \<or> p = fid_path ?d (da_dir (rn_old_loc a))"
    show "survives (case p of None \<Rightarrow> nfsM NFSERR_STALE | Some old_loc_dpath \<Rightarrow>
       bindM (strM (fs_find_by_fid E (da_dir (rn_new_loc a)))) (\<lambda>new_loc_dpath.
       case new_loc_dpath of None \<Rightarrow> nfsM NFSERR_STALE | Some new_loc_dpath \<Rightarrow>
       bindM (strM (fs_find_by_name E old_loc_dpath ?old)) (\<lambda>fid. case fid of
       None \<Rightarrow> nfsM NFSERR_NOENT
     | Some fid \<Rightarrow>
         let name = (new_loc_dpath, ?new) in
         bindM (lock_name name) (\<lambda>locked.
         if \<not> locked then nfsM NFSERR_EXIST
         else bindM (attemptM (fs_find_by_name E new_loc_dpath ?new)) (\<lambda>already. case already of
             Inl e \<Rightarrow> thenM (unlock_name name) (errM (ThriftApplication e))
           | Inr (Some _) \<Rightarrow> thenM (unlock_name name) (nfsM NFSERR_EXIST)
           | Inr None \<Rightarrow> rename_move a old_loc_dpath new_loc_dpath fid))))) ?Q ?C w1"
    proof (cases p)
      case None
      then show ?thesis using w1 C0 by (auto intro!: chl_survives chl_basic)
    next
      case (Some od)
      then have od: "fid_path ?d (da_dir (rn_old_loc a)) = Some od" using p by auto
      show ?thesis
        unfolding Some option.case
        apply (rule survives_resolve [where C = ?C, OF doc])
        using w1 wf C0 rest [OF od] by simp_all
    qed
  qed
qed

end
