(* ===== verification/PowerCut.thy ===== *)
theory PowerCut
  imports Objects Data ReadDir
begin

text \<open>
  Power cuts only: under a schedule whose only faults are power cuts, every request either
  is cut, or gives exactly the result and the state it gives without faults. What is proved
  of calm runs holds of every request that returns before the power fails.
\<close>

definition cuts :: "fault option list \<Rightarrow> bool" where
  "cuts fs = list_all (\<lambda>f. f = None \<or> f = Some PowerCut) fs"

definition cut_or_calm :: "(world, 'e, 'a) M \<Rightarrow> bool" where
  "cut_or_calm m \<longleftrightarrow> (\<forall>w fs. h_faults w = [] \<and> cuts fs \<longrightarrow>
     h_faults (snd (m w)) = [] \<and>
     (fst (m (w\<lparr>h_faults := fs\<rparr>)) = Crash \<or>
      (\<exists>fs'. cuts fs' \<and> m (w\<lparr>h_faults := fs\<rparr>) = (fst (m w), (snd (m w))\<lparr>h_faults := fs'\<rparr>))))"

named_theorems coc "computations that a power cut can only end"

lemma cut_or_calmI:
  assumes "\<And>w fs r w1. h_faults w = [] \<Longrightarrow> cuts fs \<Longrightarrow> m w = (r, w1) \<Longrightarrow> h_faults w1 = [] \<and>
     (fst (m (w\<lparr>h_faults := fs\<rparr>)) = Crash \<or> (\<exists>fs'. cuts fs' \<and> m (w\<lparr>h_faults := fs\<rparr>) = (r, w1\<lparr>h_faults := fs'\<rparr>)))"
  shows "cut_or_calm m"
  unfolding cut_or_calm_def using assms by (metis prod.collapse)

lemma cuts_Nil [simp]: "cuts []"
  by (simp add: cuts_def)

lemma cuts_Cons: "cuts (f # fs) \<longleftrightarrow> (f = None \<or> f = Some PowerCut) \<and> cuts fs"
  by (simp add: cuts_def)

text \<open>For a call that consumes one entry of the schedule\<close>

lemma cut_or_calm_call:
  assumes calm: "\<And>w. h_faults w = [] \<Longrightarrow> h_faults (snd (m w)) = []"
    and cut: "\<And>w fs. fst (m (w\<lparr>h_faults := Some PowerCut # fs\<rparr>)) = Crash
      \<or> (\<forall>gs. m (w\<lparr>h_faults := gs\<rparr>) = (fst (m w), (snd (m w))\<lparr>h_faults := gs\<rparr>))"
    and skip: "\<And>w fs. h_faults w = [] \<Longrightarrow> \<exists>fs'. (fs' = fs \<or> fs' = None # fs)
      \<and> m (w\<lparr>h_faults := None # fs\<rparr>) = (fst (m w), (snd (m w))\<lparr>h_faults := fs'\<rparr>)"
  shows "cut_or_calm m"
  unfolding cut_or_calm_def
proof (intro allI impI conjI)
  fix w :: world and fs assume w: "h_faults w = [] \<and> cuts fs"
  show c: "h_faults (snd (m w)) = []" using calm w by simp
  show "fst (m (w\<lparr>h_faults := fs\<rparr>)) = Crash \<or>
      (\<exists>fs'. cuts fs' \<and> m (w\<lparr>h_faults := fs\<rparr>) = (fst (m w), (snd (m w))\<lparr>h_faults := fs'\<rparr>))"
  proof (cases fs)
    case Nil
    have "w\<lparr>h_faults := []\<rparr> = w" "(snd (m w))\<lparr>h_faults := []\<rparr> = snd (m w)"
      using w c by simp_all
    then show ?thesis using Nil by (intro disjI2 exI [of _ "[]"]) simp
  next
    case (Cons f gs)
    then have "cuts gs" and f: "f = None \<or> f = Some PowerCut" using w by (simp_all add: cuts_Cons)
    from f show ?thesis
    proof
      assume "f = None"
      then show ?thesis
        using skip [where w = w and fs = gs] w Cons \<open>cuts gs\<close> cuts_Cons [of None gs] by metis
    next
      assume "f = Some PowerCut"
      then show ?thesis using cut [where w = w and fs = gs] w Cons by auto
    qed
  qed
qed

lemma cut_or_calmD:
  assumes "cut_or_calm m" "h_faults w = []" "cuts fs" "m w = (r, w1)"
  shows "h_faults w1 = []"
    and "fst (m (w\<lparr>h_faults := fs\<rparr>)) = Crash \<or> (\<exists>fs'. cuts fs' \<and> m (w\<lparr>h_faults := fs\<rparr>) = (r, w1\<lparr>h_faults := fs'\<rparr>))"
  using assms unfolding cut_or_calm_def by (metis fst_conv snd_conv)+

text \<open>What does not look at the schedule\<close>

definition blind :: "(world, 'e, 'a) M \<Rightarrow> bool" where
  "blind m \<longleftrightarrow> (\<forall>w fs. m (w\<lparr>h_faults := fs\<rparr>) = (fst (m w), (snd (m w))\<lparr>h_faults := fs\<rparr>)
     \<and> h_faults (snd (m w)) = h_faults w)"

lemma coc_blind: "blind m \<Longrightarrow> cut_or_calm m"
  unfolding blind_def cut_or_calm_def by auto

lemma coc_basic [coc]:
  "cut_or_calm (retM x)" "cut_or_calm (errM e)" "cut_or_calm (panicM p)" "cut_or_calm (nfsM t)"
  "cut_or_calm (assertM b p)" "cut_or_calm (unwrap_optM v)" "cut_or_calm hangM"
  by (rule coc_blind, simp add: blind_def unwrap_optM_def retM_apply errM_apply panicM_apply
      nfsM_apply assertM_apply hangM_apply split: option.split)+

lemma coc_getsM: "(\<And>w fs. f (w\<lparr>h_faults := fs\<rparr>) = f w) \<Longrightarrow> cut_or_calm (getsM f)"
  by (rule coc_blind) (simp add: blind_def monad_simps)

lemma coc_memory [coc]:
  "cut_or_calm (lock_name nm)" "cut_or_calm (unlock_name nm)" "cut_or_calm (cache_get f)"
  "cut_or_calm (cache_insert f g)" "cut_or_calm (cache_extend ps)" "cut_or_calm (cache_remove f)"
  "cut_or_calm (async_lookup f)" "cut_or_calm (async_insert_new f)" "cut_or_calm (async_push a pw)"
  "cut_or_calm (async_remove f)" "cut_or_calm (async_read a)" "cut_or_calm (async_drain a)"
  by (rule coc_blind, simp add: blind_def monad_simps lock_name_def unlock_name_def cache_get_def
      cache_insert_def cache_extend_def cache_remove_def async_lookup_def async_insert_new_def
      async_push_def async_remove_def async_read_def async_drain_def)+

lemma run_call_blind:
  "run_call k (w\<lparr>h_faults := gs\<rparr>) = (fst (run_call k w), (snd (run_call k w))\<lparr>h_faults := gs\<rparr>)"
  "h_faults (snd (run_call k w)) = h_faults w"
  by (auto simp: run_call_def split: sum.split)

lemma coc_sysM [coc]: "cut_or_calm (sysM k)"
proof (rule cut_or_calm_call)
  fix w :: world
  show "h_faults w = [] \<Longrightarrow> h_faults (snd (sysM k w)) = []"
    by (simp add: sysM_def next_fault_calm drop_fault_calm run_call_blind)
  show "h_faults w = [] \<Longrightarrow> \<exists>fs'. (fs' = fs \<or> fs' = None # fs)
      \<and> sysM k (w\<lparr>h_faults := None # fs\<rparr>) = (fst (sysM k w), (snd (sysM k w))\<lparr>h_faults := fs'\<rparr>)" for fs
    using run_call_blind(1) [where k = k and w = w and gs = fs]
    drop_fault_calm [of w]
    by (intro exI [of _ fs]) (simp add: sysM_def next_fault_def drop_fault_def [of "w\<lparr>h_faults := None # fs\<rparr>"])
qed (simp add: sysM_def next_fault_def)

lemma coc_queryM [coc]: "cut_or_calm (queryM q)"
  by (rule cut_or_calm_call) (auto simp: queryM_def next_fault_def drop_fault_def)

lemma coc_fetch [coc]: "cut_or_calm fetch_incM"
proof (rule cut_or_calm_call)
  fix w :: world
  show "h_faults w = [] \<Longrightarrow> h_faults (snd (fetch_incM w)) = []"
    by (simp add: fetch_incM_def fetch_inc_def fetch_add_def next_fault_def drop_fault_def)
  show "fst (fetch_incM (w\<lparr>h_faults := Some PowerCut # fs\<rparr>)) = Crash
      \<or> (\<forall>gs. fetch_incM (w\<lparr>h_faults := gs\<rparr>) = (fst (fetch_incM w), (snd (fetch_incM w))\<lparr>h_faults := gs\<rparr>))" for fs
    by (simp add: fetch_incM_def next_fault_def)
  show "h_faults w = [] \<Longrightarrow> \<exists>fs'. (fs' = fs \<or> fs' = None # fs)
      \<and> fetch_incM (w\<lparr>h_faults := None # fs\<rparr>) = (fst (fetch_incM w), (snd (fetch_incM w))\<lparr>h_faults := fs'\<rparr>)" for fs
    by (intro exI [of _ "if ctr_poisoned (w_counter w) then None # fs else fs"])
       (auto simp: fetch_incM_def fetch_inc_def fetch_add_def next_fault_def drop_fault_def)
qed

lemma coc_bindM [coc]:
  assumes m: "cut_or_calm m" and f: "\<And>x. cut_or_calm (f x)"
  shows "cut_or_calm (bindM m f)"
proof (rule cut_or_calmI)
  fix w fs r w2 assume w: "h_faults w = []" "cuts fs" "bindM m f w = (r, w2)"
  obtain r1 w1 where m1: "m w = (r1, w1)" by (cases "m w")
  note d = cut_or_calmD [OF m w(1,2) m1]
  have fin: "h_faults w2 = []"
  proof (cases r1)
    case (Ok x)
    then have "f x w1 = (r, w2)" using w(3) m1 by (simp add: bindM_apply)
    then show ?thesis using cut_or_calmD(1) [OF f d(1) cuts_Nil] by blast
  qed (use w(3) m1 d(1) in \<open>auto simp: bindM_apply\<close>)
  from d(2) show "h_faults w2 = [] \<and> (fst (bindM m f (w\<lparr>h_faults := fs\<rparr>)) = Crash \<or>
      (\<exists>fs'. cuts fs' \<and> bindM m f (w\<lparr>h_faults := fs\<rparr>) = (r, w2\<lparr>h_faults := fs'\<rparr>)))"
  proof
    assume "fst (m (w\<lparr>h_faults := fs\<rparr>)) = Crash"
    then have "fst (bindM m f (w\<lparr>h_faults := fs\<rparr>)) = Crash"
      by (cases "m (w\<lparr>h_faults := fs\<rparr>)") (simp add: bindM_apply)
    then show ?thesis using fin by simp
  next
    assume "\<exists>fs'. cuts fs' \<and> m (w\<lparr>h_faults := fs\<rparr>) = (r1, w1\<lparr>h_faults := fs'\<rparr>)"
    then obtain fs' where fs': "cuts fs'" "m (w\<lparr>h_faults := fs\<rparr>) = (r1, w1\<lparr>h_faults := fs'\<rparr>)" by blast
    show ?thesis
    proof (cases r1)
      case (Ok x)
      then have "f x w1 = (r, w2)" using w(3) m1 by (simp add: bindM_apply)
      from cut_or_calmD(2) [OF f d(1) fs'(1) this] show ?thesis
        using Ok fs'(2) fin by (simp add: bindM_apply)
    qed (use w(3) m1 fs' fin in \<open>auto simp: bindM_apply\<close>)
  qed
qed

lemma coc_thenM [coc]: "cut_or_calm m \<Longrightarrow> cut_or_calm k \<Longrightarrow> cut_or_calm (thenM m k)"
  unfolding thenM_def by (rule coc_bindM)

lemma coc_map_out:
  assumes m: "cut_or_calm m" and g: "g Crash = Crash"
    and m': "\<And>w. m' w = (case m w of (r, w1) \<Rightarrow> (g r, w1))"
  shows "cut_or_calm m'"
proof (rule cut_or_calmI)
  fix w fs r w1 assume w: "h_faults w = []" "cuts fs" "m' w = (r, w1)"
  obtain r0 where r0: "m w = (r0, w1)" "r = g r0" using w(3) m' by (cases "m w") auto
  show "h_faults w1 = [] \<and> (fst (m' (w\<lparr>h_faults := fs\<rparr>)) = Crash \<or>
      (\<exists>fs'. cuts fs' \<and> m' (w\<lparr>h_faults := fs\<rparr>) = (r, w1\<lparr>h_faults := fs'\<rparr>)))"
    using cut_or_calmD [OF m w(1,2) r0(1)] r0(2) g
    by (cases "m (w\<lparr>h_faults := fs\<rparr>)") (auto simp: m')
qed

lemma coc_lift [coc]:
  "cut_or_calm m1 \<Longrightarrow> cut_or_calm (unwrapM m1)"
  "cut_or_calm m2 \<Longrightarrow> cut_or_calm (map_errM h m2)"
  "cut_or_calm m3 \<Longrightarrow> cut_or_calm (attemptM m3)"
  "cut_or_calm m4 \<Longrightarrow> cut_or_calm (ioM m4)"
  "cut_or_calm m5 \<Longrightarrow> cut_or_calm (strM m5)"
  by (erule coc_map_out; simp add: monad_simps)+

lemma coc_under_cache_lock [coc]:
  assumes m: "cut_or_calm m"
  shows "cut_or_calm (under_cache_lock m)"
proof (rule cut_or_calmI)
  fix w fs r w1 assume w: "h_faults w = []" "cuts fs" "under_cache_lock m w = (r, w1)"
  show "h_faults w1 = [] \<and> (fst (under_cache_lock m (w\<lparr>h_faults := fs\<rparr>)) = Crash \<or>
      (\<exists>fs'. cuts fs' \<and> under_cache_lock m (w\<lparr>h_faults := fs\<rparr>) = (r, w1\<lparr>h_faults := fs'\<rparr>)))"
  proof (cases "w_cache_poisoned w")
    case True
    then show ?thesis using w by (auto simp: under_cache_lock_def)
  next
    case False
    obtain r0 w0 where r0: "m w = (r0, w0)" by (cases "m w")
    have r: "r = r0" "w1 = (case r0 of Panic p \<Rightarrow> w0\<lparr>w_cache_poisoned := True\<rparr> | _ \<Rightarrow> w0)"
      using w(3) r0 False by (auto simp: under_cache_lock_def split: outcome.splits)
    note d = cut_or_calmD [OF m w(1,2) r0]
    from d(2) show ?thesis
    proof
      assume "fst (m (w\<lparr>h_faults := fs\<rparr>)) = Crash"
      then show ?thesis
        using False r d(1) by (cases "m (w\<lparr>h_faults := fs\<rparr>)") (auto simp: under_cache_lock_def split: outcome.split)
    next
      assume "\<exists>fs'. cuts fs' \<and> m (w\<lparr>h_faults := fs\<rparr>) = (r0, w0\<lparr>h_faults := fs'\<rparr>)"
      then show ?thesis
        using False r d(1) by (cases r0) (auto simp: under_cache_lock_def)
    qed
  qed
qed

lemma coc_if [coc]: "cut_or_calm a \<Longrightarrow> cut_or_calm b \<Longrightarrow> cut_or_calm (if c then a else b)"
  by simp

lemma coc_option [coc]:
  "cut_or_calm a \<Longrightarrow> (\<And>x. cut_or_calm (f x)) \<Longrightarrow> cut_or_calm (case v of None \<Rightarrow> a | Some x \<Rightarrow> f x)"
  by (simp split: option.split)

lemma coc_sum [coc]:
  "(\<And>x. cut_or_calm (f x)) \<Longrightarrow> (\<And>x. cut_or_calm (g x)) \<Longrightarrow> cut_or_calm (case v of Inl x \<Rightarrow> f x | Inr x \<Rightarrow> g x)"
  by (simp split: sum.split)

lemma coc_prod [coc]: "(\<And>x y. cut_or_calm (f x y)) \<Longrightarrow> cut_or_calm (case v of (x, y) \<Rightarrow> f x y)"
  by (simp split: prod.split)

lemma coc_mapM [coc]: "(\<And>x. cut_or_calm (f x)) \<Longrightarrow> cut_or_calm (mapM f xs)"
  by (induction xs) (auto intro!: coc)

section \<open>The program\<close>

lemmas sys_defs =
  fs_is_dir_def fs_is_file_def fs_exists_def read_dir_sys_def open_sys_def open_write_sys_def
  create_new_sys_def create_dir_sys_def file_create_sys_def remove_file_sys_def remove_dir_sys_def
  rename_sys_def sync_sys_def metadata_sys_def seek_sys_def set_len_sys_def read_at_sys_def
  futimens_sys_def dirents_sys_def

lemma coc_sys [coc]:
  "cut_or_calm (fs_is_dir p)" "cut_or_calm (fs_is_file p)" "cut_or_calm (fs_exists p)"
  "cut_or_calm (read_dir_sys p)" "cut_or_calm (open_sys p)" "cut_or_calm (open_write_sys p)"
  "cut_or_calm (create_new_sys p)" "cut_or_calm (create_dir_sys p)" "cut_or_calm (file_create_sys p)"
  "cut_or_calm (remove_file_sys p)" "cut_or_calm (remove_dir_sys p)" "cut_or_calm (rename_sys p q)"
  "cut_or_calm sync_sys" "cut_or_calm (metadata_sys p)" "cut_or_calm (seek_sys n)"
  "cut_or_calm (set_len_sys p n)" "cut_or_calm (read_at_sys p n k)" "cut_or_calm (futimens_sys p a m)"
  "cut_or_calm dirents_sys"
  unfolding sys_defs by (rule coc)+

lemma coc_sys2 [coc]: "cut_or_calm (write_all_sys p n bs)" "cut_or_calm (copy_sys p q)"
  unfolding write_all_sys_def copy_sys_def by (intro coc)+

lemma coc_get_files [coc]: "cut_or_calm (get_numbered_and_named_files re p)"
  unfolding get_numbered_and_named_files_def by (intro coc)

lemma coc_bfs [coc]: "cut_or_calm (bfs_loop re fid n q)"
proof (induction n arbitrary: q)
  case (Suc n)
  then show ?case
    by (cases q) (auto simp: parse_hierarchy_def Let_def intro!: coc)
qed (simp add: coc)

lemma coc_no_cache [coc]: "cut_or_calm (fs_find_by_fid_no_cache E fid)"
  unfolding fs_find_by_fid_no_cache_def by (intro coc coc_getsM) simp

lemma coc_cached_walk [coc]: "cut_or_calm (cached_walk E n fid)"
  by (induction n arbitrary: fid) (auto intro!: coc)

lemma coc_find [coc]: "cut_or_calm (fs_find_by_fid E fid)" "cut_or_calm (fs_find_by_name E p fname)"
proof -
  show "cut_or_calm (fs_find_by_fid E fid)"
    unfolding fs_find_by_fid_def fs_find_by_fid_cached_def by (intro coc coc_getsM) simp
  have fn: "cut_or_calm (find_named re p ns ks)" for re ns ks
    by (induction ks) (auto intro!: coc)
  show "cut_or_calm (fs_find_by_name E p fname)"
    unfolding fs_find_by_name_def by (intro coc fn)
qed

lemma coc_attr [coc]:
  "cut_or_calm (fs_get_attr E p f)" "cut_or_calm (fs_set_attr E p a m s)"
proof -
  have t: "cut_or_calm (sys_time_to_zip_time x)" for x
    unfolding sys_time_to_zip_time_def by (intro coc)
  have b: "cut_or_calm (blocks_of E x)" for x
    unfolding blocks_of_def by (intro coc)
  have u: "cut_or_calm (usec_to_nsec E x)" for x
    unfolding usec_to_nsec_def Let_def by (intro coc)
  show "cut_or_calm (fs_get_attr E p f)"
    unfolding fs_get_attr_def by (intro coc coc_getsM t b) simp
  show "cut_or_calm (fs_set_attr E p a m s)"
    unfolding fs_set_attr_def Let_def by (intro coc u)
qed

lemma coc_objects [coc]:
  "cut_or_calm (fs_create_obj p nm isf)" "cut_or_calm (create_owned E ca p isf)"
  "cut_or_calm (create_object E ca isf)" "cut_or_calm (fs_delete_obj p f nm isf)"
proof -
  show f: "cut_or_calm (fs_create_obj p nm isf)" for p nm isf
    unfolding fs_create_obj_def Let_def by (intro coc)
  show c: "cut_or_calm (create_owned E ca p isf)" for p
    unfolding create_owned_def by (intro coc f)
  show "cut_or_calm (create_object E ca isf)"
    unfolding create_object_def Let_def by (intro coc c)
  show "cut_or_calm (fs_delete_obj p f nm isf)"
    unfolding fs_delete_obj_def Let_def by (intro coc)
qed

lemma coc_data [coc]:
  "cut_or_calm (fs_stable_write E f off cnt bs)" "cut_or_calm (commit_loop tmp ws)"
  "cut_or_calm (get_or_create_async_bufs f)"
proof -
  show "cut_or_calm (fs_stable_write E f off cnt bs)"
    unfolding fs_stable_write_def Let_def by (intro coc)
  show "cut_or_calm (commit_loop tmp ws)"
    by (induction ws) (auto intro!: coc)
  show "cut_or_calm (get_or_create_async_bufs f)"
    unfolding get_or_create_async_bufs_def by (intro coc)
qed

lemma coc_epoch [coc]: "cut_or_calm (getsM w_epoch)"
  by (rule coc_getsM) simp

lemma coc_handlers [coc]:
  "cut_or_calm handle_null" "cut_or_calm (handle_getattr E fh)" "cut_or_calm (handle_setattr E sa)"
  "cut_or_calm (handle_lookup E da)" "cut_or_calm (handle_create E ca)" "cut_or_calm (handle_mkdir E ca)"
  "cut_or_calm (handle_remove E da)" "cut_or_calm (handle_rmdir E da)" "cut_or_calm (handle_statfs fh)"
  "cut_or_calm (handle_read E ra)" "cut_or_calm (handle_commit E cm)"
  unfolding handle_null_def handle_getattr_def handle_setattr_def handle_lookup_def handle_create_def
    handle_mkdir_def handle_remove_def handle_rmdir_def handle_statfs_def handle_read_def
    handle_commit_def Let_def
  by (intro coc)+

lemma coc_rename [coc]: "cut_or_calm (handle_rename E rn)"
  unfolding handle_rename_def rename_move_def rename_locked_def Let_def by (intro coc)

lemma coc_write [coc]: "cut_or_calm (handle_write E wa)"
  unfolding handle_write_def Let_def by (cases "wa_stable wa") (auto intro!: coc)

lemma coc_readdir [coc]: "cut_or_calm (handle_readdir E rd)"
  unfolding handle_readdir_def fs_read_dir_def dir_entry_of_def Let_def by (intro coc)

end
