(* ===== verification/Requests.thy ===== *)
theory Requests
  imports AtomicRename AtomicData PowerCut
begin

text \<open>
  What the requests return when nothing fails: each handler of \<^verbatim>\<open>server/src/handler/mod.rs\<close> on
  each of its branches, and the state it leaves, which is ready for the next request.
\<close>

section \<open>A running server\<close>

definition ready :: "world \<Rightarrow> bool" where
  "ready w \<longleftrightarrow> server_ok w \<and> h_faults w = [] \<and> \<not> w_cache_poisoned w \<and> \<not> ctr_poisoned (w_counter w)"

lemma readyD:
  assumes "ready w"
  shows "server_ok w" "h_faults w = []" "\<not> w_cache_poisoned w" "\<not> ctr_poisoned (w_counter w)"
    "wf_store (h_disk w)" "wf_disk (h_disk w)" "names_ok (h_disk w)"
    "cache_ok (h_disk w) (w_fid_cache w)" "ctr_mem (w_counter w) = ctr_disk (w_counter w)"
    "fids_below (unat (ctr_disk (w_counter w))) (h_disk w)"
  using assms by (auto simp: ready_def server_ok_def wf_store_def ctr_synced_def)

lemma ready_recache: "ready w \<Longrightarrow> cache_ok (h_disk w) c \<Longrightarrow> ready (w\<lparr>w_fid_cache := c\<rparr>)"
  by (simp add: ready_def server_ok_def)

lemma ready_lock: "ready w \<Longrightarrow> ready (w\<lparr>w_name_lock := l\<rparr>)"
  by (simp add: ready_def server_ok_def)

text \<open>The first step of every request\<close>

lemma calm_find:
  assumes "regex_documented E" "ready w"
  obtains c where "fs_find_by_fid E f w = (Ok (fid_path (h_disk w) f), w\<lparr>w_fid_cache := c\<rparr>)"
    "cache_ok (h_disk w) c" "ready (w\<lparr>w_fid_cache := c\<rparr>)"
  using find_by_fid_calm [OF assms(1) readyD(5) [OF assms(2)] readyD(2,3,8) [OF assms(2)], of f]
    ready_recache [OF assms(2)] by blast

lemma resolve_calm:
  assumes "regex_documented E" "ready w"
  obtains c where "cache_ok (h_disk w) c" "ready (w\<lparr>w_fid_cache := c\<rparr>)"
    "bindM (strM (fs_find_by_fid E f)) k w = k (fid_path (h_disk w) f) (w\<lparr>w_fid_cache := c\<rparr>)"
proof (rule calm_find [OF assms, of f])
  fix c assume c: "fs_find_by_fid E f w = (Ok (fid_path (h_disk w) f), w\<lparr>w_fid_cache := c\<rparr>)"
    "cache_ok (h_disk w) c" "ready (w\<lparr>w_fid_cache := c\<rparr>)"
  then have "bindM (strM (fs_find_by_fid E f)) k w = k (fid_path (h_disk w) f) (w\<lparr>w_fid_cache := c\<rparr>)"
    by (simp add: monad_simps)
  with c show thesis by (intro that)
qed

section \<open>The cache and the view\<close>

text \<open>A cache entry is right when the view has that parent for the file.\<close>

lemma Nil_not_show_u64 [simp]: "[] \<noteq> show_u64 f"
  using show_u64_nonempty by metis

lemma entry_ok_view:
  assumes wf: "wf_store d"
  shows "entry_ok d f g \<longleftrightarrow> (\<exists>v. view d f = Some v \<and> nf_parent v = show_u64 g)"
proof
  assume "entry_ok d f g"
  then obtain q where q: "fid_path d g = Some q" "q \<noteq> []" "fid_path d f = Some (q @ [show_u64 f])"
    by (rule entry_okE [OF wf])
  then have "last q = show_u64 g" using fid_path_Some [OF wf] by blast
  then show "\<exists>v. view d f = Some v \<and> nf_parent v = show_u64 g"
    using view_fid_path [OF q(3)] q(2) by (simp add: file_at_def)
next
  assume "\<exists>v. view d f = Some v \<and> nf_parent v = show_u64 g"
  then obtain p where p: "vpath d p" "last p = show_u64 f" "nf_parent (file_at d p) = show_u64 g"
    by (auto simp: view_Some [OF wf])
  then have ne: "butlast p \<noteq> []" "last (butlast p) = show_u64 g"
    by (auto simp: file_at_def split: if_splits)
  have pe: "p = butlast p @ [show_u64 f]" using p(1,2) by (metis append_butlast_last_id vpath_Nil)
  then have "vpath d (butlast p)" using p(1) ne(1) vpath_prefix [of d "butlast p" "[show_u64 f]"] by simp
  then have "fid_path d g = Some (butlast p)" using ne(2) fid_path_Some [OF wf] by blast
  then show "entry_ok d f g" using p(1) pe by (simp add: entry_ok_def)
qed

lemma cache_ok_view:
  assumes "wf_store d"
  shows "cache_ok d c \<longleftrightarrow> (\<forall>f g. map_of c f = Some g \<longrightarrow> (\<exists>v. view d f = Some v \<and> nf_parent v = show_u64 g))"
  by (simp add: cache_ok_iff entry_ok_view [OF assms])

text \<open>The effect of each kind of change\<close>

lemma cache_ok_same_view:
  "wf_store d \<Longrightarrow> wf_store d' \<Longrightarrow> view d' = view d \<Longrightarrow> cache_ok d c \<Longrightarrow> cache_ok d' c"
  by (simp add: cache_ok_view)

lemma cache_ok_upd:
  assumes wf: "wf_store d" "wf_store d'" and ok: "cache_ok d c"
    and v: "view d' = (view d)(f \<mapsto> x)" and parent: "nf_parent x = show_u64 g"
  shows "cache_ok d' (AList.update f g c)"
  using ok parent by (auto simp: cache_ok_view [OF wf(1)] cache_ok_view [OF wf(2)] v)

lemma cache_ok_upd_same:
  assumes wf: "wf_store d" "wf_store d'" and ok: "cache_ok d c"
    and v: "view d' = (view d)(f \<mapsto> x)" and old: "view d f = Some y" "nf_parent x = nf_parent y"
  shows "cache_ok d' c"
  using ok old unfolding cache_ok_view [OF wf(1)] cache_ok_view [OF wf(2)] v by fastforce

lemma cache_ok_removed:
  assumes wf: "wf_store d" "wf_store d'" and ok: "cache_ok d c" and v: "view d' = (view d)(f := None)"
  shows "cache_ok d' (AList.delete f c)"
  using ok by (auto simp: cache_ok_view [OF wf(1)] cache_ok_view [OF wf(2)] v)

section \<open>Reading requests\<close>

text \<open>
  The attributes of a server file can be reported: no time before the epoch, and, where
  overflow is checked, a size whose low 32 bits leave room for the block count.
\<close>

definition attrs_fine :: "env \<Rightarrow> disk \<Rightarrow> bool" where
  "attrs_fine E d = list_all (\<lambda>(p, ob). times_ok (obj_stamps ob)
     \<and> (\<not> env_overflow_checks E \<or> unat (size_of_obj E d p ob) + 4095 < 2 ^ 32)) d"

lemma attrs_fineD:
  assumes "attrs_fine E d" "map_of d p = Some ob"
  shows "times_ok (obj_stamps ob)"
    "\<not> env_overflow_checks E \<or> unat (size_of_obj E d p ob) + 4095 < 2 ^ 32"
proof -
  have "(p, ob) \<in> set d" using assms(2) by (rule map_of_SomeD)
  then show "times_ok (obj_stamps ob)" "\<not> env_overflow_checks E \<or> unat (size_of_obj E d p ob) + 4095 < 2 ^ 32"
    using assms(1) by (auto simp: attrs_fine_def list_all_iff)
qed

lemma get_attr_fine:
  assumes "h_faults w = []" "attrs_fine E (h_disk w)" "map_of (h_disk w) p = Some ob"
    and "p \<noteq> []" "last p = show_u64 f"
  shows "fs_get_attr E p f w = (Ok (attr_of E (h_disk w) p f ob), w)"
  using get_attr_calm [OF assms(1,3-5)] attrs_fineD [OF assms(2,3)] by blast

definition run :: "thrift_error + 'a \<Rightarrow> (thrift_error, 'a) outcome" where
  "run r = (case r of Inl e \<Rightarrow> Err e | Inr x \<Rightarrow> Ok x)"

definition attrs_at :: "env \<Rightarrow> disk \<Rightarrow> path \<Rightarrow> fid \<Rightarrow> zip_fattr" where
  "attrs_at E d p f = attr_of E d p f (the (map_of d p))"

text \<open>GETATTR\<close>

definition getattr_result :: "env \<Rightarrow> disk \<Rightarrow> fid \<Rightarrow> thrift_error + zip_fattr" where
  "getattr_result E d f =
     (case fid_path d f of
        None \<Rightarrow> Inl (nfs_error NFSERR_STALE)
      | Some p \<Rightarrow> Inr (attrs_at E d p f))"

lemma getattr_calm:
  assumes doc: "regex_documented E" and w: "ready w" and fine: "attrs_fine E (h_disk w)"
  shows "\<exists>c. handle_getattr E f w = (run (getattr_result E (h_disk w) f), w\<lparr>w_fid_cache := c\<rparr>)
    \<and> ready (w\<lparr>w_fid_cache := c\<rparr>)"
proof -
  obtain c where c: "ready (w\<lparr>w_fid_cache := c\<rparr>)"
    "handle_getattr E f w = (case fid_path (h_disk w) f of
       Some fpath_numbered \<Rightarrow> fs_get_attr E fpath_numbered f | None \<Rightarrow> nfsM NFSERR_STALE) (w\<lparr>w_fid_cache := c\<rparr>)"
    unfolding handle_getattr_def by (rule resolve_calm [OF doc w])
  show ?thesis
  proof (cases "fid_path (h_disk w) f")
    case None
    then show ?thesis using c by (auto simp: nfsM_apply getattr_result_def run_def)
  next
    case (Some p)
    then have p: "vpath (h_disk w) p" "last p = show_u64 f" "p \<noteq> []"
      using fid_path_Some [OF readyD(5) [OF w]] by auto
    obtain ob where "map_of (h_disk w) p = Some ob" using vpath_exists [OF p(1)] by blast
    then have "fs_get_attr E p f (w\<lparr>w_fid_cache := c\<rparr>) = (Ok (attrs_at E (h_disk w) p f), w\<lparr>w_fid_cache := c\<rparr>)"
      using get_attr_fine [of "w\<lparr>w_fid_cache := c\<rparr>" E p ob f] readyD(2) [OF w] fine p
      by (simp add: attrs_at_def)
    then show ?thesis using c Some by (auto simp: getattr_result_def run_def)
  qed
qed

text \<open>LOOKUP, and the first half of REMOVE and RMDIR\<close>

lemma find_name_calm:
  assumes "regex_documented E" "plain_name nm" "ready w" "vpath (h_disk w) dp" "is_dir_at (h_disk w) dp"
  shows "fs_find_by_name E dp nm w = (Ok (find_name (h_disk w) dp nm), w)"
  using find_by_name_calm [OF assms(1,2) readyD(7) [OF assms(3)] vpath_under_root [OF assms(4)] assms(5)
      readyD(2) [OF assms(3)]] .

definition entry_of :: "disk \<Rightarrow> fid \<Rightarrow> string \<Rightarrow> zip_error_type + path \<times> fid" where
  "entry_of d dir nm =
     (case fid_path d dir of
        None \<Rightarrow> Inl NFSERR_STALE
      | Some dp \<Rightarrow>
          if \<not> is_dir_at d dp then Inl NFSERR_NOTDIR
          else case find_name d dp nm of None \<Rightarrow> Inl NFSERR_NOENT | Some f \<Rightarrow> Inr (dp, f))"

lemma entry_ofD:
  assumes "wf_store d" "entry_of d dir nm = Inr (dp, f)"
  shows "fid_path d dir = Some dp" "vpath d dp" "is_dir_at d dp" "find_name d dp nm = Some f"
    "vchild d dp (show_u64 f)"
proof -
  show *: "fid_path d dir = Some dp" "is_dir_at d dp" "find_name d dp nm = Some f"
    using assms(2) by (auto simp: entry_of_def split: option.splits if_splits)
  then show "vpath d dp" using fid_path_Some [OF assms(1)] by simp
  then show "vchild d dp (show_u64 f)" using find_name_vchild [OF assms(1) _ *(3)] by simp
qed

lemma entry_calm:
  fixes k :: "path \<Rightarrow> fid \<Rightarrow> (world, thrift_error, 'a) M"
  assumes doc: "regex_documented E" and w: "ready w" and plain: "plain_name nm"
  obtains c where "ready (w\<lparr>w_fid_cache := c\<rparr>)"
    "bindM (strM (fs_find_by_fid E dir)) (\<lambda>dpath.
       case dpath of None \<Rightarrow> nfsM NFSERR_STALE | Some dpath \<Rightarrow>
         bindM (fs_is_dir dpath) (\<lambda>d.
         if \<not> d then nfsM NFSERR_NOTDIR
         else bindM (strM (fs_find_by_name E dpath nm)) (\<lambda>fid.
           case fid of Some fid \<Rightarrow> k dpath fid | None \<Rightarrow> nfsM NFSERR_NOENT))) w
     = (case entry_of (h_disk w) dir nm of Inl t \<Rightarrow> nfsM t | Inr (dp, f) \<Rightarrow> k dp f) (w\<lparr>w_fid_cache := c\<rparr>)"
proof -
  let ?d = "h_disk w"
  let ?k = "\<lambda>dpath. case dpath of None \<Rightarrow> nfsM NFSERR_STALE | Some dpath \<Rightarrow>
         bindM (fs_is_dir dpath) (\<lambda>d.
         if \<not> d then nfsM NFSERR_NOTDIR
         else bindM (strM (fs_find_by_name E dpath nm)) (\<lambda>fid.
           case fid of Some fid \<Rightarrow> k dpath fid | None \<Rightarrow> nfsM NFSERR_NOENT))"
  obtain c where c: "ready (w\<lparr>w_fid_cache := c\<rparr>)"
    "bindM (strM (fs_find_by_fid E dir)) ?k w = ?k (fid_path ?d dir) (w\<lparr>w_fid_cache := c\<rparr>)"
    by (rule resolve_calm [OF doc w])
  let ?w = "w\<lparr>w_fid_cache := c\<rparr>"
  show thesis
  proof (cases "fid_path ?d dir")
    case None
    then show ?thesis using c by (intro that) (simp_all add: entry_of_def)
  next
    case (Some dp)
    then have dp: "vpath ?d dp" using fid_path_Some [OF readyD(5) [OF w]] by simp
    have isd: "(fs_is_dir dp :: (world, thrift_error, bool) M) ?w = (Ok (is_dir_at ?d dp), ?w)"
      using read_calls_calm(1) [of ?w dp] readyD(2) [OF c(1)] by simp
    have nm: "fs_find_by_name E dp nm ?w = (Ok (find_name ?d dp nm), ?w)"
      if "is_dir_at ?d dp" using find_name_calm [OF doc plain c(1)] dp that by simp
    show ?thesis
      using c Some isd nm
      by (intro that) (auto simp: entry_of_def bindM_apply strM_apply nfsM_apply split: option.split)
  qed
qed

definition lookup_result :: "env \<Rightarrow> disk \<Rightarrow> zip_dir_op_args \<Rightarrow> thrift_error + zip_dir_op_res" where
  "lookup_result E d a =
     (case entry_of d (da_dir a) (da_filename a) of
        Inl t \<Rightarrow> Inl (nfs_error t)
      | Inr (dp, f) \<Rightarrow> Inr \<lparr>dr_file = f, dr_attributes = attrs_at E d (dp @ [show_u64 f]) f\<rparr>)"

lemma lookup_calm:
  assumes doc: "regex_documented E" and w: "ready w" and fine: "attrs_fine E (h_disk w)"
    and plain: "plain_name (da_filename a)"
  shows "\<exists>c. handle_lookup E a w = (run (lookup_result E (h_disk w) a), w\<lparr>w_fid_cache := c\<rparr>)
    \<and> ready (w\<lparr>w_fid_cache := c\<rparr>)"
proof -
  let ?d = "h_disk w"
  obtain c where c: "ready (w\<lparr>w_fid_cache := c\<rparr>)"
    "handle_lookup E a w = (case entry_of ?d (da_dir a) (da_filename a) of Inl t \<Rightarrow> nfsM t
       | Inr (dp, f) \<Rightarrow> bindM (fs_get_attr E (dp @ [show_u64 f]) f) (\<lambda>attributes.
           retM \<lparr>dr_file = f, dr_attributes = attributes\<rparr>)) (w\<lparr>w_fid_cache := c\<rparr>)"
    unfolding handle_lookup_def by (rule entry_calm [OF doc w plain])
  let ?w = "w\<lparr>w_fid_cache := c\<rparr>"
  show ?thesis
  proof (cases "entry_of ?d (da_dir a) (da_filename a)")
    case (Inl t)
    then show ?thesis using c by (auto simp: nfsM_apply lookup_result_def run_def)
  next
    case (Inr pf)
    obtain dp f where pf: "pf = (dp, f)" by (cases pf)
    obtain ob where "map_of ?d (dp @ [show_u64 f]) = Some ob"
      using entry_ofD(5) [OF readyD(5) [OF w] Inr [unfolded pf]] by (auto simp: vchild_iff)
    then have "(fs_get_attr E (dp @ [show_u64 f]) f :: (world, thrift_error, zip_fattr) M) ?w
        = (Ok (attrs_at E ?d (dp @ [show_u64 f]) f), ?w)"
      using get_attr_fine [of ?w E "dp @ [show_u64 f]" ob f] readyD(2) [OF w] fine by (simp add: attrs_at_def)
    then show ?thesis
      using c Inr pf by (auto simp: lookup_result_def run_def bindM_apply retM_apply)
  qed
qed

text \<open>READ\<close>

definition read_result :: "env \<Rightarrow> disk \<Rightarrow> zip_read_args \<Rightarrow> thrift_error + zip_read_res" where
  "read_result E d a =
     (case fid_path d (ra_file a) of
        None \<Rightarrow> Inl (nfs_error NFSERR_STALE)
      | Some p \<Rightarrow>
          (case map_of d p of
             Some (RegFile st bs) \<Rightarrow> Inr \<lparr>rr_attributes = attrs_at E d p (ra_file a),
               rr_data = take (min (unat (ra_count a)) 4000) (drop (unat (ra_offset a)) bs)\<rparr>
           | _ \<Rightarrow> Inl (nfs_error NFSERR_ISDIR)))"

lemma read_calm:
  assumes doc: "regex_documented E" and w: "ready w" and fine: "attrs_fine E (h_disk w)"
    and off: "unat (ra_offset a) < 2 ^ 63"
  shows "\<exists>c. handle_read E a w = (run (read_result E (h_disk w) a), w\<lparr>w_fid_cache := c\<rparr>)
    \<and> ready (w\<lparr>w_fid_cache := c\<rparr>)"
proof -
  let ?d = "h_disk w"
  obtain c where c: "ready (w\<lparr>w_fid_cache := c\<rparr>)"
    "handle_read E a w = (case fid_path ?d (ra_file a) of
       None \<Rightarrow> nfsM NFSERR_STALE
     | Some fpath_numbered \<Rightarrow>
         bindM (fs_is_file fpath_numbered) (\<lambda>f.
         if \<not> f then nfsM NFSERR_ISDIR
         else
           thenM (unwrapM (open_sys fpath_numbered)) (
           bindM (unwrapM (read_at_sys fpath_numbered (ra_offset a)
                             (min (unat (ra_count a)) MAX_BUF_LEN))) (\<lambda>data.
           bindM (fs_get_attr E fpath_numbered (ra_file a)) (\<lambda>attributes.
           retM \<lparr>rr_attributes = attributes, rr_data = data\<rparr>))))) (w\<lparr>w_fid_cache := c\<rparr>)"
    unfolding handle_read_def by (rule resolve_calm [OF doc w])
  let ?w = "w\<lparr>w_fid_cache := c\<rparr>"
  show ?thesis
  proof (cases "fid_path ?d (ra_file a)")
    case None
    then show ?thesis using c by (auto simp: nfsM_apply read_result_def run_def)
  next
    case (Some p)
    then have p: "vpath ?d p" "last p = show_u64 (ra_file a)" "p \<noteq> []"
      using fid_path_Some [OF readyD(5) [OF w]] by auto
    obtain ob where ob: "map_of ?d p = Some ob" using vpath_exists [OF p(1)] by blast
    have nf: "h_faults ?w = []" using readyD(2) [OF w] by simp
    have isf: "(fs_is_file p :: (world, thrift_error, bool) M) ?w = (Ok (is_file_at ?d p), ?w)"
      using read_calls_calm(2) [OF nf] by simp
    have attr: "(fs_get_attr E p (ra_file a) :: (world, thrift_error, zip_fattr) M) ?w
        = (Ok (attrs_at E ?d p (ra_file a)), ?w)"
      using get_attr_fine [of ?w E p ob "ra_file a"] nf p fine ob by (simp add: attrs_at_def)
    show ?thesis
    proof (cases ob)
      case (DirObj st)
      then have "\<not> is_file_at ?d p" using ob by (simp add: is_file_at_iff)
      then show ?thesis using c Some ob DirObj isf by (auto simp: read_result_def run_def monad_simps)
    next
      case (RegFile st bs)
      then have f: "is_file_at ?d p" using ob by (simp add: is_file_at_iff)
      have op: "open_sys p ?w = (Ok (), ?w)"
        using ob RegFile by (simp add: open_sys_def sysM_calm [OF nf] k_open_def)
      have rd: "read_at_sys p (ra_offset a) n ?w = (Ok (take n (drop (unat (ra_offset a)) bs)), ?w)" for n
        using ob RegFile off by (simp add: read_at_sys_def sysM_calm [OF nf] k_content_def)
      show ?thesis
        using c Some ob RegFile isf f op rd attr
        by (auto simp: read_result_def run_def monad_simps MAX_BUF_LEN_def)
    qed
  qed
qed

end
