(* ===== verification/Updates.thy ===== *)
theory Updates
  imports Requests
begin

text \<open>
  The requests that change the store, when nothing fails: that they succeed exactly where
  they should, what a client sees afterwards, and that the server is ready again with every
  name lock as it was.
\<close>

section \<open>CREATE and MKDIR\<close>

definition name_fits :: "fid \<Rightarrow> string \<Rightarrow> bool" where
  "name_fits f nm = (CHR ''/'' \<notin> set nm \<and> CHR 0x00 \<notin> set nm \<and> length (show_u64 f) + 1 + length nm \<le> NAME_MAX)"

lemma comp_err_fits:
  assumes "name_fits f nm"
  shows "comp_err d p (show_u64 f) = None" "comp_err d p (show_u64 f @ CHR ''.'' # nm) = None"
proof -
  have "CHR ''/'' \<notin> set (show_u64 f)" "CHR 0x00 \<notin> set (show_u64 f)"
    using show_u64_digit_set not_digit by blast+
  then show "comp_err d p (show_u64 f) = None" "comp_err d p (show_u64 f @ CHR ''.'' # nm) = None"
    using assms by (auto simp: comp_err_def name_fits_def NAME_MAX_def)
qed

definition bump :: "apu \<Rightarrow> apu" where
  "bump c = c\<lparr>ctr_mem := ctr_mem c + 1, ctr_disk := ctr_mem c + 1\<rparr>"

lemma fetch_calm: "ready w \<Longrightarrow> fetch_incM w = (Ok (ctr_disk (w_counter w)), w\<lparr>w_counter := bump (w_counter w)\<rparr>)"
  using readyD(2,4,9) [of w]
  by (simp add: fetch_incM_def fetch_inc_def fetch_add_def flush_ok_def bump_def next_fault_def drop_fault_calm)

lemma create_obj_calm:
  assumes w: "ready w" and dp: "vpath (h_disk w) dp" "is_dir_at (h_disk w) dp"
    and fits: "name_fits (ctr_disk (w_counter w)) nm"
  shows "\<exists>d'. fs_create_obj dp nm is_file w =
      (Ok (ctr_disk (w_counter w), dp @ [show_u64 (ctr_disk (w_counter w))]),
       w\<lparr>w_counter := bump (w_counter w), h_disk := d'\<rparr>)
    \<and> made (h_disk w) (ctr_disk (w_counter w)) dp nm is_file d'
    \<and> map_of d' (dp @ [show_u64 (ctr_disk (w_counter w))]) =
        Some (if is_file then RegFile (fresh_stamps (h_clock w)) [] else DirObj (fresh_stamps (h_clock w)))"
proof -
  let ?d = "h_disk w" and ?f = "ctr_disk (w_counter w)"
  define ob where "ob = (if is_file then RegFile (fresh_stamps (h_clock w)) [] else DirObj (fresh_stamps (h_clock w)))"
  define d1 where "d1 = AList.update (dp @ [show_u64 ?f]) ob ?d"
  define d2 where "d2 = AList.update (dp @ [show_u64 ?f @ CHR ''.'' # nm]) (RegFile (fresh_stamps (h_clock w)) []) d1"
  define w1 where "w1 = w\<lparr>w_counter := bump (w_counter w)\<rparr>"
  have nf: "h_faults w1 = []" using readyD(2) [OF w] by (simp add: w1_def)
  note none = fids_below_fresh [OF readyD(10) [OF w] vpath_under_root [OF dp(1)]]
  have num: "(if is_file then create_new_sys (dp @ [show_u64 ?f]) else create_dir_sys (dp @ [show_u64 ?f])) w1
      = (Ok (), w1\<lparr>h_disk := d1\<rparr>)"
    using none(1) dp(2) comp_err_fits(1) [OF fits] readyD(2) [OF w]
    by (auto simp: create_new_sys_def create_dir_sys_def sysM_calm k_create_new_def k_mkdir_def
        k_new_def exists_at_def w1_def d1_def ob_def)
  have nf1: "h_faults (w1\<lparr>h_disk := d1\<rparr>) = []" using nf by simp
  have dir1: "\<exists>st. map_of d1 dp = Some (DirObj st)" using dp(2) by (simp add: is_dir_at_iff d1_def)
  have op: "open_sys dp (w1\<lparr>h_disk := d1\<rparr>) = (Ok (), w1\<lparr>h_disk := d1\<rparr>)"
    using dir1 by (auto simp: open_sys_def sysM_calm [OF nf1] k_open_def)
  have sync: "sync_sys (w1\<lparr>h_disk := d\<rparr>) = (Ok (), w1\<lparr>h_disk := d\<rparr>)" for d
    using nf by (simp add: sync_sys_def sysM_calm)
  have nam: "file_create_sys (dp @ [show_u64 ?f @ CHR ''.'' # nm]) (w1\<lparr>h_disk := d1\<rparr>) = (Ok (), w1\<lparr>h_disk := d2\<rparr>)"
    using none(2) [of nm] dir1 comp_err_fits(2) [OF fits] readyD(2) [OF w]
    by (auto simp: file_create_sys_def sysM_calm k_create_def k_new_def is_dir_at_iff exists_at_def
        d1_def d2_def w1_def)
  have "fs_create_obj dp nm is_file w = (Ok (?f, dp @ [show_u64 ?f]), w1\<lparr>h_disk := d2\<rparr>)"
    unfolding fs_create_obj_def Let_def
    using num op sync nam
    by (simp add: fetch_calm [OF w] bindM_apply thenM_apply map_errM_apply unwrapM_apply retM_apply w1_def [symmetric] split del: if_split)
  moreover have "made ?d ?f dp nm is_file d2"
    unfolding made_def d2_def d1_def ob_def add_named_def add_numbered_def by auto
  moreover have "map_of d2 (dp @ [show_u64 ?f]) = Some ob" by (simp add: d2_def d1_def)
  ultimately show ?thesis by (auto simp: w1_def ob_def)
qed

text \<open>What the new file holds: nothing, or the zeros that a size asks for\<close>

definition new_obj :: "tspec \<Rightarrow> bool \<Rightarrow> zip_sattr \<Rightarrow> obj" where
  "new_obj now is_file at = stamp_obj (sa_atime at) (sa_mtime at) (resize_obj now (sa_size at)
     (if is_file then RegFile (fresh_stamps now) [] else DirObj (fresh_stamps now)))"

text \<open>The attributes a CREATE or MKDIR can carry out\<close>

definition create_attrs_ok :: "env \<Rightarrow> tspec \<Rightarrow> bool \<Rightarrow> zip_sattr \<Rightarrow> bool" where
  "create_attrs_ok E now is_file at \<longleftrightarrow> times_given_ok (sa_atime at) (sa_mtime at)
     \<and> (case sa_size at of None \<Rightarrow> True | Some n \<Rightarrow> is_file \<and> unat n < 2 ^ 31)
     \<and> times_ok (obj_stamps (new_obj now is_file at))
     \<and> (\<not> env_overflow_checks E \<or> unat (ucast (env_dir_len E 0) :: u32) + 4095 < 2 ^ 32)"

lemma new_obj_kind:
  "(case new_obj now is_file at of DirObj _ \<Rightarrow> True | RegFile _ _ \<Rightarrow> False) \<longleftrightarrow> \<not> is_file"
  by (cases "sa_atime at"; cases "sa_size at"; cases is_file) (simp_all add: new_obj_def)

lemma new_obj_body:
  "create_attrs_ok E now is_file at \<Longrightarrow> obj_body (new_obj now is_file at) = initial_body is_file (sa_size at)"
  by (cases "sa_atime at"; cases "sa_size at"; cases is_file)
     (simp_all add: new_obj_def initial_body_def empty_body_def create_attrs_ok_def resize_bytes_def)

lemma new_obj_size:
  assumes ok: "create_attrs_ok E now is_file at" and kids: "\<not> is_file \<Longrightarrow> children d p = []"
  shows "\<not> env_overflow_checks E \<or> unat (size_of_obj E d p (new_obj now is_file at)) + 4095 < 2 ^ 32"
proof (cases is_file)
  case False
  then obtain st where "new_obj now is_file at = DirObj st"
    using new_obj_kind [of now is_file at] by (cases "new_obj now is_file at") auto
  then show ?thesis
    using ok kids False by (auto simp: create_attrs_ok_def size_of_obj_def meta_len_def)
next
  case True
  then obtain st bs where ob: "new_obj now is_file at = RegFile st bs"
    using new_obj_kind [of now is_file at] by (cases "new_obj now is_file at") auto
  then have "length bs < 2 ^ 31"
    using new_obj_body [OF ok] ok
    by (auto simp: initial_body_def empty_body_def True create_attrs_ok_def split: option.splits)
  then have "unat (ucast (of_nat (length bs) :: u64) :: u32) = length bs"
    by (simp add: unsigned_ucast_eq unsigned_of_nat take_bit_nat_eq_self)
  then show ?thesis
    using ob \<open>length bs < 2 ^ 31\<close> by (simp add: size_of_obj_def meta_len_def)
qed

lemma touches_set_attr:
  assumes "map_of d p = Some ob"
  shows "touches (sz = None) p d (set_attr_disk now p at mt sz ob d)"
  using assms
  by (cases at; cases sz; cases ob)
     (auto simp: set_attr_disk_def touches_def intro!: same_shape_update)

lemma create_calm:
  assumes doc: "regex_documented E" and w: "ready w"
    and p: "fid_path (h_disk w) (da_dir (ca_where a)) = Some dp" and dir: "is_dir_at (h_disk w) dp"
    and plain: "plain_name (da_filename (ca_where a))"
    and fits: "name_fits (ctr_disk (w_counter w)) (da_filename (ca_where a))"
    and unlocked: "(dp, da_filename (ca_where a)) \<notin> w_name_lock w"
    and free: "find_name (h_disk w) dp (da_filename (ca_where a)) = None"
    and room: "unat (ctr_disk (w_counter w)) < 2 ^ 64 - 2"
    and attrs: "create_attrs_ok E (h_clock w) is_file (ca_attributes a)"
  shows "\<exists>res w'. create_object E a is_file w = (Ok res, w')
    \<and> dr_file res = ctr_disk (w_counter w) \<and> ready w' \<and> w_name_lock w' = w_name_lock w
    \<and> ctr_disk (w_counter w') = ctr_disk (w_counter w) + 1
    \<and> view (h_disk w') = (view (h_disk w))(ctr_disk (w_counter w) \<mapsto>
        new_file dp (da_filename (ca_where a)) (initial_body is_file (sa_size (ca_attributes a))))"
proof -
  let ?d = "h_disk w" and ?f = "ctr_disk (w_counter w)" and ?nm = "da_filename (ca_where a)"
    and ?at = "ca_attributes a" and ?q = "dp @ [show_u64 (ctr_disk (w_counter w))]"
  note wf = readyD(5) [OF w] and below = readyD(10) [OF w]
  have dp: "vpath ?d dp" "last dp = show_u64 (da_dir (ca_where a))" using p fid_path_Some [OF wf] by auto
  obtain c where c: "cache_ok ?d c" "ready (w\<lparr>w_fid_cache := c\<rparr>)"
    "create_object E a is_file w = (case fid_path ?d (da_dir (ca_where a)) of
       None \<Rightarrow> nfsM NFSERR_STALE
     | Some dpath \<Rightarrow>
         let filename = ?nm in
         bindM (fs_is_dir dpath) (\<lambda>d.
         if \<not> d then nfsM NFSERR_NOTDIR
         else
           bindM (lock_name (dpath, filename)) (\<lambda>locked.
           if \<not> locked then nfsM NFSERR_EXIST
           else
             bindM (attemptM (fs_find_by_name E dpath filename)) (\<lambda>already.
             case already of
               Inl e \<Rightarrow> thenM (unlock_name (dpath, filename)) (errM (ThriftApplication e))
             | Inr (Some _) \<Rightarrow> thenM (unlock_name (dpath, filename)) (nfsM NFSERR_EXIST)
             | Inr None \<Rightarrow> create_owned E a dpath is_file)))) (w\<lparr>w_fid_cache := c\<rparr>)"
    unfolding create_object_def by (rule resolve_calm [OF doc w])
  define w1 where "w1 = w\<lparr>w_fid_cache := c, w_name_lock := insert (dp, ?nm) (w_name_lock w)\<rparr>"
  have w1: "ready w1" "h_disk w1 = ?d" "w_counter w1 = w_counter w" "h_clock w1 = h_clock w"
    using ready_lock [OF c(2)] by (simp_all add: w1_def)
  have isd: "(fs_is_dir dp :: (world, thrift_error, bool) M) (w\<lparr>w_fid_cache := c\<rparr>) = (Ok True, w\<lparr>w_fid_cache := c\<rparr>)"
    using read_calls_calm(1) [of "w\<lparr>w_fid_cache := c\<rparr>" dp] readyD(2) [OF w] dir by simp
  have name: "fs_find_by_name E dp ?nm w1 = (Ok None, w1)"
    using find_name_calm [OF doc plain w1(1)] w1(2) dp(1) dir free by simp
  have start: "create_object E a is_file w = create_owned E a dp is_file w1"
    using c(3) p isd unlocked name
    by (simp add: Let_def bindM_apply lock_name_def attemptM_apply w1_def)
  define ob0 where "ob0 = (if is_file then RegFile (fresh_stamps (h_clock w)) [] else DirObj (fresh_stamps (h_clock w)))"
  obtain d2 where d2: "fs_create_obj dp ?nm is_file w1 = (Ok (?f, ?q), w1\<lparr>w_counter := bump (w_counter w), h_disk := d2\<rparr>)"
      "made ?d ?f dp ?nm is_file d2" "map_of d2 ?q = Some ob0"
    using create_obj_calm [OF w1(1), of dp ?nm is_file] w1(2-4) dp(1) dir fits by (auto simp: ob0_def)
  define w2 where "w2 = w1\<lparr>w_counter := bump (w_counter w), h_disk := d2\<rparr>"
  define d3 where "d3 = set_attr_disk (h_clock w) ?q (sa_atime ?at) (sa_mtime ?at) (sa_size ?at) ob0 d2"
  have nf2: "h_faults w2 = []" using readyD(2) [OF w1(1)] by (simp add: w2_def)
  have setat: "fs_set_attr E ?q (sa_atime ?at) (sa_mtime ?at) (sa_size ?at) w2 = (Ok (), w2\<lparr>h_disk := d3\<rparr>)"
    using set_attr_calm [OF nf2, of ?q ob0 "sa_size ?at" "sa_atime ?at" "sa_mtime ?at" E] d2(3) attrs w1(4)
    by (auto simp: w2_def d3_def create_attrs_ok_def is_file_at_iff ob0_def split: option.splits)
  have t: "touches (sa_size ?at = None) ?q d2 d3"
    unfolding d3_def by (rule touches_set_attr [OF d2(3)])
  have at3: "map_of d3 ?q = Some (new_obj (h_clock w) is_file ?at)"
    using d2(3) by (auto simp: d3_def set_attr_disk_def new_obj_def ob0_def)
  note tc = touched_create [OF wf below dp(1) dir d2(2) t]
  have wf3: "wf_store d3" and below3: "fids_below (Suc (unat ?f)) d3" using tc by simp_all
  obtain b where b: "view d3 = (view ?d)(?f \<mapsto> new_file dp ?nm b)" using tc(3) by blast
  have fp3: "fid_path d3 ?f = Some ?q"
    using same_shape_fid_path [of d2 d3 ?f] t made_ok(1,4) [OF wf below dp(1) dir d2(2)]
    by (simp add: touches_def)
  have "b = initial_body is_file (sa_size ?at)"
    using view_fid_path [OF fp3] b at3 new_obj_body [OF attrs] by (simp add: file_at_def new_file_def)
  then have v3: "view d3 = (view ?d)(?f \<mapsto> new_file dp ?nm (initial_body is_file (sa_size ?at)))"
    using b by simp
  define w3 where "w3 = w2\<lparr>h_disk := d3, w_name_lock := w_name_lock w,
     w_fid_cache := AList.update ?f (da_dir (ca_where a)) c\<rparr>"
  have lock: "insert (dp, ?nm) (w_name_lock w) - {(dp, ?nm)} = w_name_lock w" using unlocked by simp
  have kids: "children d3 ?q = []" if "\<not> is_file"
  proof (rule ccontr)
    assume "children d3 ?q \<noteq> []"
    then obtain k where "map_of d3 (?q @ [k]) \<noteq> None"
      using in_children_iff [of _ d3 ?q] by (metis list.set_sel(1))
    moreover have "map_of d3 (?q @ [k]) = map_of ?d (?q @ [k])"
      using t d2(2) by (auto simp: touches_def made_def add_named_def add_numbered_def)
    moreover have "map_of ?d ?q = None" using fids_below_fresh(1) [OF below vpath_under_root [OF dp(1)]] .
    ultimately show False
      using wf_disk_parent [OF readyD(6) [OF w], of ?q k] by (simp add: is_dir_at_iff)
  qed
  have attr: "(fs_get_attr E ?q ?f :: (world, thrift_error, zip_fattr) M) w3
      = (Ok (attr_of E d3 ?q ?f (new_obj (h_clock w) is_file ?at)), w3)"
    using get_attr_calm [of w3 ?q "new_obj (h_clock w) is_file ?at" ?f E] nf2 at3 attrs
      new_obj_size [OF attrs, of d3 ?q] kids
    by (simp add: w3_def w2_def create_attrs_ok_def)
  have live: "\<not> w_cache_poisoned w" using readyD(3) [OF w] .
  have res: "create_owned E a dp is_file w1 =
      (Ok \<lparr>dr_file = ?f, dr_attributes = attr_of E d3 ?q ?f (new_obj (h_clock w) is_file ?at)\<rparr>, w3)"
    unfolding create_owned_def
    using d2(1) setat attr lock live
    by (simp add: bindM_apply thenM_apply strM_apply retM_apply w2_def [symmetric])
       (simp add: w2_def w1_def w3_def unlock_name_def cache_insert_def bindM_apply thenM_apply retM_apply)
  have bumped: "unat (?f + 1) = Suc (unat ?f)" using room by (intro unat_plus_one) simp
  have cache3: "cache_ok d3 (AList.update ?f (da_dir (ca_where a)) c)"
    by (rule cache_ok_upd [OF wf wf3 c(1) v3]) (simp add: new_file_def dp(2))
  have "ready w3"
    using readyD(2-4,9) [OF w] wf3 below3 cache3 bumped room
    by (simp add: ready_def server_ok_def w3_def w2_def w1_def bump_def ctr_synced_def)
  then show ?thesis
    using start res v3 readyD(9) [OF w] by (auto simp: w3_def w2_def w1_def bump_def)
qed

text \<open>The requests that are refused, and with what error\<close>

definition create_error :: "world \<Rightarrow> zip_create_args \<Rightarrow> zip_error_type option" where
  "create_error w a =
     (case fid_path (h_disk w) (da_dir (ca_where a)) of
        None \<Rightarrow> Some NFSERR_STALE
      | Some dp \<Rightarrow>
          if \<not> is_dir_at (h_disk w) dp then Some NFSERR_NOTDIR
          else if (dp, da_filename (ca_where a)) \<in> w_name_lock w then Some NFSERR_EXIST
          else if find_name (h_disk w) dp (da_filename (ca_where a)) \<noteq> None then Some NFSERR_EXIST
          else None)"

lemma create_refused:
  assumes doc: "regex_documented E" and w: "ready w"
    and plain: "plain_name (da_filename (ca_where a))" and err: "create_error w a = Some t"
  shows "\<exists>c. create_object E a is_file w = (Err (nfs_error t), w\<lparr>w_fid_cache := c\<rparr>)
    \<and> ready (w\<lparr>w_fid_cache := c\<rparr>)"
proof -
  let ?d = "h_disk w" and ?nm = "da_filename (ca_where a)"
  obtain c where c: "cache_ok ?d c" "ready (w\<lparr>w_fid_cache := c\<rparr>)"
    "create_object E a is_file w = (case fid_path ?d (da_dir (ca_where a)) of
       None \<Rightarrow> nfsM NFSERR_STALE
     | Some dpath \<Rightarrow>
         let filename = ?nm in
         bindM (fs_is_dir dpath) (\<lambda>d.
         if \<not> d then nfsM NFSERR_NOTDIR
         else
           bindM (lock_name (dpath, filename)) (\<lambda>locked.
           if \<not> locked then nfsM NFSERR_EXIST
           else
             bindM (attemptM (fs_find_by_name E dpath filename)) (\<lambda>already.
             case already of
               Inl e \<Rightarrow> thenM (unlock_name (dpath, filename)) (errM (ThriftApplication e))
             | Inr (Some _) \<Rightarrow> thenM (unlock_name (dpath, filename)) (nfsM NFSERR_EXIST)
             | Inr None \<Rightarrow> create_owned E a dpath is_file)))) (w\<lparr>w_fid_cache := c\<rparr>)"
    unfolding create_object_def by (rule resolve_calm [OF doc w])
  let ?w = "w\<lparr>w_fid_cache := c\<rparr>"
  show ?thesis
  proof (cases "fid_path ?d (da_dir (ca_where a))")
    case None
    then show ?thesis using c err by (auto simp: create_error_def nfsM_apply)
  next
    case (Some dp)
    then have dp: "vpath ?d dp" using fid_path_Some [OF readyD(5) [OF w]] by simp
    have isd: "(fs_is_dir dp :: (world, thrift_error, bool) M) ?w = (Ok (is_dir_at ?d dp), ?w)"
      using read_calls_calm(1) [of ?w dp] readyD(2) [OF c(2)] by simp
    show ?thesis
    proof (cases "is_dir_at ?d dp")
      case False
      then have "t = NFSERR_NOTDIR" using err Some by (simp add: create_error_def)
      then show ?thesis using c Some isd False by (auto simp: Let_def bindM_apply nfsM_apply)
    next
      case True
      show ?thesis
      proof (cases "(dp, ?nm) \<in> w_name_lock w")
        case locked: True
        then have "t = NFSERR_EXIST" using err Some True by (simp add: create_error_def)
        moreover have "(lock_name (dp, ?nm) :: (world, thrift_error, bool) M) ?w = (Ok False, ?w)"
          using locked by (simp add: lock_name_def insert_absorb)
        ultimately show ?thesis using c Some isd True by (auto simp: Let_def bindM_apply nfsM_apply)
      next
        case unlocked: False
        then obtain f where f: "find_name ?d dp ?nm = Some f" and t: "t = NFSERR_EXIST"
          using err Some True by (auto simp: create_error_def split: if_splits)
        let ?w1 = "?w\<lparr>w_name_lock := insert (dp, ?nm) (w_name_lock w)\<rparr>"
        have lock: "(lock_name (dp, ?nm) :: (world, thrift_error, bool) M) ?w = (Ok True, ?w1)" using unlocked by (simp add: lock_name_def)
        have name: "fs_find_by_name E dp ?nm ?w1 = (Ok (Some f), ?w1)"
          using find_name_calm [OF doc plain ready_lock [OF c(2)]] dp True f by simp
        have unlock: "(unlock_name (dp, ?nm) :: (world, thrift_error, unit) M) ?w1 = (Ok (), ?w)"
          using unlocked by (simp add: unlock_name_def)
        show ?thesis
          using c Some isd True lock name unlock t
          by (auto simp: Let_def bindM_apply thenM_apply attemptM_apply nfsM_apply)
      qed
    qed
  qed
qed

section \<open>REMOVE and RMDIR\<close>

lemma unlink_calm:
  assumes "h_faults w = []" "is_file_at (h_disk w) p"
  shows "remove_file_sys p w = (Ok (), w\<lparr>h_disk := AList.delete p (h_disk w)\<rparr>)"
  using assms by (auto simp: remove_file_sys_def sysM_calm k_unlink_def is_file_at_iff)

lemma unlink_absent_calm:
  assumes "h_faults w = []" "map_of (h_disk w) p = None" "p \<noteq> []"
  shows "\<exists>e. remove_file_sys p w = (Err e, w)"
  using assms by (auto simp: remove_file_sys_def sysM_calm k_unlink_def split: option.split)

text \<open>
  The deletion of the pair of \<open>f\<close>. The named file that is removed is the one with the name
  that was asked for; when the visible name is another one, the request fails after the
  numbered file is gone.
\<close>

lemma delete_obj_calm:
  assumes w: "ready w" and dp: "vpath (h_disk w) dp" and vis: "vchild (h_disk w) dp (show_u64 f)"
    and kind: "if is_file then is_file_at (h_disk w) (dp @ [show_u64 f])
      else is_dir_at (h_disk w) (dp @ [show_u64 f]) \<and> children (h_disk w) (dp @ [show_u64 f]) = []"
  shows "\<exists>r w'. fs_delete_obj dp f nm is_file w = (r, w') \<and> ready w' \<and> w_name_lock w' = w_name_lock w
    \<and> view (h_disk w') = (view (h_disk w))(f := None)
    \<and> (nm \<in> names_at (h_disk w) dp (show_u64 f) \<longrightarrow> r = Ok ())
    \<and> (nm \<notin> names_at (h_disk w) dp (show_u64 f) \<longrightarrow> (\<exists>e. r = Err e))"
proof -
  let ?d = "h_disk w" and ?q = "dp @ [show_u64 f]" and ?n = "dp @ [show_u64 f @ CHR ''.'' # nm]"
  note wf = readyD(5) [OF w] and wfd = readyD(6) [OF w] and below = readyD(10) [OF w] and nf = readyD(2) [OF w]
  have ur: "under_root dp" "dp \<noteq> []" using dp by (auto dest: vpath_under_root)
  have leaf: "map_of ?d (?q @ [k]) = None" for k
    using kind file_is_leaf [OF wfd, of ?q k] in_children_iff [of k ?d ?q] by (cases is_file) auto
  define d1 where "d1 = AList.delete ?q ?d"
  define w1 where "w1 = w\<lparr>h_disk := d1\<rparr>"
  have first: "(if is_file then strM (map_errM io_text (remove_file_sys ?q))
      else bindM (unwrapM (read_dir_sys ?q)) (\<lambda>entries.
        bindM (attemptM dirents_sys) (\<lambda>it.
        if entries \<noteq> [] \<or> isl it then nfsM NFSERR_NOTEMPTY
        else strM (map_errM io_text (remove_dir_sys ?q))))) w = (Ok (), w1)"
  proof (cases is_file)
    case True
    then show ?thesis
      using unlink_calm [OF nf, of ?q] kind by (simp add: strM_apply map_errM_apply w1_def d1_def)
  next
    case False
    then have "remove_dir_sys ?q w = (Ok (), w1)"
      using kind by (auto simp: remove_dir_sys_def sysM_calm [OF nf] k_rmdir_def is_dir_at_iff w1_def d1_def)
    then show ?thesis
      using False kind nf
      by (simp add: monad_simps calm dirents_sys_def sysM_calm)
  qed
  have leaf': "map_of ?d (dp @ [show_u64 f, k]) = None" for k using leaf [of k] by simp
  note ok1 = delete_numbered_ok(1-3) [OF wf below dp vis leaf' d1_def]
  have hid: "hidden d1 ?n" by (rule delete_numbered_ok(4) [OF wf below dp vis leaf' d1_def])
  define w2 where "w2 = w1\<lparr>w_fid_cache := AList.delete f (w_fid_cache w)\<rparr>"
  have nf2: "h_faults w2 = []" using nf by (simp add: w2_def w1_def)
  have live: "\<not> w_cache_poisoned w" using readyD(3) [OF w] .
  have dir: "map_of d1 dp \<noteq> None" using vpath_exists [OF dp] by (auto simp: d1_def)
  have rest: "fs_delete_obj dp f nm is_file w =
      under_cache_lock (
            thenM (cache_remove f) (
            thenM (unwrapM (open_sys dp)) (
            thenM (strM (map_errM io_text sync_sys)) (
            thenM (strM (map_errM io_text (remove_file_sys ?n))) (
            strM (map_errM io_text sync_sys)))))) w1"
    unfolding fs_delete_obj_def Let_def
    using first by (simp add: thenM_apply split del: if_split)
  have op: "open_sys dp w2 = (Ok (), w2)"
    using dir nf by (auto simp: open_sys_def sysM_calm k_open_def w2_def w1_def split: option.split obj.split)
  have sync: "sync_sys w' = (Ok (), w')" if "h_faults w' = []" for w' :: world
    using that by (simp add: sync_sys_def sysM_calm)
  have cache: "cache_ok d1 (AList.delete f (w_fid_cache w))"
    by (rule cache_ok_removed [OF wf ok1(1) readyD(8) [OF w] ok1(3)])
  have ready2: "ready w2"
    using w ok1 cache by (simp add: ready_def server_ok_def w2_def w1_def)
  have live1: "\<not> w_cache_poisoned w1" using live by (simp add: w1_def)
  have rem: "(cache_remove f :: (world, thrift_error, unit) M) w1 = (Ok (), w2)" using live1 by (simp add: cache_remove_def w2_def w1_def)
  have tail: "thenM (cache_remove f) (
            thenM (unwrapM (open_sys dp)) (
            thenM (strM (map_errM io_text sync_sys)) (
            thenM (strM (map_errM io_text (remove_file_sys ?n))) (
            strM (map_errM io_text sync_sys))))) w1
      = thenM (strM (map_errM io_text (remove_file_sys ?n))) (strM (map_errM io_text sync_sys)) w2"
    using rem op sync [OF nf2] by (simp add: thenM_apply unwrapM_apply strM_apply map_errM_apply)
  show ?thesis
  proof (cases "nm \<in> names_at ?d dp (show_u64 f)")
    case True
    then have "map_of ?d ?n \<noteq> None" by (simp add: in_names_at)
    moreover have "under_root ?n" using ur by (auto simp: under_root_def)
    ultimately have "is_file_at ?d ?n"
      using names_okD [OF readyD(7) [OF w], of ?n] by fastforce
    then have file1: "is_file_at d1 ?n" by (simp add: is_file_at_iff d1_def)
    define w3 where "w3 = w2\<lparr>h_disk := AList.delete ?n d1\<rparr>"
    have rm: "remove_file_sys ?n w2 = (Ok (), w3)"
      using unlink_calm [OF nf2, of ?n] file1 by (simp add: w3_def w2_def w1_def)
    have nf3: "h_faults w3 = []" using nf2 by (simp add: w3_def)
    note ok3 = delete_hidden_ok [OF ok1(1,2) hid ur(1) file1]
    have cache3: "cache_ok (AList.delete ?n d1) (AList.delete f (w_fid_cache w))"
      by (rule cache_ok_same_view [OF ok1(1) ok3(1,3) cache])
    have "ready w3"
      using w ok3 cache3 by (simp add: ready_def server_ok_def w3_def w2_def w1_def)
    moreover have "fs_delete_obj dp f nm is_file w = (Ok (), w3)"
      unfolding rest under_cache_lock_def using live1 tail rm sync [OF nf3]
      by (simp add: thenM_apply strM_apply map_errM_apply)
    moreover have "view (h_disk w3) = (view ?d)(f := None)" using ok1(3) ok3(3) by (simp add: w3_def)
    moreover have "w_name_lock w3 = w_name_lock w" by (simp add: w3_def w2_def w1_def)
    ultimately show ?thesis using True by blast
  next
    case False
    then have "map_of d1 ?n = None" by (simp add: in_names_at d1_def)
    then obtain e where rm: "remove_file_sys ?n w2 = (Err e, w2)"
      using unlink_absent_calm [OF nf2, of ?n] by (auto simp: w2_def w1_def)
    have "fs_delete_obj dp f nm is_file w = (Err (ThriftApplication (io_text e)), w2)"
      unfolding rest under_cache_lock_def using live1 tail rm
      by (simp add: thenM_apply strM_apply map_errM_apply)
    moreover have "view (h_disk w2) = (view ?d)(f := None)" using ok1(3) by (simp add: w2_def w1_def)
    moreover have "w_name_lock w2 = w_name_lock w" by (simp add: w2_def w1_def)
    ultimately show ?thesis using False ready2 by blast
  qed
qed

definition remove_error :: "disk \<Rightarrow> zip_dir_op_args \<Rightarrow> zip_error_type option" where
  "remove_error d a =
     (case entry_of d (da_dir a) (da_filename a) of
        Inl t \<Rightarrow> Some t
      | Inr (dp, f) \<Rightarrow> if is_dir_at d (dp @ [show_u64 f]) then Some NFSERR_ISDIR else None)"

definition rmdir_error :: "disk \<Rightarrow> zip_dir_op_args \<Rightarrow> zip_error_type option" where
  "rmdir_error d a =
     (case entry_of d (da_dir a) (da_filename a) of
        Inl t \<Rightarrow> Some t
      | Inr (dp, f) \<Rightarrow>
          if \<not> is_dir_at d (dp @ [show_u64 f]) then Some NFSERR_NOTDIR
          else if children d (dp @ [show_u64 f]) \<noteq> [] then Some NFSERR_NOTEMPTY else None)"

text \<open>What a deletion that is not refused does; it succeeds when the name is the file's own.\<close>

definition deletes :: "world \<Rightarrow> zip_dir_op_args \<Rightarrow> (thrift_error, unit) outcome \<Rightarrow> world \<Rightarrow> bool" where
  "deletes w a r w' \<longleftrightarrow> (\<exists>dp f. entry_of (h_disk w) (da_dir a) (da_filename a) = Inr (dp, f)
     \<and> ready w' \<and> w_name_lock w' = w_name_lock w \<and> view (h_disk w') = (view (h_disk w))(f := None)
     \<and> (if da_filename a \<in> names_at (h_disk w) dp (show_u64 f) then r = Ok () else \<exists>e. r = Err e))"

lemma children_dir_nonempty:
  assumes "h_faults w = []" "is_dir_at (h_disk w) (dp @ [show_u64 f])" "children (h_disk w) (dp @ [show_u64 f]) \<noteq> []"
  shows "fs_delete_obj dp f nm False w = (Err (nfs_error NFSERR_NOTEMPTY), w)"
proof -
  have "dirents_sys w = (Ok (), w)" using assms(1) by (simp add: dirents_sys_def sysM_calm)
  then show ?thesis using assms by (simp add: fs_delete_obj_def Let_def monad_simps calm)
qed

lemma remove_calm:
  assumes doc: "regex_documented E" and w: "ready w" and plain: "plain_name (da_filename a)"
  shows "case remove_error (h_disk w) a of
      Some t \<Rightarrow> \<exists>c. handle_remove E a w = (Err (nfs_error t), w\<lparr>w_fid_cache := c\<rparr>) \<and> ready (w\<lparr>w_fid_cache := c\<rparr>)
    | None \<Rightarrow> \<exists>r w'. handle_remove E a w = (r, w') \<and> deletes w a r w'"
proof -
  let ?d = "h_disk w"
  obtain c where c: "ready (w\<lparr>w_fid_cache := c\<rparr>)"
    "handle_remove E a w = (case entry_of ?d (da_dir a) (da_filename a) of Inl t \<Rightarrow> nfsM t
       | Inr (dp, f) \<Rightarrow> bindM (fs_is_dir (dp @ [show_u64 f])) (\<lambda>isd.
               if isd then nfsM NFSERR_ISDIR
               else fs_delete_obj dp f (da_filename a) True)) (w\<lparr>w_fid_cache := c\<rparr>)"
    unfolding handle_remove_def by (rule entry_calm [OF doc w plain])
  let ?w = "w\<lparr>w_fid_cache := c\<rparr>"
  show ?thesis
  proof (cases "entry_of ?d (da_dir a) (da_filename a)")
    case (Inl t)
    then show ?thesis using c by (auto simp: nfsM_apply remove_error_def)
  next
    case (Inr pf)
    obtain dp f where pf: "pf = (dp, f)" by (cases pf)
    note e = entry_ofD [OF readyD(5) [OF w] Inr [unfolded pf]]
    let ?q = "dp @ [show_u64 f]"
    have isd: "(fs_is_dir ?q :: (world, thrift_error, bool) M) ?w = (Ok (is_dir_at ?d ?q), ?w)"
      using read_calls_calm(1) [of ?w ?q] readyD(2) [OF c(1)] by simp
    show ?thesis
    proof (cases "is_dir_at ?d ?q")
      case True
      then show ?thesis using c Inr pf isd by (auto simp: remove_error_def bindM_apply nfsM_apply)
    next
      case False
      then have "is_file_at ?d ?q"
        using e(5) by (auto simp: vchild_iff is_dir_at_def is_file_at_def split: option.splits obj.splits)
      then obtain r w' where "fs_delete_obj dp f (da_filename a) True ?w = (r, w')" "ready w'"
          "w_name_lock w' = w_name_lock w" "view (h_disk w') = (view ?d)(f := None)"
          "if da_filename a \<in> names_at ?d dp (show_u64 f) then r = Ok () else \<exists>e. r = Err e"
        using delete_obj_calm [OF c(1), of dp f True "da_filename a"] e(2,5) by auto
      then show ?thesis
        using c Inr pf isd False by (auto simp: remove_error_def deletes_def bindM_apply)
    qed
  qed
qed

lemma rmdir_calm:
  assumes doc: "regex_documented E" and w: "ready w" and plain: "plain_name (da_filename a)"
  shows "case rmdir_error (h_disk w) a of
      Some t \<Rightarrow> \<exists>c. handle_rmdir E a w = (Err (nfs_error t), w\<lparr>w_fid_cache := c\<rparr>) \<and> ready (w\<lparr>w_fid_cache := c\<rparr>)
    | None \<Rightarrow> \<exists>r w'. handle_rmdir E a w = (r, w') \<and> deletes w a r w'"
proof -
  let ?d = "h_disk w"
  obtain c where c: "ready (w\<lparr>w_fid_cache := c\<rparr>)"
    "handle_rmdir E a w = (case entry_of ?d (da_dir a) (da_filename a) of Inl t \<Rightarrow> nfsM t
       | Inr (dp, f) \<Rightarrow> bindM (fs_is_dir (dp @ [show_u64 f])) (\<lambda>isd.
               if \<not> isd then nfsM NFSERR_NOTDIR
               else fs_delete_obj dp f (da_filename a) False)) (w\<lparr>w_fid_cache := c\<rparr>)"
    unfolding handle_rmdir_def by (rule entry_calm [OF doc w plain])
  let ?w = "w\<lparr>w_fid_cache := c\<rparr>"
  show ?thesis
  proof (cases "entry_of ?d (da_dir a) (da_filename a)")
    case (Inl t)
    then show ?thesis using c by (auto simp: nfsM_apply rmdir_error_def)
  next
    case (Inr pf)
    obtain dp f where pf: "pf = (dp, f)" by (cases pf)
    note e = entry_ofD [OF readyD(5) [OF w] Inr [unfolded pf]]
    let ?q = "dp @ [show_u64 f]"
    have isd: "(fs_is_dir ?q :: (world, thrift_error, bool) M) ?w = (Ok (is_dir_at ?d ?q), ?w)"
      using read_calls_calm(1) [of ?w ?q] readyD(2) [OF c(1)] by simp
    show ?thesis
    proof (cases "is_dir_at ?d ?q")
      case False
      then show ?thesis using c Inr pf isd by (auto simp: rmdir_error_def bindM_apply nfsM_apply)
    next
      case dir: True
      show ?thesis
      proof (cases "children ?d ?q = []")
        case False
        then show ?thesis
          using c Inr pf isd dir children_dir_nonempty [of ?w dp f "da_filename a"] readyD(2) [OF c(1)]
          by (auto simp: rmdir_error_def bindM_apply)
      next
        case True
        then obtain r w' where "fs_delete_obj dp f (da_filename a) False ?w = (r, w')" "ready w'"
            "w_name_lock w' = w_name_lock w" "view (h_disk w') = (view ?d)(f := None)"
            "if da_filename a \<in> names_at ?d dp (show_u64 f) then r = Ok () else \<exists>e. r = Err e"
          using delete_obj_calm [OF c(1), of dp f False "da_filename a"] e(2,5) dir by auto
        then show ?thesis
          using c Inr pf isd dir True by (auto simp: rmdir_error_def deletes_def bindM_apply)
      qed
    qed
  qed
qed

end
