(* ===== verification/Moves.thy ===== *)
theory Moves
  imports Updates
begin

text \<open>
  RENAME when nothing fails: when it is refused and with what error, and what a client sees
  after it; the name lock is released on each of these branches.
\<close>

definition rename_error :: "world \<Rightarrow> zip_rename_args \<Rightarrow> zip_error_type option" where
  "rename_error w a =
     (case (fid_path (h_disk w) (da_dir (rn_old_loc a)), fid_path (h_disk w) (da_dir (rn_new_loc a))) of
        (Some od, Some nd) \<Rightarrow>
          (case find_name (h_disk w) od (da_filename (rn_old_loc a)) of
             None \<Rightarrow> Some NFSERR_NOENT
           | Some f \<Rightarrow>
               if (nd, da_filename (rn_new_loc a)) \<in> w_name_lock w
                 \<or> find_name (h_disk w) nd (da_filename (rn_new_loc a)) \<noteq> None
               then Some NFSERR_EXIST else None)
      | _ \<Rightarrow> Some NFSERR_STALE)"

text \<open>
  The host can carry out the move: the new name fits in a directory entry, and a directory
  is not moved below itself.
\<close>

definition can_move :: "disk \<Rightarrow> path \<Rightarrow> path \<Rightarrow> fid \<Rightarrow> string \<Rightarrow> string \<Rightarrow> bool" where
  "can_move d od nd f old new \<longleftrightarrow> name_fits f new \<and> \<not> prefix (od @ [show_u64 f]) nd
     \<and> old \<in> names_at d od (show_u64 f)"

lemma named_is_file:
  assumes "names_ok d" "under_root dp" "map_of d (dp @ [show_u64 f @ CHR ''.'' # nm]) = Some ob"
  shows "is_file_at d (dp @ [show_u64 f @ CHR ''.'' # nm])"
proof -
  have "under_root (dp @ [show_u64 f @ CHR ''.'' # nm])" using assms(2) by (auto simp: under_root_def)
  then show ?thesis using names_okD [OF assms(1,3)] by fastforce
qed

lemma create_named_calm:
  assumes nf: "h_faults w = []" and wf: "wf_store (h_disk w)" and dir: "is_dir_at (h_disk w) nd"
    and ur: "under_root nd" and fits: "name_fits f new"
  shows "\<exists>d1. file_create_sys (nd @ [show_u64 f @ ''.'' @ new]) w = (Ok (), w\<lparr>h_disk := d1\<rparr>)
    \<and> name_added (h_disk w) nd f new d1"
proof -
  let ?q = "nd @ [show_u64 f @ ''.'' @ new]" and ?d = "h_disk w"
  obtain d1 where d1: "k_create (h_clock w) ?q ?d = Inr ((), d1)"
  proof (cases "map_of ?d ?q")
    case None
    then show ?thesis
      using that dir comp_err_fits(2) [OF fits] by (auto simp: k_create_def k_new_def exists_at_def)
  next
    case (Some ob)
    then have "is_file_at ?d ?q"
      using named_is_file [of ?d nd f new ob] wf ur by (simp add: wf_store_def)
    then show ?thesis using that Some by (auto simp: k_create_def is_file_at_iff)
  qed
  then show ?thesis
    using file_create_adds [OF wf d1] by (auto simp: file_create_sys_def sysM_calm [OF nf])
qed

lemma rename_step_calm:
  assumes nf: "h_faults w = []" and wf: "wf_store (h_disk w)" and od: "vpath (h_disk w) od"
    and nd: "vpath (h_disk w) nd" "is_dir_at (h_disk w) nd" and vis: "vchild (h_disk w) od (show_u64 f)"
    and below: "fids_below n (h_disk w)" and fits: "name_fits f new"
    and can: "\<not> prefix (od @ [show_u64 f]) nd" and add: "name_added (h_disk w) nd f new d1"
    and w1: "h_disk w1 = d1" "h_faults w1 = []"
  shows "\<exists>d2. rename_sys (od @ [show_u64 f]) (nd @ [show_u64 f]) w1 = (Ok (), w1\<lparr>h_disk := d2\<rparr>)
    \<and> k_rename (od @ [show_u64 f]) (nd @ [show_u64 f]) d1 = Inr ((), d2)"
proof -
  let ?d = "h_disk w" and ?a = "od @ [show_u64 f]" and ?b = "nd @ [show_u64 f]"
  note ok = name_added_ok [OF wf below fids_below_vchild [OF below od vis] nd(1) add]
  obtain oa where oa: "map_of d1 ?a = Some oa" using vis ok(4) [of ?a] by (auto simp: vchild_iff)
  have ne: "od \<noteq> []" "nd \<noteq> []" using od nd by auto
  have dir1: "is_dir_at d1 nd"
    using nd ok(4) [of nd] vpath_last_numbered [OF nd(1)] by (simp add: is_dir_at_iff)
  note comp = comp_err_fits(1) [OF fits, of d1 nd]
  have "\<exists>d2. k_rename ?a ?b d1 = Inr ((), d2)"
  proof (cases "od = nd")
    case True
    then show ?thesis using oa dir1 comp ne by (simp add: k_rename_def)
  next
    case False
    have "map_of d1 ?b = None"
      using other_dir_absent [OF wf od nd(1) vis False] ok(4) [of ?b] by simp
    moreover have "\<not> prefix ?a ?b" using can False by simp
    ultimately show ?thesis using oa dir1 comp ne False by (simp add: k_rename_def)
  qed
  then show ?thesis using w1 by (auto simp: rename_sys_def sysM_calm)
qed

text \<open>The move, from the state in which the new name is locked\<close>

lemma rename_move_calm:
  assumes w: "ready w" and od: "fid_path (h_disk w) (da_dir (rn_old_loc a)) = Some od"
    and nd: "fid_path (h_disk w) (da_dir (rn_new_loc a)) = Some nd" "is_dir_at (h_disk w) nd"
    and vis: "vchild (h_disk w) od (show_u64 f)"
    and can: "can_move (h_disk w) od nd f (da_filename (rn_old_loc a)) (da_filename (rn_new_loc a))"
    and on: "od = nd \<Longrightarrow> da_filename (rn_old_loc a) \<noteq> da_filename (rn_new_loc a)"
    and locked: "(nd, da_filename (rn_new_loc a)) \<in> w_name_lock w"
  shows "\<exists>w'. rename_move a od nd f w = (Ok (), w') \<and> ready w'
    \<and> w_name_lock w' = w_name_lock w - {(nd, da_filename (rn_new_loc a))}
    \<and> view (h_disk w') = rename_done (h_disk w) od nd f (da_filename (rn_old_loc a)) (da_filename (rn_new_loc a))"
proof -
  let ?d = "h_disk w" and ?old = "da_filename (rn_old_loc a)" and ?new = "da_filename (rn_new_loc a)"
  let ?a = "od @ [show_u64 f]" and ?b = "nd @ [show_u64 f]" and ?c = "w_fid_cache w"
  note wf = readyD(5) [OF w] and below = readyD(10) [OF w] and nf = readyD(2) [OF w]
  have fits: "name_fits f ?new" "\<not> prefix ?a nd" "?old \<in> names_at ?d od (show_u64 f)"
    using can by (simp_all add: can_move_def)
  have vod: "vpath ?d od" "last od = show_u64 (da_dir (rn_old_loc a))" using od fid_path_Some [OF wf] by auto
  have vnd: "vpath ?d nd" "last nd = show_u64 (da_dir (rn_new_loc a))" using nd fid_path_Some [OF wf] by auto
  have ur: "under_root od" "under_root nd" "od \<noteq> []" using vod vnd vpath_under_root by auto
  obtain d1 where d1: "file_create_sys (nd @ [show_u64 f @ ''.'' @ ?new]) w = (Ok (), w\<lparr>h_disk := d1\<rparr>)"
      "name_added ?d nd f ?new d1"
    using create_named_calm [OF nf wf nd(2) ur(2) fits(1)] by blast
  define w1 where "w1 = w\<lparr>h_disk := d1\<rparr>"
  have nf1: "h_faults w1 = []" using nf by (simp add: w1_def)
  obtain d2 where d2: "rename_sys ?a ?b w1 = (Ok (), w1\<lparr>h_disk := d2\<rparr>)" "k_rename ?a ?b d1 = Inr ((), d2)"
    using rename_step_calm [OF nf wf vod(1) vnd(1) nd(2) vis below fits(1,2) d1(2) _ nf1] by (auto simp: w1_def)
  define w2 where "w2 = w\<lparr>h_disk := d2, w_fid_cache := AList.update f (da_dir (rn_new_loc a)) ?c\<rparr>"
  have live: "\<not> w_cache_poisoned w" using readyD(3) [OF w] .
  have old: "g = da_dir (rn_old_loc a)" if g: "map_of ?c f = Some g" for g
  proof -
    have va: "vpath ?d ?a" using vod(1) vis ur(3) vpath_snoc by blast
    have "view ?d f = Some (file_at ?d ?a)" by (rule view_path [OF wf va]) simp
    moreover obtain v where "view ?d f = Some v" "nf_parent v = show_u64 g"
      using readyD(8) [OF w] g cache_ok_view [OF wf] by blast
    ultimately show ?thesis using vod(2) ur(3) by (simp add: file_at_def show_u64_inj)
  qed
  have lk: "rename_locked a od nd f w1 = (Ok (), w2)"
    unfolding rename_locked_def Let_def under_cache_lock_def
    using d2(1) nf live old
    by (auto simp: w1_def w2_def bindM_apply attemptM_apply thenM_apply assertM_apply retM_apply
        cache_insert_def calm split: option.split)
  define w3 where "w3 = w2\<lparr>w_name_lock := w_name_lock w - {(nd, ?new)}\<rparr>"
  have ul: "(unlock_name (nd, ?new) :: (world, thrift_error, unit) M) w2 = (Ok (), w3)"
    using locked by (simp add: unlock_name_def w2_def w3_def)
  have file2: "is_file_at d2 (od @ [show_u64 f @ CHR ''.'' # ?old])"
  proof (cases "od = nd")
    case False
    obtain ob where "map_of ?d (od @ [show_u64 f @ CHR ''.'' # ?old]) = Some ob"
      using fits(3) by (auto simp: in_names_at)
    then show ?thesis
      using named_is_file [OF readyD(7) [OF w] ur(1)]
        rename_moves(5) [OF wf below vod(1) vnd(1) vis False d1(2) d2(2), of ?old]
      by (simp add: is_file_at_iff)
  next
    case True
    obtain ob where "map_of ?d (od @ [show_u64 f @ CHR ''.'' # ?old]) = Some ob"
      using fits(3) by (auto simp: in_names_at)
    moreover have "map_of d1 (od @ [show_u64 f @ CHR ''.'' # ?old]) = map_of ?d (od @ [show_u64 f @ CHR ''.'' # ?old])"
      using d1(2) on [OF True] True by (auto simp: name_added_def add_named_def)
    moreover have "d2 = d1" using k_rename_map [OF d2(2)] True by simp
    ultimately show ?thesis
      using named_is_file [OF readyD(7) [OF w] ur(1)] by (simp add: is_file_at_iff)
  qed
  define d3 where "d3 = AList.delete (od @ [show_u64 f @ CHR ''.'' # ?old]) d2"
  define w4 where "w4 = w3\<lparr>h_disk := d3\<rparr>"
  have rm: "remove_file_sys (od @ [show_u64 f @ CHR ''.'' # ?old]) w3 = (Ok (), w4)"
    using unlink_calm [of w3] file2 nf by (simp add: w4_def w3_def w2_def d3_def)
  have unl: "k_unlink (od @ [show_u64 f @ CHR ''.'' # ?old]) d2 = Inr ((), d3)"
    using file2 by (auto simp: k_unlink_def is_file_at_iff d3_def)
  note cl = rename_cleans [OF wf below vod(1) vnd(1) vis d1(2) on d2(2) unl]
  have op: "open_sys nd w = (Ok (), w)"
    using nd(2) nf by (auto simp: open_sys_def sysM_calm k_open_def is_dir_at_iff)
  have run: "rename_move a od nd f w = (Ok (), w4)"
    unfolding rename_move_def Let_def
    using op d1(1) lk ul rm nf1
    by (simp add: thenM_apply bindM_apply unwrapM_apply attemptM_apply ioM_apply calm w1_def)
  have par: "nf_parent v = show_u64 (da_dir (rn_new_loc a))"
    if "rename_done ?d od nd f ?old ?new f = Some v" for v
    using that vnd(2) vod(2) ur(3) by (auto simp: rename_done_def file_at_def split: if_splits)
  obtain v where v: "rename_done ?d od nd f ?old ?new = (view ?d)(f \<mapsto> v)"
    unfolding rename_done_def by (metis (full_types))
  have "cache_ok d3 (AList.update f (da_dir (rn_new_loc a)) ?c)"
    using cache_ok_upd [OF wf cl(1) readyD(8) [OF w], of f v "da_dir (rn_new_loc a)"] cl(3) v par [of v] by simp
  then have "ready w4"
    using w cl by (simp add: ready_def server_ok_def w4_def w3_def w2_def)
  then show ?thesis using run cl(3) by (auto simp: w4_def w3_def w2_def)
qed

lemma rename_calm:
  assumes doc: "regex_documented E" and w: "ready w"
    and plain: "plain_name (da_filename (rn_old_loc a))" "plain_name (da_filename (rn_new_loc a))"
    and dirs: "\<And>nd. fid_path (h_disk w) (da_dir (rn_old_loc a)) = Some nd \<Longrightarrow> is_dir_at (h_disk w) nd"
      "\<And>nd. fid_path (h_disk w) (da_dir (rn_new_loc a)) = Some nd \<Longrightarrow> is_dir_at (h_disk w) nd"
  shows "case rename_error w a of
      Some t \<Rightarrow> \<exists>w'. handle_rename E a w = (Err (nfs_error t), w') \<and> ready w'
        \<and> w_name_lock w' = w_name_lock w \<and> view (h_disk w') = view (h_disk w)
    | None \<Rightarrow> \<exists>od nd f. fid_path (h_disk w) (da_dir (rn_old_loc a)) = Some od
        \<and> fid_path (h_disk w) (da_dir (rn_new_loc a)) = Some nd
        \<and> find_name (h_disk w) od (da_filename (rn_old_loc a)) = Some f
        \<and> (can_move (h_disk w) od nd f (da_filename (rn_old_loc a)) (da_filename (rn_new_loc a)) \<longrightarrow>
            (\<exists>w'. handle_rename E a w = (Ok (), w') \<and> ready w' \<and> w_name_lock w' = w_name_lock w
              \<and> view (h_disk w') = rename_done (h_disk w) od nd f
                   (da_filename (rn_old_loc a)) (da_filename (rn_new_loc a))))"
proof -
  let ?d = "h_disk w" and ?old = "da_filename (rn_old_loc a)" and ?new = "da_filename (rn_new_loc a)"
  note wf = readyD(5) [OF w]
  obtain c1 where c1: "ready (w\<lparr>w_fid_cache := c1\<rparr>)"
    "handle_rename E a w = (case fid_path ?d (da_dir (rn_old_loc a)) of None \<Rightarrow> nfsM NFSERR_STALE
     | Some old_loc_dpath \<Rightarrow>
     bindM (strM (fs_find_by_fid E (da_dir (rn_new_loc a)))) (\<lambda>new_loc_dpath.
     case new_loc_dpath of None \<Rightarrow> nfsM NFSERR_STALE | Some new_loc_dpath \<Rightarrow>
     bindM (strM (fs_find_by_name E old_loc_dpath ?old)) (\<lambda>fid. case fid of
       None \<Rightarrow> nfsM NFSERR_NOENT
     | Some fid \<Rightarrow>
         let name = (new_loc_dpath, ?new) in
         bindM (lock_name name) (\<lambda>locked.
         if \<not> locked then nfsM NFSERR_EXIST
         else bindM (attemptM (fs_find_by_name E new_loc_dpath ?new)) (\<lambda>already. case already of
             Inl e \<Rightarrow> thenM (unlock_name name) (errM (ThriftApplication e))
           | Inr (Some _) \<Rightarrow> thenM (unlock_name name) (nfsM NFSERR_EXIST)
           | Inr None \<Rightarrow> rename_move a old_loc_dpath new_loc_dpath fid))))) (w\<lparr>w_fid_cache := c1\<rparr>)"
    unfolding handle_rename_def by (rule resolve_calm [OF doc w])
  show ?thesis
  proof (cases "fid_path ?d (da_dir (rn_old_loc a))")
    case None
    then show ?thesis using c1 by (auto simp: rename_error_def nfsM_apply)
  next
    case od: (Some od)
    let ?k = "\<lambda>new_loc_dpath. case new_loc_dpath of None \<Rightarrow> nfsM NFSERR_STALE | Some new_loc_dpath \<Rightarrow>
     bindM (strM (fs_find_by_name E od ?old)) (\<lambda>fid. case fid of
       None \<Rightarrow> nfsM NFSERR_NOENT
     | Some fid \<Rightarrow>
         let name = (new_loc_dpath, ?new) in
         bindM (lock_name name) (\<lambda>locked.
         if \<not> locked then nfsM NFSERR_EXIST
         else bindM (attemptM (fs_find_by_name E new_loc_dpath ?new)) (\<lambda>already. case already of
             Inl e \<Rightarrow> thenM (unlock_name name) (errM (ThriftApplication e))
           | Inr (Some _) \<Rightarrow> thenM (unlock_name name) (nfsM NFSERR_EXIST)
           | Inr None \<Rightarrow> rename_move a od new_loc_dpath fid)))"
    obtain c2 where c2: "ready (w\<lparr>w_fid_cache := c2\<rparr>)"
      "bindM (strM (fs_find_by_fid E (da_dir (rn_new_loc a)))) ?k (w\<lparr>w_fid_cache := c1\<rparr>)
        = ?k (fid_path ?d (da_dir (rn_new_loc a))) (w\<lparr>w_fid_cache := c2\<rparr>)"
      using resolve_calm [OF doc c1(1), of "da_dir (rn_new_loc a)" ?k] by auto
    let ?w = "w\<lparr>w_fid_cache := c2\<rparr>"
    show ?thesis
    proof (cases "fid_path ?d (da_dir (rn_new_loc a))")
      case None
      then show ?thesis using c1(2) c2 od by (auto simp: rename_error_def nfsM_apply)
    next
      case nd: (Some nd)
      note isd = dirs(1) [OF od] dirs(2) [OF nd]
      have v: "vpath ?d od" "vpath ?d nd" using od nd fid_path_Some [OF wf] by auto
      have name1: "fs_find_by_name E od ?old ?w = (Ok (find_name ?d od ?old), ?w)"
        using find_name_calm [OF doc plain(1) c2(1)] v isd by simp
      have name2: "fs_find_by_name E nd ?new (?w\<lparr>w_name_lock := l\<rparr>)
          = (Ok (find_name ?d nd ?new), ?w\<lparr>w_name_lock := l\<rparr>)" for l
        using find_name_calm [OF doc plain(2) ready_lock [OF c2(1)]] v isd by simp
      have start: "handle_rename E a w = ?k (Some nd) ?w" using c1(2) c2(2) od nd by simp
      show ?thesis
      proof (cases "find_name ?d od ?old")
        case None
        then show ?thesis
          using start name1 od nd c2(1) by (auto simp: rename_error_def nfsM_apply bindM_apply strM_apply)
      next
        case f: (Some f)
        let ?l = "insert (nd, ?new) (w_name_lock w)"
        have lock: "(lock_name (nd, ?new) :: (world, thrift_error, bool) M) ?w
            = (Ok ((nd, ?new) \<notin> w_name_lock w), ?w\<lparr>w_name_lock := ?l\<rparr>)" by (simp add: lock_name_def)
        have next_step: "handle_rename E a w = (if (nd, ?new) \<in> w_name_lock w then nfsM NFSERR_EXIST
           else case find_name ?d nd ?new of
             Some _ \<Rightarrow> thenM (unlock_name (nd, ?new)) (nfsM NFSERR_EXIST)
           | None \<Rightarrow> rename_move a od nd f) (?w\<lparr>w_name_lock := ?l\<rparr>)"
          using start name1 f lock name2 [of ?l]
          by (simp add: Let_def bindM_apply strM_apply attemptM_apply split: option.split)
        show ?thesis
        proof (cases "(nd, ?new) \<in> w_name_lock w \<or> find_name ?d nd ?new \<noteq> None")
          case True
          have un: "(unlock_name (nd, ?new) :: (world, thrift_error, unit) M) (?w\<lparr>w_name_lock := ?l\<rparr>)
              = (Ok (), ?w\<lparr>w_name_lock := ?l - {(nd, ?new)}\<rparr>)" by (simp add: unlock_name_def)
          have "rename_error w a = Some NFSERR_EXIST" using True od nd f by (simp add: rename_error_def)
          moreover have "handle_rename E a w = (Err (nfs_error NFSERR_EXIST), ?w)"
            using next_step True un
            by (cases "(nd, ?new) \<in> w_name_lock w") (auto simp: nfsM_apply thenM_apply insert_absorb)
          ultimately show ?thesis using c2(1) by auto
        next
          case False
          have err: "rename_error w a = None" using False od nd f by (simp add: rename_error_def)
          have go: "handle_rename E a w = rename_move a od nd f (?w\<lparr>w_name_lock := ?l\<rparr>)"
            using next_step False by simp
          have on: "od = nd \<Longrightarrow> ?old \<noteq> ?new" using f False by auto
          have "\<exists>w'. handle_rename E a w = (Ok (), w') \<and> ready w' \<and> w_name_lock w' = w_name_lock w
              \<and> view (h_disk w') = rename_done ?d od nd f ?old ?new" if "can_move ?d od nd f ?old ?new"
            using rename_move_calm [OF ready_lock [OF c2(1), of ?l], of a od nd f] go od nd isd that on
              find_name_vchild [OF wf v(1) f] False by auto
          then show ?thesis using err od nd f by simp
        qed
      qed
    qed
  qed
qed

end
