(* ===== verification/Writes.thy ===== *)
theory Writes
  imports Moves
begin

text \<open>
  WRITE and COMMIT when nothing fails: a stable write replaces the bytes at its offset, an
  unstable write is only remembered, and COMMIT applies the remembered writes of a file in
  the order in which they came.
\<close>

section \<open>The temporary file\<close>

definition tmp_ok :: "env \<Rightarrow> disk \<Rightarrow> string \<Rightarrow> bool" where
  "tmp_ok E d s \<longleftrightarrow> comp_err d [''tmp''] (s @ ''_'' @ env_tid E) = None \<and> \<not> is_dir_at d (tmp_path E s)"

definition content_at :: "disk \<Rightarrow> path \<Rightarrow> bytes \<Rightarrow> bool" where
  "content_at d p bs \<longleftrightarrow> (\<exists>st. map_of d p = Some (RegFile st bs))"

lemma stagedD:
  assumes "staged tmp d bs d1" "tmp_name tmp" "under_root p"
  shows "content_at d1 tmp bs" "content_at d1 p b = content_at d p b"
proof -
  show "content_at d1 tmp bs" using assms(1) by (simp add: staged_def content_at_def)
  have "p \<noteq> tmp" using assms(2,3) tmp_not_under by blast
  then show "content_at d1 p b = content_at d p b"
    using assms(1) by (simp add: staged_def aside_def agree_off_def content_at_def)
qed

lemma copy_calm:
  fixes w :: world
  assumes nf: "h_faults w = []" and wf: "wf_store (h_disk w)"
    and src: "content_at (h_disk w) p bs" and ok: "tmp_ok E (h_disk w) s"
  shows "\<exists>d1. copy_sys p (tmp_path E s) w = (Ok (), w\<lparr>h_disk := d1\<rparr>) \<and> staged (tmp_path E s) (h_disk w) bs d1"
proof -
  let ?t = "tmp_path E s" and ?d = "h_disk w"
  obtain st where st: "map_of ?d p = Some (RegFile st bs)" using src by (auto simp: content_at_def)
  have dir: "is_dir_at ?d [''tmp'']" using wf by (simp add: wf_store_def)
  obtain d1 where d1: "k_create (h_clock w) ?t ?d = Inr ((), d1)"
  proof (cases "map_of ?d ?t")
    case None
    then show ?thesis
      using ok dir that by (simp add: k_create_def k_new_def tmp_ok_def exists_at_def tmp_path_def)
  next
    case (Some ob)
    then show ?thesis
      using ok that by (cases ob) (auto simp: k_create_def tmp_ok_def is_dir_at_iff)
  qed
  note s1 = aside_create [OF tmp_path_name aside_refl [OF wf] d1]
  obtain d2 where d2: "k_modify (h_clock w) (\<lambda>_. bs) ?t d1 = Inr ((), d2)"
    using s1 by (auto simp: staged_def k_modify_def)
  have isf: "(fs_is_file p :: (world, io_error, bool) M) w = (Ok True, w)"
    using calm(2) [OF nf, of p] st by (simp add: is_file_at_iff)
  have "copy_sys p ?t w = (Ok (), w\<lparr>h_disk := d2\<rparr>)"
    using nf st d1 d2 isf
    by (simp add: copy_sys_def bindM_apply thenM_apply file_create_sys_def sysM_calm k_content_def)
  then show ?thesis using staged_modify [OF tmp_path_name s1 d2] by auto
qed

lemma write_all_calm:
  assumes nf: "h_faults w = []" and tmp: "tmp_name tmp" and s: "staged tmp d bs (h_disk w)"
  shows "\<exists>d1. write_all_sys tmp off data w = (Ok (), w\<lparr>h_disk := d1\<rparr>) \<and> staged tmp d (write_at (unat off) data bs) d1"
proof (cases "data = []")
  case True
  then show ?thesis using s by (intro exI [of _ "h_disk w"]) (simp add: write_all_sys_def retM_apply)
next
  case False
  obtain d1 where d1: "k_modify (h_clock w) (write_at (unat off) data) tmp (h_disk w) = Inr ((), d1)"
    using s by (auto simp: staged_def k_modify_def)
  then show ?thesis
    using False staged_modify [OF tmp s d1] by (auto simp: write_all_sys_def sysM_calm [OF nf])
qed

lemma replace_calm:
  assumes nf: "h_faults w = []" and ok: "durable_ok d c" and p: "fid_path d f = Some p"
    and old: "content_at d p bs" and tmp: "tmp_name tmp" and s: "staged tmp d new (h_disk w)"
  shows "\<exists>d1. rename_sys tmp p w = (Ok (), w\<lparr>h_disk := d1\<rparr>)
    \<and> durable_ok d1 c \<and> view d1 = (view d)(f \<mapsto> (file_at d p)\<lparr>nf_body := FileBody new\<rparr>)"
proof -
  have wf: "wf_store d" using ok by (simp add: durable_ok_def)
  have vp: "vpath d p" "last p = show_u64 f" using p fid_path_Some [OF wf] by auto
  have ur: "under_root p" using vp(1) by (rule vpath_under_root)
  note at1 = stagedD [OF s tmp ur]
  have ne: "tmp \<noteq> p" "p \<noteq> []" using ur vp(1) tmp_not_under [OF tmp] by auto
  have wf1: "wf_disk (h_disk w)" using s by (simp add: staged_def aside_def wf_store_def)
  have old1: "content_at (h_disk w) p bs" using at1(2) old by simp
  have par: "is_dir_at (h_disk w) (butlast p)"
    using old1 ne wf_disk_parent [OF wf1, of "butlast p" "last p"] by (auto simp: content_at_def)
  have np: "\<not> prefix tmp p" using tmp ur by (auto simp: tmp_name_def under_root_def prefix_def)
  have comp: "comp_err (h_disk w) (butlast p) (last p) = None"
    using show_u64_length [of f] show_u64_digit_set not_digit unfolding vp(2) comp_err_def NAME_MAX_def by fastforce
  have "\<exists>d1. k_rename tmp p (h_disk w) = Inr ((), d1)"
    using at1(1) old1 ne par np comp tmp by (auto simp: k_rename_def content_at_def tmp_name_def)
  then obtain d1 where d1: "k_rename tmp p (h_disk w) = Inr ((), d1)" by blast
  then show ?thesis
    using staged_rename [OF tmp ok p s d1] by (auto simp: rename_sys_def sysM_calm [OF nf])
qed


lemma tmp_calls_calm:
  assumes nf: "h_faults w = []" and s: "staged tmp d bs (h_disk w)"
  shows "open_write_sys tmp w = (Ok (), w)" "sync_sys w = (Ok (), w)"
    "unat off < 2 ^ 63 \<Longrightarrow> seek_sys off w = (Ok (), w)"
  using s by (auto simp: staged_def open_write_sys_def sync_sys_def seek_sys_def sysM_calm [OF nf] k_open_def)

section \<open>Stable writes\<close>

text \<open>A state that differs from \<open>w\<close> in what a client does not see, and in the content of one file\<close>

definition rewritten :: "world \<Rightarrow> fid \<Rightarrow> path \<Rightarrow> bytes \<Rightarrow> world \<Rightarrow> bool" where
  "rewritten w f p bs w' \<longleftrightarrow> ready w' \<and> w_name_lock w' = w_name_lock w \<and> w_epoch w' = w_epoch w
     \<and> view (h_disk w') = (view (h_disk w))(f \<mapsto> (file_at (h_disk w) p)\<lparr>nf_body := FileBody bs\<rparr>)"

lemma rewritten_ready:
  assumes w: "ready w" and p: "fid_path (h_disk w) f = Some p" and c: "cache_ok (h_disk w) c"
    and d1: "durable_ok d1 (w_counter w)"
      "view d1 = (view (h_disk w))(f \<mapsto> (file_at (h_disk w) p)\<lparr>nf_body := FileBody bs\<rparr>)"
  shows "ready (w\<lparr>w_fid_cache := c, h_disk := d1\<rparr>)"
proof -
  have wf: "wf_store (h_disk w)" "wf_store d1" using readyD(5) [OF w] d1(1) by (simp_all add: durable_ok_def)
  have "cache_ok d1 c"
    by (rule cache_ok_upd_same [OF wf c d1(2) view_fid_path [OF p]]) simp
  then show ?thesis
    using w d1(1) by (simp add: ready_def server_ok_def durable_ok_def)
qed

definition write_target :: "disk \<Rightarrow> fid \<Rightarrow> path \<Rightarrow> bytes \<Rightarrow> bool" where
  "write_target d f p bs \<longleftrightarrow> fid_path d f = Some p \<and> content_at d p bs"

lemma stable_write_calm:
  assumes doc: "regex_documented E" and w: "ready w" and at: "write_target (h_disk w) f p bs"
    and tmp: "tmp_ok E (h_disk w) (show_u64 f)"
    and off: "unat off < 2 ^ 63" and len: "length data = unat cnt"
  shows "\<exists>w'. fs_stable_write E f off cnt data w = (Ok cnt, w')
    \<and> rewritten w f p (write_at (unat off) data bs) w'
    \<and> w_async_bufs w' = w_async_bufs w \<and> w_async_heap w' = w_async_heap w"
proof -
  let ?d = "h_disk w" and ?t = "tmp_path E (show_u64 f)" and ?new = "write_at (unat off) data bs"
  have p: "fid_path ?d f = Some p" "content_at ?d p bs" using at by (simp_all add: write_target_def)
  obtain c where c: "cache_ok ?d c" "ready (w\<lparr>w_fid_cache := c\<rparr>)"
    "fs_stable_write E f off cnt data w = (case fid_path ?d f of None \<Rightarrow> nfsM NFSERR_STALE
     | Some fpath_numbered \<Rightarrow>
         let tmp_fpath = ?t in
         thenM (ioM (copy_sys fpath_numbered tmp_fpath)) (
         thenM (ioM (open_write_sys tmp_fpath)) (
         thenM (ioM sync_sys) (
         thenM (ioM (seek_sys off)) (
         thenM (assertM (length data = unat cnt) ''assertion failed: buf.len() == count'') (
         thenM (ioM (write_all_sys tmp_fpath off data)) (
         thenM (ioM sync_sys) (
         thenM (ioM (rename_sys tmp_fpath fpath_numbered)) (
         retM (of_nat (length data)))))))))) ) (w\<lparr>w_fid_cache := c\<rparr>)"
    unfolding fs_stable_write_def by (rule resolve_calm [OF doc w])
  let ?w = "w\<lparr>w_fid_cache := c\<rparr>"
  note nf = readyD(2) [OF w]
  have dur: "durable_ok ?d (w_counter w)" using readyD(1) [OF w] by (rule server_ok_durable)
  obtain d1 where d1: "copy_sys p ?t ?w = (Ok (), ?w\<lparr>h_disk := d1\<rparr>)" "staged ?t ?d bs d1"
    using copy_calm [of ?w p bs E "show_u64 f"] nf readyD(5) [OF w] p tmp by auto
  have nf1: "h_faults (?w\<lparr>h_disk := d\<rparr>) = []" for d using nf by simp
  obtain d2 where d2: "write_all_sys ?t off data (?w\<lparr>h_disk := d1\<rparr>) = (Ok (), ?w\<lparr>h_disk := d2\<rparr>)" "staged ?t ?d ?new d2"
    using write_all_calm [OF nf1 tmp_path_name, of E "show_u64 f" ?d bs d1 off data] d1(2) by auto
  obtain d3 where d3: "rename_sys ?t p (?w\<lparr>h_disk := d2\<rparr>) = (Ok (), ?w\<lparr>h_disk := d3\<rparr>)"
      "durable_ok d3 (w_counter w)" "view d3 = (view ?d)(f \<mapsto> (file_at ?d p)\<lparr>nf_body := FileBody ?new\<rparr>)"
    using replace_calm [OF nf1 dur p tmp_path_name, of E "show_u64 f" ?new d2] d2(2) by auto
  have st1: "staged ?t ?d bs (h_disk (?w\<lparr>h_disk := d1\<rparr>))" "staged ?t ?d ?new (h_disk (?w\<lparr>h_disk := d2\<rparr>))"
    using d1(2) d2(2) by simp_all
  note calls = tmp_calls_calm [OF nf1 st1(1)] tmp_calls_calm [OF nf1 st1(2)]
  have run: "fs_stable_write E f off cnt data w = (Ok cnt, ?w\<lparr>h_disk := d3\<rparr>)"
    using c(3) p(1) d1(1) d2(1) d3(1) calls off len
    by (simp add: Let_def thenM_apply ioM_apply assertM_apply retM_apply)
  have "rewritten w f p ?new (?w\<lparr>h_disk := d3\<rparr>)"
    using rewritten_ready [OF w p(1) c(1) d3(2,3)] d3(3) by (simp add: rewritten_def)
  then show ?thesis using run by auto
qed


text \<open>WRITE with \<^verbatim>\<open>DATA_SYNC\<close> or \<^verbatim>\<open>FILE_SYNC\<close>\<close>

lemma write_stable_calm:
  assumes doc: "regex_documented E" and w: "ready w" and st: "wa_stable a \<noteq> UNSTABLE"
    and at: "write_target (h_disk w) (wa_file a) p bs"
    and tmp: "tmp_ok E (h_disk w) (show_u64 (wa_file a))"
    and off: "unat (wa_offset a) < 2 ^ 63" and len: "length (wa_data a) = unat (wa_count a)"
  shows "\<exists>w'. handle_write E a w =
      (Ok \<lparr>wr_count = wa_count a, wr_committed = FILE_SYNC, wr_verf = w_epoch w\<rparr>, w')
    \<and> rewritten w (wa_file a) p (write_at (unat (wa_offset a)) (wa_data a) bs) w'"
proof -
  obtain w' where w': "fs_stable_write E (wa_file a) (wa_offset a) (wa_count a) (wa_data a) w = (Ok (wa_count a), w')"
      "rewritten w (wa_file a) p (write_at (unat (wa_offset a)) (wa_data a) bs) w'"
    using stable_write_calm [OF doc w at tmp off len] by blast
  then show ?thesis
    using st len
    by (cases "wa_stable a")
       (auto simp: handle_write_def bindM_apply thenM_apply assertM_apply retM_apply getsM_apply rewritten_def)
qed

section \<open>Unstable writes\<close>

text \<open>No two files share a buffer, and new buffers get new addresses.\<close>

definition async_ok :: "world \<Rightarrow> bool" where
  "async_ok w \<longleftrightarrow> list_all (\<lambda>(f, a). a < w_async_next w) (w_async_bufs w)
     \<and> distinct (map fst (w_async_bufs w)) \<and> distinct (map snd (w_async_bufs w))"

lemma async_okD:
  assumes "async_ok w" "map_of (w_async_bufs w) f = Some a"
  shows "a < w_async_next w" "map_of (w_async_bufs w) g = Some a \<Longrightarrow> g = f"
proof -
  have f: "(f, a) \<in> set (w_async_bufs w)" using assms(2) by (rule map_of_SomeD)
  then show "a < w_async_next w" using assms(1) by (auto simp: async_ok_def list_all_iff)
  assume "map_of (w_async_bufs w) g = Some a"
  then have g: "(g, a) \<in> set (w_async_bufs w)" by (rule map_of_SomeD)
  have "inj_on snd (set (w_async_bufs w))" using assms(1) by (simp add: async_ok_def distinct_map)
  then show "g = f" using f g by (metis inj_onD prod.inject snd_conv)
qed

lemma async_ok_update:
  assumes ok: "async_ok w" and none: "map_of (w_async_bufs w) f = None"
    and w': "w_async_bufs w' = AList.update f (w_async_next w) (w_async_bufs w)"
      "w_async_next w' = Suc (w_async_next w)"
  shows "async_ok w'"
proof -
  have "AList.update f n xs = xs @ [(f, n)]" if "map_of xs f = None" for n and xs :: "(fid \<times> nat) list"
    using that by (induction xs) (auto split: if_splits)
  then have b: "w_async_bufs w' = w_async_bufs w @ [(f, w_async_next w)]" using w' none by simp
  have "f \<notin> set (map fst (w_async_bufs w))" using none by (simp add: map_of_eq_None_iff)
  moreover have "w_async_next w \<notin> set (map snd (w_async_bufs w))"
    using ok by (auto simp: async_ok_def list_all_iff)
  ultimately show ?thesis
    using ok by (auto simp: async_ok_def b w'(2) list_all_iff)
qed

lemma async_ok_delete:
  assumes "async_ok w" "w_async_bufs w' = AList.delete f (w_async_bufs w)" "w_async_next w' = w_async_next w"
  shows "async_ok w'"
  using assms by (auto simp: async_ok_def list_all_iff AList.delete_eq distinct_map inj_on_def)

text \<open>
  An unstable write is appended to what is pending for its file; nothing else changes, and
  whether the file exists is not asked.
\<close>

lemma write_unstable_calm:
  assumes st: "wa_stable a = UNSTABLE" and ok: "async_ok w"
    and len: "length (wa_data a) = unat (wa_count a)"
  shows "\<exists>w'. handle_write E a w =
      (Ok \<lparr>wr_count = wa_count a, wr_committed = UNSTABLE, wr_verf = w_epoch w\<rparr>, w')
    \<and> async_ok w'
    \<and> w' = w\<lparr>w_async_bufs := w_async_bufs w', w_async_heap := w_async_heap w', w_async_next := w_async_next w'\<rparr>
    \<and> pending w' = (pending w)(wa_file a := pending w (wa_file a) @ [(wa_offset a, wa_count a, wa_data a)])"
proof (cases "map_of (w_async_bufs w) (wa_file a)")
  case (Some ad)
  have other: "map_of (w_async_bufs w) g \<noteq> Some ad" if "g \<noteq> wa_file a" for g
    using async_okD(2) [OF ok Some] that by blast
  let ?w1 = "w\<lparr>w_async_heap := (w_async_heap w)(ad := w_async_heap w ad @ [(wa_offset a, wa_count a, wa_data a)])\<rparr>"
  have "handle_write E a w =
      (Ok \<lparr>wr_count = wa_count a, wr_committed = UNSTABLE, wr_verf = w_epoch w\<rparr>, ?w1)"
    using st len Some
    by (simp add: handle_write_def get_or_create_async_bufs_def async_lookup_def async_push_def Let_def monad_simps)
  moreover have "async_ok ?w1" using ok by (simp add: async_ok_def)
  moreover have "pending ?w1 = (pending w)(wa_file a := pending w (wa_file a) @ [(wa_offset a, wa_count a, wa_data a)])"
    using Some other by (auto simp: pending_def fun_eq_iff split: option.split)
  ultimately show ?thesis by (intro exI [of _ ?w1]) simp
next
  case None
  let ?n = "w_async_next w"
  have fresh: "map_of (w_async_bufs w) g \<noteq> Some ?n" for g
    using async_okD(1) [OF ok, of g ?n] by auto
  let ?w1 = "w\<lparr>w_async_bufs := AList.update (wa_file a) ?n (w_async_bufs w),
      w_async_heap := (w_async_heap w)(?n := [(wa_offset a, wa_count a, wa_data a)]), w_async_next := Suc ?n\<rparr>"
  have "async_ok ?w1" by (rule async_ok_update [OF ok None]) simp_all
  moreover have "handle_write E a w =
      (Ok \<lparr>wr_count = wa_count a, wr_committed = UNSTABLE, wr_verf = w_epoch w\<rparr>, ?w1)"
    using st len None
    by (simp add: handle_write_def get_or_create_async_bufs_def async_lookup_def async_insert_new_def
        async_push_def Let_def monad_simps)
  moreover have "pending ?w1 = (pending w)(wa_file a := pending w (wa_file a) @ [(wa_offset a, wa_count a, wa_data a)])"
    using None fresh by (auto simp: pending_def fun_eq_iff split: option.split)
  ultimately show ?thesis by (intro exI [of _ ?w1]) simp
qed


section \<open>COMMIT\<close>

definition writes_ok :: "pending_write list \<Rightarrow> bool" where
  "writes_ok ws \<longleftrightarrow> list_all (\<lambda>(off, cnt, buf). unat off < 2 ^ 63 \<and> length buf = unat cnt) ws"

lemma commit_loop_calm:
  assumes nf: "h_faults w = []" and tmp: "tmp_name tmp"
  shows "writes_ok ws \<Longrightarrow> staged tmp d bs d1 \<Longrightarrow>
    \<exists>d2. commit_loop tmp ws (w\<lparr>h_disk := d1\<rparr>) = (Ok (), w\<lparr>h_disk := d2\<rparr>) \<and> staged tmp d (apply_writes ws bs) d2"
proof (induction ws arbitrary: bs d1)
  case Nil
  then show ?case by (auto simp: retM_apply apply_writes_def)
next
  case (Cons x ws)
  obtain off cnt buf where x: "x = (off, cnt, buf)" by (cases x)
  have ok: "unat off < 2 ^ 63" "length buf = unat cnt" "writes_ok ws"
    using Cons.prems(1) by (simp_all add: writes_ok_def x)
  have nf1: "h_faults (w\<lparr>h_disk := d1\<rparr>) = []" using nf by simp
  obtain d2 where d2: "write_all_sys tmp off buf (w\<lparr>h_disk := d1\<rparr>) = (Ok (), w\<lparr>h_disk := d2\<rparr>)"
      "staged tmp d (write_at (unat off) buf bs) d2"
    using write_all_calm [OF nf1 tmp, of d bs off buf] Cons.prems(2) by auto
  obtain d3 where d3: "commit_loop tmp ws (w\<lparr>h_disk := d2\<rparr>) = (Ok (), w\<lparr>h_disk := d3\<rparr>)"
      "staged tmp d (apply_writes ws (write_at (unat off) buf bs)) d3"
    using Cons.IH [OF ok(3) d2(2)] by blast
  have "seek_sys off (w\<lparr>h_disk := d1\<rparr>) = (Ok (), w\<lparr>h_disk := d1\<rparr>)"
    using tmp_calls_calm(3) [OF nf1, of tmp d bs off] Cons.prems(2) ok(1) by simp
  then show ?case
    using d2(1) d3 ok(2) by (auto simp: x thenM_apply ioM_apply assertM_apply apply_writes_def)
qed

text \<open>COMMIT with nothing pending changes nothing; the buffer is gone afterwards in both cases.\<close>

lemma commit_calm:
  assumes doc: "regex_documented E" and w: "ready w" and ok: "async_ok w"
    and at: "write_target (h_disk w) (cm_file a) p bs"
    and tmp: "tmp_ok E (h_disk w) (show_i64 (cm_file a))" and ws: "writes_ok (pending w (cm_file a))"
  shows "\<exists>w'. handle_commit E a w = (Ok (w_epoch w), w') \<and> async_ok w'
    \<and> rewritten w (cm_file a) p (apply_writes (pending w (cm_file a)) bs) w'
    \<and> pending w' = (pending w)(cm_file a := [])"
proof -
  let ?d = "h_disk w" and ?f = "cm_file a" and ?t = "tmp_path E (show_i64 (cm_file a))"
  let ?ws = "pending w (cm_file a)" and ?new = "apply_writes (pending w (cm_file a)) bs"
  have p: "fid_path ?d ?f = Some p" "content_at ?d p bs" using at by (simp_all add: write_target_def)
  let ?k = "\<lambda>fpath_numbered. case fpath_numbered of None \<Rightarrow> nfsM NFSERR_STALE
     | Some fpath_numbered \<Rightarrow>
         bindM (async_remove ?f) (\<lambda>to_write.
         case to_write of
           None \<Rightarrow> getsM w_epoch
         | Some unlocked \<Rightarrow>
             bindM (async_read unlocked) (\<lambda>pending.
             if pending = [] then getsM w_epoch
             else
               let tmp_fpath = ?t in
               thenM (ioM (copy_sys fpath_numbered tmp_fpath)) (
               thenM (ioM (open_write_sys tmp_fpath)) (
               thenM (ioM sync_sys) (
               bindM (async_drain unlocked) (\<lambda>drained.
               thenM (commit_loop tmp_fpath drained) (
               thenM (ioM sync_sys) (
               thenM (ioM (rename_sys tmp_fpath fpath_numbered)) (
               getsM w_epoch)))))))))"
  obtain c where c: "cache_ok ?d c" "ready (w\<lparr>w_fid_cache := c\<rparr>)"
    "handle_commit E a w = ?k (fid_path ?d ?f) (w\<lparr>w_fid_cache := c\<rparr>)"
    unfolding handle_commit_def by (rule resolve_calm [OF doc w])
  have same: "(view ?d)(?f \<mapsto> (file_at ?d p)\<lparr>nf_body := FileBody bs\<rparr>) = view ?d"
    using view_fid_path [OF p(1)] p(2) by (auto simp: file_at_def content_at_def fun_eq_iff)
  show ?thesis
  proof (cases "map_of (w_async_bufs w) ?f")
    case None
    then have ws0: "?ws = []" by (simp add: pending_def)
    have del: "AList.delete ?f (w_async_bufs w) = w_async_bufs w" using None by (simp add: delete_absent)
    show ?thesis
      using c p(1) None ws0 same ok
      by (auto simp: bindM_apply async_remove_def getsM_apply del rewritten_def apply_writes_def
          async_ok_def pending_def fun_eq_iff split: option.split)
  next
    case (Some ad)
    have other: "map_of (w_async_bufs w) g \<noteq> Some ad" if "g \<noteq> ?f" for g
      using async_okD(2) [OF ok Some] that by blast
    have ws': "?ws = w_async_heap w ad" using Some by (simp add: pending_def)
    let ?w0 = "w\<lparr>w_fid_cache := c, w_async_bufs := AList.delete ?f (w_async_bufs w)\<rparr>"
    have aok: "async_ok w'" if "w_async_bufs w' = AList.delete ?f (w_async_bufs w)" "w_async_next w' = w_async_next w" for w'
      by (rule async_ok_delete [OF ok that])
    have pend: "pending w' = (pending w)(?f := [])"
      if "w_async_bufs w' = AList.delete ?f (w_async_bufs w)" "\<And>x. x \<noteq> ad \<Longrightarrow> w_async_heap w' x = w_async_heap w x" for w'
    proof
      fix g
      show "pending w' g = ((pending w)(?f := [])) g"
        using that(1) that(2) other [of g]
        by (cases "g = ?f"; cases "map_of (w_async_bufs w) g") (auto simp: pending_def)
    qed
    show ?thesis
    proof (cases "?ws = []")
      case True
      have "handle_commit E a w = (Ok (w_epoch w), ?w0)"
        using c(3) p(1) Some True ws' by (simp add: bindM_apply async_remove_def async_read_def getsM_apply)
      moreover have "rewritten w ?f p ?new ?w0"
        using c(2) True same by (simp add: rewritten_def apply_writes_def ready_def server_ok_def)
      ultimately show ?thesis using aok [of ?w0] pend [of ?w0] by auto
    next
      case False
      note nf = readyD(2) [OF w]
      have dur: "durable_ok ?d (w_counter w)" using readyD(1) [OF w] by (rule server_ok_durable)
      obtain d1 where d1: "copy_sys p ?t ?w0 = (Ok (), ?w0\<lparr>h_disk := d1\<rparr>)" "staged ?t ?d bs d1"
        using copy_calm [of ?w0 p bs E "show_i64 ?f"] nf readyD(5) [OF w] p tmp by auto
      let ?w1 = "?w0\<lparr>w_async_heap := (w_async_heap w)(ad := [])\<rparr>"
      have nf1: "h_faults (?w0\<lparr>h_disk := d\<rparr>) = []" "h_faults (?w1\<lparr>h_disk := d\<rparr>) = []" "h_faults ?w1 = []" for d
        using nf by simp_all
      obtain d2 where d2: "commit_loop ?t ?ws (?w1\<lparr>h_disk := d1\<rparr>) = (Ok (), ?w1\<lparr>h_disk := d2\<rparr>)" "staged ?t ?d ?new d2"
        using commit_loop_calm [OF nf1(3) tmp_path_name ws d1(2)] by blast
      obtain d3 where d3: "rename_sys ?t p (?w1\<lparr>h_disk := d2\<rparr>) = (Ok (), ?w1\<lparr>h_disk := d3\<rparr>)"
          "durable_ok d3 (w_counter w)" "view d3 = (view ?d)(?f \<mapsto> (file_at ?d p)\<lparr>nf_body := FileBody ?new\<rparr>)"
        using replace_calm [OF nf1(2) dur p tmp_path_name, of E "show_i64 ?f" ?new d2] d2(2) by auto
      have st1: "staged ?t ?d bs (h_disk (?w0\<lparr>h_disk := d1\<rparr>))" "staged ?t ?d ?new (h_disk (?w1\<lparr>h_disk := d2\<rparr>))"
        using d1(2) d2(2) by simp_all
      note calls = tmp_calls_calm(1,2) [OF nf1(1) st1(1)] tmp_calls_calm(2) [OF nf1(2) st1(2)]
      have swap: "?w0\<lparr>h_disk := d1, w_async_heap := (w_async_heap w)(ad := [])\<rparr> = ?w1\<lparr>h_disk := d1\<rparr>" by simp
      have loop: "commit_loop ?t ?ws (?w0\<lparr>h_disk := d1, w_async_heap := (w_async_heap w)(ad := [])\<rparr>)
          = (Ok (), ?w1\<lparr>h_disk := d2\<rparr>)" unfolding swap by (rule d2(1))
      have run: "handle_commit E a w = (Ok (w_epoch w), ?w1\<lparr>h_disk := d3\<rparr>)"
        using c(3) p(1) Some False ws' d1(1) loop d3(1) calls
        by (simp add: bindM_apply async_remove_def async_read_def async_drain_def Let_def thenM_apply
            ioM_apply getsM_apply)
      have r: "ready (w\<lparr>w_fid_cache := c, h_disk := d3\<rparr>)"
        by (rule rewritten_ready [OF w p(1) c(1) d3(2,3)])
      then have "rewritten w ?f p ?new (?w1\<lparr>h_disk := d3\<rparr>)"
        using d3(3) by (simp add: rewritten_def ready_def server_ok_def)
      then show ?thesis using run aok [of "?w1\<lparr>h_disk := d3\<rparr>"] pend [of "?w1\<lparr>h_disk := d3\<rparr>"] by auto
    qed
  qed
qed

end
