(* ===== verification/Sessions.thy ===== *)
theory Sessions
  imports Epochs Writes
begin

text \<open>
  The client's calls on the invariant of the epoch protocol, over any server that keeps the
  laws of the locale: WRITE, the resending of the buffer, COMMIT, and whole sessions.
\<close>

section \<open>The laws\<close>

locale epoch_server =
  fixes R :: "'w rpc" and abst :: "'w \<Rightarrow> srv" and good :: "'w \<Rightarrow> bool" and f :: fid and K :: nat
  assumes loss_bound: "good w \<Longrightarrow> sv_losses (abst w) \<le> K"
    and null_law: "good w \<Longrightarrow> good (snd (rpc_null R w))
      \<and> answers (\<lambda>e. request_done id e (abst w) (abst (snd (rpc_null R w))))
          (request_lost id (abst w) (abst (snd (rpc_null R w)))) (fst (rpc_null R w))
      \<and> (\<forall>e. fst (rpc_null R w) = Err e \<longrightarrow> cut_off (fst (rpc_null R w)))"
    and write_law: "good w \<Longrightarrow> writes_ok [(off, cnt, data)] \<Longrightarrow>
      a = \<lparr>wa_file = f, wa_offset = off, wa_count = cnt, wa_data = data, wa_stable = UNSTABLE\<rparr> \<Longrightarrow>
      good (snd (rpc_write R a w))
      \<and> answers (\<lambda>res. wr_count res = cnt
            \<and> request_done (got (off, cnt, data)) (wr_verf res) (abst w) (abst (snd (rpc_write R a w))))
          (request_lost (got (off, cnt, data)) (abst w) (abst (snd (rpc_write R a w)))) (fst (rpc_write R a w))
      \<and> (\<forall>e. fst (rpc_write R a w) = Err e \<longrightarrow> cut_off (fst (rpc_write R a w)))"
    and commit_law: "good w \<Longrightarrow> c = \<lparr>cm_file = f, cm_count = 0, cm_offset = 0\<rparr> \<Longrightarrow>
      good (snd (rpc_commit R c w))
      \<and> answers (\<lambda>e. request_done committed e (abst w) (abst (snd (rpc_commit R c w))))
          (request_lost committed (abst w) (abst (snd (rpc_commit R c w)))) (fst (rpc_commit R c w))
      \<and> (\<forall>e. fst (rpc_commit R c w) = Err e \<longrightarrow> cut_off (fst (rpc_commit R c w)))"
    and new_law: "good w \<Longrightarrow> good (rpc_new_client R w) \<and> abst (rpc_new_client R w) = abst w"

text \<open>What the client knows of a server in the state \<open>w\<close>\<close>

definition knows ::
  "('w \<Rightarrow> srv) \<Rightarrow> ('w \<Rightarrow> bool) \<Rightarrow> bytes \<Rightarrow> pending_write list \<Rightarrow> pending_write list \<Rightarrow> u64 \<Rightarrow> nat \<Rightarrow> 'w \<Rightarrow> bool" where
  "knows abst good base ws us e N w \<longleftrightarrow> good w \<and> history base ws us e (abst w) \<and> surprises e (abst w) \<le> N"

definition settled :: "('w \<Rightarrow> srv) \<Rightarrow> ('w \<Rightarrow> bool) \<Rightarrow> bytes \<Rightarrow> u64 \<Rightarrow> nat \<Rightarrow> 'w \<Rightarrow> bool" where
  "settled abst good base e N w \<longleftrightarrow> knows abst good base [] [] e N w"

lemma settled_content: "settled abst good base e N w \<Longrightarrow> sv_content (abst w) = base"
  by (auto simp: settled_def knows_def history_def)

lemma restarts_knows:
  assumes "history base ws us e a" "surprises e a \<le> N" "restarts a b"
  shows "history base ws us e b" "surprises e b \<le> N"
  using history_restarts [OF assms(1,3)] surprises_restarts [OF assms(3) history_epoch [OF assms(1)]] assms(2)
  by simp_all

text \<open>A request that takes what the server got from \<open>us\<close> to \<open>us'\<close>\<close>

definition advances :: "bytes \<Rightarrow> pending_write list \<Rightarrow> u64 \<Rightarrow> pending_write list \<Rightarrow> pending_write list \<Rightarrow> (srv \<Rightarrow> srv) \<Rightarrow> bool" where
  "advances base ws e us us' g \<longleftrightarrow>
     (\<forall>m. history base ws us e m \<longrightarrow> history base ws us' e (g m)) \<and>
     (\<forall>m. surprises e (g m) = surprises e m \<and> sv_epoch (g m) = sv_epoch m)"

lemma lost_knows:
  assumes k: "knows abst good base ws us e N w" and l: "request_lost g (abst w) (abst w')"
    and w': "good w'" and g: "advances base ws e us us' g"
  shows "knows abst good base ws us e N w' \<or> knows abst good base ws us' e N w'"
  using l [unfolded request_lost_def, THEN conjunct2] unfolding request_done_def
proof (elim disjE exE conjE)
  assume "restarts (abst w) (abst w')"
  then show ?thesis using k w' restarts_knows [where us = us] unfolding knows_def by blast
next
  fix v m assume m: "restarts (abst w) m" "restarts (g m) (abst w')"
  have "history base ws us e m" "surprises e m \<le> N"
    using k restarts_knows [OF _ _ m(1)] unfolding knows_def by blast+
  then have "history base ws us' e (g m)" "surprises e (g m) \<le> N" using g by (simp_all add: advances_def)
  then show ?thesis using restarts_knows [OF _ _ m(2)] w' unfolding knows_def by blast
qed

lemma done_knows:
  assumes k: "knows abst good base ws us e N w" and l: "request_done g v (abst w) (abst w')"
    and w': "good w'" and g: "advances base ws e us us' g"
  shows "knows abst good base ws us' e N w'" "e \<le> v"
    "v \<noteq> e \<Longrightarrow> \<exists>N' < N. knows abst good base ws [] v N' w'"
proof -
  obtain m where m: "restarts (abst w) m" "v = sv_epoch m" "restarts (g m) (abst w')"
    using l unfolding request_done_def by blast
  have hm: "history base ws us e m" "surprises e m \<le> N"
    using k restarts_knows [OF _ _ m(1)] unfolding knows_def by blast+
  then have gm: "history base ws us' e (g m)" "surprises e (g m) \<le> N" "sv_epoch (g m) = v"
    using g m(2) by (simp_all add: advances_def)
  show k': "knows abst good base ws us' e N w'"
    using restarts_knows [OF gm(1,2) m(3)] w' unfolding knows_def by blast
  show "e \<le> v" using history_epoch [OF hm(1)] m(2) by simp
  assume ne: "v \<noteq> e"
  have "v \<le> sv_epoch (abst w')" using m(3) gm(3) by (auto simp: restarts_def)
  then have "history base ws [] v (abst w')" using k' history_anew unfolding knows_def by blast
  moreover have "surprises v (abst w') < N"
    using surprises_new [OF m(3), of e] gm ne by simp
  ultimately show "\<exists>N' < N. knows abst good base ws [] v N' w'"
    using w' unfolding knows_def by blast
qed

lemma lost_less: "request_lost g a b \<Longrightarrow> sv_losses b < sv_losses a"
  by (simp add: request_lost_def)

lemma advances_got: "x \<in> set ws \<Longrightarrow> advances base ws e us (us @ [x]) (got x)"
  by (simp add: advances_def history_got)

lemma advances_again: "x \<in> set ws \<Longrightarrow> advances base ws e (us @ [x]) (us @ [x]) (got x)"
  by (simp add: advances_def history_got_again)

lemma advances_commit: "advances base ws e us us committed"
  by (simp add: advances_def history_committed)

lemma advances_id: "advances base ws e us us id"
  by (simp add: advances_def)

lemma knows_good: "knows abst good base ws us e N w \<Longrightarrow> good w"
  by (simp add: knows_def)

text \<open>A commit that was carried out at the epoch the client knows\<close>

lemma commit_settles:
  assumes k: "knows abst good base ws ws e N w" and l: "request_done committed e (abst w) (abst w')" and w': "good w'"
  shows "settled abst good (apply_writes ws base) e N w'"
proof -
  obtain m where m: "restarts (abst w) m" "e = sv_epoch m" "restarts (committed m) (abst w')"
    using l unfolding request_done_def by blast
  have hm: "history base ws ws e m" "surprises e m \<le> N"
    using k restarts_knows [OF _ _ m(1)] unfolding knows_def by blast+
  have "history (apply_writes ws base) [] [] e (committed m)"
    using history_commit_all [OF hm(1) m(2) [symmetric]] m(2) by (simp add: history_def)
  moreover have "surprises e (committed m) \<le> N" using hm(2) by simp
  ultimately show ?thesis
    using restarts_knows [OF _ _ m(3)] w' unfolding settled_def knows_def by blast
qed

definition buffered :: "fid \<Rightarrow> 'w fuse \<Rightarrow> pending_write list" where
  "buffered f s = (case map_of (fs_bufs s) f of None \<Rightarrow> [] | Some ws \<Rightarrow> ws)"

definition sendable :: "pending_write list \<Rightarrow> bool" where
  "sendable ws \<longleftrightarrow> writes_ok ws \<and> (\<forall>(off, cnt, data) \<in> set ws. length data \<le> MAX_BUF_LEN)"

lemma sendable_append [simp]: "sendable (ws @ ws') \<longleftrightarrow> sendable ws \<and> sendable ws'"
  by (simp add: sendable_def writes_ok_def ball_Un) blast

lemma sendableD:
  assumes "sendable ws"
  shows "writes_ok ws" "\<forall>(off, cnt, data) \<in> set ws. length data \<le> MAX_BUF_LEN"
  using assms by (simp_all add: sendable_def)

lemma sendable_Nil [simp]: "sendable []"
  by (simp add: sendable_def writes_ok_def)

text \<open>The client's side of a session: all that is buffered is acknowledged.\<close>

definition holds ::
  "('w \<Rightarrow> srv) \<Rightarrow> ('w \<Rightarrow> bool) \<Rightarrow> fid \<Rightarrow> bytes \<Rightarrow> pending_write list \<Rightarrow> nat \<Rightarrow> 'w fuse \<Rightarrow> bool" where
  "holds abst good f base ws N s \<longleftrightarrow>
     knows abst good base ws ws (fs_epoch s) N (fs_remote s) \<and> buffered f s = ws \<and> sendable ws"

text \<open>
  A session: \<^verbatim>\<open>init\<close>, the writes of an application to the file, and the \<^verbatim>\<open>flush\<close> of its
  \<^verbatim>\<open>close\<close>, which ends at the first call that fails
\<close>

fun write_calls :: "'w rpc \<Rightarrow> nat \<Rightarrow> fid \<Rightarrow> (u64 \<times> bytes) list \<Rightarrow> ('w fuse, c_int, unit) M" where
  "write_calls R fuel f [] = retM ()"
| "write_calls R fuel f ((off, data) # ops) = thenM (fuse_write R fuel f off data) (write_calls R fuel f ops)"

definition session :: "'w rpc \<Rightarrow> nat \<Rightarrow> fid \<Rightarrow> (u64 \<times> bytes) list \<Rightarrow> ('w fuse, c_int, unit) M" where
  "session R fuel f ops = thenM (fuse_init R) (thenM (write_calls R fuel f ops) (fuse_flush R fuel f))"

definition ops_ok :: "(u64 \<times> bytes) list \<Rightarrow> bool" where
  "ops_ok ops \<longleftrightarrow> list_all (\<lambda>(off, data). unat off + length data < 2 ^ 63) ops"

definition all_pieces :: "(u64 \<times> bytes) list \<Rightarrow> pending_write list" where
  "all_pieces ops = concat (map (\<lambda>(off, data). pieces off data) ops)"

definition written :: "(u64 \<times> bytes) list \<Rightarrow> bytes \<Rightarrow> bytes" where
  "written ops bs = fold (\<lambda>(off, data). write_at (unat off) data) ops bs"

lemma all_pieces_written: "ops_ok ops \<Longrightarrow> apply_writes (all_pieces ops) bs = written ops bs"
  by (induction ops arbitrary: bs) (auto simp: all_pieces_def written_def ops_ok_def apply_pieces)

lemma fuel_enough: "k \<le> L \<Longrightarrow> N * Suc L + L < fuel \<Longrightarrow> N * Suc k + (k - pos) < (fuel :: nat)"
  using mult_le_mono2 [of "Suc k" "Suc L" N] by linarith

context epoch_server
begin

text \<open>A request that is sent until it gets an answer, where a loss is an error only the fifth time\<close>

lemma retry_rule:
  assumes step: "\<And>w. P w \<Longrightarrow> answers (\<lambda>v. Q v (snd (rpc w)))
      (P (snd (rpc w)) \<and> sv_losses (abst (snd (rpc w))) < sv_losses (abst w)) (fst (rpc w))"
    and cut: "\<And>w e. good w \<Longrightarrow> fst (rpc w) = Err e \<Longrightarrow> cut_off (fst (rpc w))"
    and new: "\<And>w. P w \<Longrightarrow> P (rpc_new_client R w)" and good: "\<And>w. P w \<Longrightarrow> good w"
    and P: "P (fs_remote s)" and call: "do_with_retry R rpc s = (r, s')"
  shows "same_client s s'" "answers (\<lambda>v. Q v (fs_remote s')) (P (fs_remote s') \<and> MAX_TRIES \<le> K) r"
proof -
  let ?P = "\<lambda>i w. P w \<and> sv_losses (abst w) + i \<le> K"
  have st: "answers (\<lambda>v. Q v (snd (rpc w))) (?P (Suc i) (snd (rpc w))) (fst (rpc w))" if "?P i w" for i w
    using that by (intro answers_mono [OF step [of w]]) auto
  have ct: "cut_off (fst (rpc w))" if "?P i w" "fst (rpc w) = Err e" for i w e
    using that cut [OF good] by blast
  have nw: "?P i (rpc_new_client R w)" if "?P i w" for i w
    using that new new_law [OF good] by simp
  have P0: "?P 0 (fs_remote s)" using P loss_bound [OF good] by simp
  show "same_client s s'"
    by (rule do_with_retry_rule(1) [where P = ?P and Q = Q, OF _ _ _ P0 call]; (erule st | erule (1) ct | erule nw))
  have "answers (\<lambda>v. Q v (fs_remote s')) (?P MAX_TRIES (fs_remote s')) r"
    by (rule do_with_retry_rule(2) [where P = ?P and Q = Q, OF _ _ _ P0 call]; (erule st | erule (1) ct | erule nw))
  then show "answers (\<lambda>v. Q v (fs_remote s')) (P (fs_remote s') \<and> MAX_TRIES \<le> K) r"
    by (rule answers_mono) auto
qed

lemma knows_new: "knows abst good base ws us e N w \<Longrightarrow> knows abst good base ws us e N (rpc_new_client R w)"
  by (simp add: knows_def new_law)

lemma write_part_rule:
  assumes k: "knows abst good base ws us (fs_epoch s) N (fs_remote s)"
    and x: "(off, cnt, data) \<in> set ws" "writes_ok [(off, cnt, data)]" "length data \<le> MAX_BUF_LEN"
    and run: "write_part R f off data UNSTABLE s = (r, s')"
  shows "same_client s s'"
    "answers (\<lambda>v. fs_epoch s \<le> v
        \<and> (v = fs_epoch s \<longrightarrow> knows abst good base ws (us @ [(off, cnt, data)]) v N (fs_remote s'))
        \<and> (v \<noteq> fs_epoch s \<longrightarrow> (\<exists>N' < N. knows abst good base ws [] v N' (fs_remote s'))))
      (good (fs_remote s') \<and> MAX_TRIES \<le> K) r"
proof -
  let ?x = "(off, cnt, data)" and ?e = "fs_epoch s"
  let ?a = "\<lparr>wa_file = f, wa_offset = off, wa_count = cnt, wa_data = data, wa_stable = UNSTABLE\<rparr>"
  let ?P = "\<lambda>w. knows abst good base ws us ?e N w \<or> knows abst good base ws (us @ [?x]) ?e N w"
  let ?Q = "\<lambda>res w. wr_count res = cnt \<and> ?e \<le> wr_verf res
      \<and> (wr_verf res = ?e \<longrightarrow> knows abst good base ws (us @ [?x]) ?e N w)
      \<and> (wr_verf res \<noteq> ?e \<longrightarrow> (\<exists>N' < N. knows abst good base ws [] (wr_verf res) N' w))"
  have cnt: "length data = unat cnt" using x(2) by (simp add: writes_ok_def)
  have step: "answers (\<lambda>v. ?Q v (snd (rpc_write R ?a w))) 
      (?P (snd (rpc_write R ?a w)) \<and> sv_losses (abst (snd (rpc_write R ?a w))) < sv_losses (abst w)) (fst (rpc_write R ?a w))"
    if P: "?P w" for w
  proof -
    obtain us1 where k1: "knows abst good base ws us1 ?e N w" "advances base ws ?e us1 (us @ [?x]) (got ?x)"
        "us1 = us \<or> us1 = us @ [?x]"
      using P advances_got [OF x(1)] advances_again [OF x(1)] by blast
    note law = write_law [OF knows_good [OF k1(1)] x(2) refl]
    let ?w' = "snd (rpc_write R ?a w)"
    show ?thesis
    proof (rule answers_mono [OF conjunct1 [OF conjunct2 [OF law]]])
      fix res assume r: "wr_count res = cnt \<and> request_done (got ?x) (wr_verf res) (abst w) (abst ?w')"
      note d = done_knows [OF k1(1) conjunct2 [OF r] conjunct1 [OF law] k1(2)]
      show "?Q res ?w'" using d(1) d(2) d(3) r by blast
    next
      assume lost: "request_lost (got ?x) (abst w) (abst ?w')"
      from lost_knows [OF k1(1) lost conjunct1 [OF law] k1(2)] show "?P ?w' \<and> sv_losses (abst ?w') < sv_losses (abst w)" using k1(3) lost_less [OF lost] by blast
    qed
  qed
  have new: "?P (rpc_new_client R w)" if "?P w" for w
    using that knows_new by blast
  obtain r1 s1 where call: "do_with_retry R (rpc_write R ?a) s = (r1, s1)"
    by (cases "do_with_retry R (rpc_write R ?a) s")
  have "?P (fs_remote s)" using k by simp
  note P = this
  have ct: "cut_off (fst (rpc_write R ?a w))" if "good w" "fst (rpc_write R ?a w) = Err e" for w e
    using write_law [OF that(1) x(2) refl] that(2) by blast
  have rule: "same_client s s1" "answers (\<lambda>v. ?Q v (fs_remote s1)) (?P (fs_remote s1) \<and> MAX_TRIES \<le> K) r1"
    by (rule retry_rule [where P = ?P and Q = ?Q, OF _ _ _ _ P call];
        (erule step | erule new | erule (1) ct | blast dest: knows_good))+
  have part: "write_part R f off data UNSTABLE s =
      bind_out r1 s1 (\<lambda>result. thenM (assertM (unat (wr_count result) = length data) ''assertion failed'')
        (retM (wr_verf result)))"
    using x(3) call cnt by (simp add: write_part_def Let_def bindM_apply min_absorb1)
  have "same_client s s' \<and> answers (\<lambda>v. ?e \<le> v
        \<and> (v = ?e \<longrightarrow> knows abst good base ws (us @ [?x]) v N (fs_remote s'))
        \<and> (v \<noteq> ?e \<longrightarrow> (\<exists>N' < N. knows abst good base ws [] v N' (fs_remote s'))))
      (good (fs_remote s') \<and> MAX_TRIES \<le> K) r"
  proof (cases r1)
    case (Ok res)
    from rule(2) have Q: "?Q res (fs_remote s1)" unfolding Ok answers.simps .
    have "wr_count res = cnt" using Q by (rule conjunct1)
    then have "r = Ok (wr_verf res)" "s' = s1" using part run Ok cnt by (simp_all add: monad_simps)
    then show ?thesis using rule(1) Q by simp
  next
    case (Err e)
    from rule(2) have "?P (fs_remote s1) \<and> MAX_TRIES \<le> K" unfolding Err answers.simps .
    then have "good (fs_remote s1) \<and> MAX_TRIES \<le> K" by (auto dest: knows_good)
    moreover have "r = Err e" "s' = s1" using part run Err by simp_all
    ultimately show ?thesis using rule(1) by simp
  qed (use rule(2) in \<open>simp_all only: answers.simps\<close>)
  then show "same_client s s'" and "answers (\<lambda>v. ?e \<le> v
        \<and> (v = ?e \<longrightarrow> knows abst good base ws (us @ [?x]) v N (fs_remote s'))
        \<and> (v \<noteq> ?e \<longrightarrow> (\<exists>N' < N. knows abst good base ws [] v N' (fs_remote s'))))
      (good (fs_remote s') \<and> MAX_TRIES \<le> K) r" by simp_all
qed


text \<open>The loop that sends the buffer: the rounds it still needs\<close>

lemma epoch_loop_rule:
  assumes ws: "writes_ok ws" "\<forall>(off, cnt, data) \<in> set ws. length data \<le> MAX_BUF_LEN"
  shows "knows abst good base ws (take pos ws) (fs_epoch s) N (fs_remote s) \<Longrightarrow> pos \<le> length ws \<Longrightarrow>
    N * Suc (length ws) + (length ws - pos) < n \<Longrightarrow> epoch_loop R n f ws pos s = (r, s') \<Longrightarrow>
    fs_bufs s' = fs_bufs s
    \<and> answers (\<lambda>_. knows abst good base ws ws (fs_epoch s') N (fs_remote s')) (good (fs_remote s') \<and> MAX_TRIES \<le> K) r"
proof (induction n arbitrary: pos s N)
  case (Suc n)
  show ?case
  proof (cases "pos < length ws")
    case False
    then show ?thesis using Suc.prems by (auto simp: retM_apply)
  next
    case True
    obtain off cnt data where x: "ws ! pos = (off, cnt, data)" by (cases "ws ! pos")
    have mem: "(off, cnt, data) \<in> set ws" using x True by (metis nth_mem)
    have ok: "writes_ok [(off, cnt, data)]" "length data \<le> MAX_BUF_LEN" "length data = unat cnt"
      using mem ws by (auto simp: writes_ok_def list_all_iff)
    obtain r1 s1 where call: "write_part R f off data UNSTABLE s = (r1, s1)"
      by (cases "write_part R f off data UNSTABLE s")
    note part = write_part_rule [OF Suc.prems(1) mem ok(1,2) call]
    have bufs: "fs_bufs s1 = fs_bufs s" "fs_epoch s1 = fs_epoch s" using part(1) by (simp_all add: same_client_def)
    show ?thesis
    proof (cases r1)
      case (Err e)
      then show ?thesis
        using Suc.prems(4) True x ok(3) call part(2) bufs by (auto simp: monad_simps)
    next
      case (Ok v)
      then have v: "fs_epoch s \<le> v"
          "v = fs_epoch s \<Longrightarrow> knows abst good base ws (take (Suc pos) ws) v N (fs_remote s1)"
          "v \<noteq> fs_epoch s \<Longrightarrow> \<exists>N' < N. knows abst good base ws [] v N' (fs_remote s1)"
        using part(2) x by (auto simp: take_Suc_conv_app_nth [OF True])
      show ?thesis
      proof (cases "v = fs_epoch s")
        case same: True
        then have "epoch_loop R n f ws (Suc pos) s1 = (r, s')"
          using Suc.prems(4) True x ok(3) call Ok v(1) bufs(2) by (simp add: monad_simps)
        moreover have "N * Suc (length ws) + (length ws - Suc pos) < n" using Suc.prems(3) True by linarith
        ultimately show ?thesis
          using Suc.IH [of "Suc pos" s1 N] v(2) [OF same] same True bufs by simp
      next
        case new: False
        obtain N' where N': "N' < N" "knows abst good base ws [] v N' (fs_remote s1)" using v(3) [OF new] by blast
        have "epoch_loop R n f ws 0 (s1\<lparr>fs_epoch := v\<rparr>) = (r, s')"
          using Suc.prems(4) True x ok(3) call Ok v(1) bufs(2) new by (simp add: monad_simps)
        moreover have "N' * Suc (length ws) + (length ws - 0) < n"
        proof -
          have "Suc N' * Suc (length ws) \<le> N * Suc (length ws)" using N'(1) by (intro mult_le_mono1) simp
          then show ?thesis using Suc.prems(3) by simp
        qed
        ultimately have "fs_bufs s' = fs_bufs s1
            \<and> answers (\<lambda>_. knows abst good base ws ws (fs_epoch s') N' (fs_remote s')) (good (fs_remote s') \<and> MAX_TRIES \<le> K) r"
          using Suc.IH [of 0 "s1\<lparr>fs_epoch := v\<rparr>" N'] N'(2) by simp
        then show ?thesis
          using N'(1) bufs(1) by (auto elim!: answers_mono simp: knows_def)
      qed
    qed (use part(2) in simp_all)
  qed
qed simp

text \<open>One piece of a write\<close>

lemma write_async_part_rule:
  assumes h: "holds abst good f base ws N s" and x: "sendable [(off, cnt, data)]"
    and L: "length ws < L" "N * Suc L + L < fuel"
    and run: "write_async_part R fuel f off cnt data s = (r, s')"
  shows "answers (\<lambda>_. holds abst good f base (ws @ [(off, cnt, data)]) N s') (good (fs_remote s') \<and> MAX_TRIES \<le> K) r"
proof -
  let ?ws = "ws @ [(off, cnt, data)]"
  let ?s = "s\<lparr>fs_bufs := AList.update f ?ws (fs_bufs s)\<rparr>"
  have k: "knows abst good base ?ws (take (length ws) ?ws) (fs_epoch ?s) N (fs_remote ?s)"
    using h history_mono [of base ws ws "fs_epoch s" _ ?ws] by (auto simp: holds_def knows_def)
  have ok: "sendable ?ws" using h x by (simp add: holds_def)
  obtain r1 s1 where call: "epoch_loop R fuel f ?ws (length ws) ?s = (r1, s1)"
    by (cases "epoch_loop R fuel f ?ws (length ws) ?s")
  have loop: "fs_bufs s1 = fs_bufs ?s
      \<and> answers (\<lambda>_. knows abst good base ?ws ?ws (fs_epoch s1) N (fs_remote s1)) (good (fs_remote s1) \<and> MAX_TRIES \<le> K) r1"
    using epoch_loop_rule [OF sendableD [OF ok] k _ _ call] fuel_enough [of "length ?ws" L N fuel "length ws"] L
    by simp
  have "write_async_part R fuel f off cnt data s = bind_out r1 s1 (\<lambda>_. retM cnt)"
    using h call
    by (simp add: write_async_part_def write_async_handle_epochs_def monad_simps holds_def buffered_def Let_def)
  then show ?thesis
    using run loop h x by (cases r1) (auto simp: retM_apply holds_def buffered_def)
qed

lemma write_loop_rule:
  assumes "holds abst good f base ws N s" and "unat (off + sent) + length data < 2 ^ 63"
    and "length ws + length (pieces (off + sent) data) \<le> L" "N * Suc L + L < fuel"
    and "write_loop R fuel f off sent data s = (r, s')"
  shows "answers (\<lambda>_. holds abst good f base (ws @ pieces (off + sent) data) N s') (good (fs_remote s') \<and> MAX_TRIES \<le> K) r"
  using assms
proof (induction data arbitrary: sent ws s rule: length_induct)
  case (1 data)
  show ?case
  proof (cases "data = []")
    case True
    then show ?thesis using "1.prems" by (auto simp: write_loop.simps pieces.simps retM_apply)
  next
    case False
    define n where "n = min (length data) MAX_BUF_LEN"
    have n: "0 < n" "n \<le> length data" "n \<le> MAX_BUF_LEN" "unat (of_nat n :: u64) = n"
      using False "1.prems"(2) by (auto simp: n_def MAX_BUF_LEN_def unat_of_nat)
    have off': "unat (off + sent + of_nat n) = unat (off + sent) + n"
      using "1.prems"(2) n by (subst unat_add_lem [THEN iffD1]) simp_all
    let ?x = "(off + sent, of_nat n :: u64, take n data)"
    have pc: "pieces (off + sent) data = ?x # pieces (off + sent + of_nat n) (drop n data)"
      using False by (simp add: pieces.simps [of "off + sent" data] n_def Let_def)
    have x: "sendable [?x]"
      using "1.prems"(2) n by (simp add: sendable_def writes_ok_def min_absorb2)
    obtain r1 s1 where call: "write_async_part R fuel f (off + sent) (of_nat n) (take n data) s = (r1, s1)"
      by (cases "write_async_part R fuel f (off + sent) (of_nat n) (take n data) s")
    have part: "answers (\<lambda>_. holds abst good f base (ws @ [?x]) N s1) (good (fs_remote s1) \<and> MAX_TRIES \<le> K) r1"
      using write_async_part_rule [OF "1.prems"(1) x _ "1.prems"(4) call] "1.prems"(3) by (simp add: pc)
    have run: "write_loop R fuel f off sent data s =
        bind_out r1 s1 (\<lambda>_. write_loop R fuel f off (sent + of_nat n) (drop n data))"
      using False call
      by (cases r1) (simp_all add: write_loop.simps [of R fuel f off sent data] n_def Let_def monad_simps ASYNC_WRITES_def)
    show ?thesis
    proof (cases r1)
      case (Ok u)
      have "write_loop R fuel f off (sent + of_nat n) (drop n data) s1 = (r, s')"
        using run Ok "1.prems"(5) by simp
      then have "answers (\<lambda>_. holds abst good f base ((ws @ [?x]) @ pieces (off + (sent + of_nat n)) (drop n data)) N s')
          (good (fs_remote s') \<and> MAX_TRIES \<le> K) r"
        using "1.IH" [rule_format, of "drop n data" "ws @ [?x]" s1 "sent + of_nat n"] part Ok "1.prems"(2-4) n off'
        by (simp add: pc add.assoc)
      then show ?thesis by (simp add: pc add.assoc)
    qed (use part run "1.prems"(5) in simp_all)
  qed
qed

text \<open>COMMIT\<close>

lemma commit_part_rule:
  assumes k: "knows abst good base ws ws (fs_epoch s) N (fs_remote s)"
    and call: "do_with_retry R (rpc_commit R \<lparr>cm_file = f, cm_count = 0, cm_offset = 0\<rparr>) s = (r, s')"
  shows "same_client s s'"
    "answers (\<lambda>v. fs_epoch s \<le> v
        \<and> (v = fs_epoch s \<longrightarrow> settled abst good (apply_writes ws base) v N (fs_remote s'))
        \<and> (v \<noteq> fs_epoch s \<longrightarrow> (\<exists>N' < N. knows abst good base ws [] v N' (fs_remote s'))))
      (good (fs_remote s') \<and> MAX_TRIES \<le> K) r"
proof -
  let ?e = "fs_epoch s" and ?a = "\<lparr>cm_file = f, cm_count = 0, cm_offset = 0\<rparr>"
  let ?P = "\<lambda>w. knows abst good base ws ws ?e N w"
  let ?Q = "\<lambda>v w. ?e \<le> v \<and> (v = ?e \<longrightarrow> settled abst good (apply_writes ws base) v N w)
        \<and> (v \<noteq> ?e \<longrightarrow> (\<exists>N' < N. knows abst good base ws [] v N' w))"
  have step: "answers (\<lambda>v. ?Q v (snd (rpc_commit R ?a w))) 
      (?P (snd (rpc_commit R ?a w)) \<and> sv_losses (abst (snd (rpc_commit R ?a w))) < sv_losses (abst w)) (fst (rpc_commit R ?a w))"
    if P: "?P w" for w
  proof -
    note law = commit_law [OF knows_good [OF P] refl]
    let ?w' = "snd (rpc_commit R ?a w)"
    show ?thesis
    proof (rule answers_mono [OF conjunct1 [OF conjunct2 [OF law]]])
      fix v assume r: "request_done committed v (abst w) (abst ?w')"
      note d = done_knows [OF P r conjunct1 [OF law] advances_commit]
      show "?Q v ?w'" using d(2,3) commit_settles [OF P _ conjunct1 [OF law]] r by blast
    next
      assume lost: "request_lost committed (abst w) (abst ?w')"
      from lost_knows [OF P lost conjunct1 [OF law] advances_commit] show "?P ?w' \<and> sv_losses (abst ?w') < sv_losses (abst w)" using lost_less [OF lost] by blast
    qed
  qed
  have ct: "cut_off (fst (rpc_commit R ?a w))" if "good w" "fst (rpc_commit R ?a w) = Err e" for w e
    using commit_law [OF that(1) refl] that(2) by blast
  have rule: "same_client s s'" "answers (\<lambda>v. ?Q v (fs_remote s')) (?P (fs_remote s') \<and> MAX_TRIES \<le> K) r"
    by (rule retry_rule [where P = ?P and Q = ?Q, OF _ _ _ _ k call];
        (erule step | erule knows_new | erule (1) ct | erule knows_good))+
  show "same_client s s'" by (rule rule(1))
  show "answers (\<lambda>v. ?Q v (fs_remote s')) (good (fs_remote s') \<and> MAX_TRIES \<le> K) r"
    by (rule answers_mono [OF rule(2)]) (auto dest: knows_good)
qed

lemma commit_retry_rule:
  "knows abst good base ws ws (fs_epoch s) N (fs_remote s) \<Longrightarrow> buffered f s = ws \<Longrightarrow> sendable ws \<Longrightarrow>
    N < n \<Longrightarrow> N * Suc (length ws) + length ws < fuel \<Longrightarrow> commit_retry R n fuel f s = (r, s') \<Longrightarrow>
    answers (\<lambda>_. settled abst good (apply_writes ws base) (fs_epoch s') N (fs_remote s') \<and> buffered f s' = [])
      (good (fs_remote s') \<and> MAX_TRIES \<le> K) r"
proof (induction n arbitrary: s N)
  case (Suc n)
  let ?a = "\<lparr>cm_file = f, cm_count = 0, cm_offset = 0\<rparr>"
  obtain r1 s1 where call: "do_with_retry R (rpc_commit R ?a) s = (r1, s1)"
    by (cases "do_with_retry R (rpc_commit R ?a) s")
  note part = commit_part_rule [OF Suc.prems(1) call]
  have bufs: "fs_bufs s1 = fs_bufs s" "fs_epoch s1 = fs_epoch s" using part(1) by (simp_all add: same_client_def)
  show ?case
  proof (cases r1)
    case (Ok v)
    then have v: "fs_epoch s \<le> v"
        "v = fs_epoch s \<Longrightarrow> settled abst good (apply_writes ws base) v N (fs_remote s1)"
        "v \<noteq> fs_epoch s \<Longrightarrow> \<exists>N' < N. knows abst good base ws [] v N' (fs_remote s1)"
      using part(2) by auto
    show ?thesis
    proof (cases "v = fs_epoch s")
      case True
      then have "(r, s') = (Ok (), s1\<lparr>fs_bufs := AList.delete f (fs_bufs s1)\<rparr>)"
        using Suc.prems(6) call Ok bufs(2) v(1) by (simp add: monad_simps)
      then show ?thesis using v(2) [OF True] True bufs(2) by (simp add: buffered_def)
    next
      case False
      obtain N' where N': "N' < N" "knows abst good base ws [] v N' (fs_remote s1)" using v(3) [OF False] by blast
      let ?s1 = "s1\<lparr>fs_epoch := v\<rparr>"
      obtain r2 s2 where resend: "write_async_handle_epochs R fuel f 0 ?s1 = (r2, s2)"
        by (cases "write_async_handle_epochs R fuel f 0 ?s1")
      have run: "commit_retry R (Suc n) fuel f s = bind_out r2 s2 (\<lambda>_. commit_retry R n fuel f)"
        using call Ok bufs(2) v(1) False resend by (simp add: monad_simps)
      have "N' * Suc (length ws) + length ws < fuel"
        using Suc.prems(5) mult_le_mono1 [of N' N "Suc (length ws)"] N'(1) by linarith
      note fuel' = this
      have sent: "fs_bufs s2 = fs_bufs s
          \<and> answers (\<lambda>_. knows abst good base ws ws (fs_epoch s2) N' (fs_remote s2)) (good (fs_remote s2) \<and> MAX_TRIES \<le> K) r2"
      proof (cases "map_of (fs_bufs s) f")
        case None
        then have "(r2, s2) = (Ok (), ?s1)"
          using resend bufs(1) by (simp add: write_async_handle_epochs_def monad_simps)
        then show ?thesis using N'(2) bufs(1) None Suc.prems(2) by (simp add: buffered_def)
      next
        case (Some ws')
        then have "ws' = ws" using Suc.prems(2) by (simp add: buffered_def)
        then have "epoch_loop R fuel f ws 0 ?s1 = (r2, s2)"
          using resend bufs(1) Some by (simp add: write_async_handle_epochs_def monad_simps)
        from epoch_loop_rule [OF sendableD [OF Suc.prems(3)] _ _ _ this, of base N'] show ?thesis
          using N'(2) bufs(1) fuel' by simp
      qed
      show ?thesis
      proof (cases r2)
        case (Ok u)
        then have k: "knows abst good base ws ws (fs_epoch s2) N' (fs_remote s2)" "buffered f s2 = ws"
          using sent Suc.prems(2) by (simp_all add: buffered_def)
        have "N' < n" using N'(1) Suc.prems(4) by simp
        moreover have "commit_retry R n fuel f s2 = (r, s')" using run Ok Suc.prems(6) by simp
        ultimately have "answers (\<lambda>_. settled abst good (apply_writes ws base) (fs_epoch s') N' (fs_remote s')
            \<and> buffered f s' = []) (good (fs_remote s') \<and> MAX_TRIES \<le> K) r"
          using Suc.IH [OF k Suc.prems(3) _ fuel'] by blast
        then show ?thesis using N'(1) by (auto elim!: answers_mono simp: settled_def knows_def)
      qed (use sent run Suc.prems(6) in \<open>auto simp del: commit_retry.simps\<close>)
    qed
  qed (use part(2) call Suc.prems(6) in \<open>auto simp: monad_simps\<close>)
qed simp

section \<open>Sessions\<close>

lemma write_calls_rule:
  "holds abst good f base ws N s \<Longrightarrow> ops_ok ops \<Longrightarrow> length ws + length (all_pieces ops) \<le> L \<Longrightarrow>
    N * Suc L + L < fuel \<Longrightarrow> write_calls R fuel f ops s = (r, s') \<Longrightarrow>
    answers (\<lambda>_. holds abst good f base (ws @ all_pieces ops) N s') (good (fs_remote s') \<and> MAX_TRIES \<le> K) r"
proof (induction ops arbitrary: ws s)
  case Nil
  then show ?case by (auto simp: all_pieces_def retM_apply)
next
  case (Cons x ops)
  obtain off data where x: "x = (off, data)" by (cases x)
  have ok: "unat off + length data < 2 ^ 63" "ops_ok ops"
    using Cons.prems(2) by (simp_all add: ops_ok_def x)
  have pc: "all_pieces (x # ops) = pieces off data @ all_pieces ops" by (simp add: all_pieces_def x)
  obtain r1 s1 where call: "write_loop R fuel f off 0 data s = (r1, s1)"
    by (cases "write_loop R fuel f off 0 data s")
  have part: "answers (\<lambda>_. holds abst good f base (ws @ pieces off data) N s1) (good (fs_remote s1) \<and> MAX_TRIES \<le> K) r1"
    using write_loop_rule [OF Cons.prems(1) _ _ Cons.prems(4) call] ok Cons.prems(3) by (simp add: pc)
  have run: "write_calls R fuel f (x # ops) s = bind_out r1 s1 (\<lambda>_. write_calls R fuel f ops)"
    using call by (cases r1) (simp_all add: x fuse_write_def monad_simps)
  show ?case
  proof (cases r1)
    case (Ok u)
    then have "write_calls R fuel f ops s1 = (r, s')" using run Cons.prems(5) by simp
    then show ?thesis
      using Cons.IH [of "ws @ pieces off data" s1] part Ok ok Cons.prems(3,4) by (simp add: pc)
  qed (use part run Cons.prems(5) in \<open>auto simp del: write_calls.simps\<close>)
qed

lemma init_rule:
  assumes g: "good (fs_remote s)" and p: "sv_pend (abst (fs_remote s)) = []"
    and run: "fuse_init R s = (r, s')"
  shows "answers (\<lambda>_. settled abst good (sv_content (abst (fs_remote s))) (fs_epoch s')
        (sv_left (abst (fs_remote s)) + 1) (fs_remote s') \<and> fs_bufs s' = fs_bufs s)
      (good (fs_remote s') \<and> MAX_TRIES \<le> K) r"
proof -
  let ?base = "sv_content (abst (fs_remote s))" and ?N = "sv_left (abst (fs_remote s)) + 1"
  let ?P = "\<lambda>w. knows abst good ?base [] [] 0 ?N w"
  let ?Q = "\<lambda>v w. settled abst good ?base v ?N w"
  have k: "?P (fs_remote s)"
    using g p by (simp add: knows_def history_def surprises_def)
  have step: "answers (\<lambda>v. ?Q v (snd (rpc_null R w))) 
      (?P (snd (rpc_null R w)) \<and> sv_losses (abst (snd (rpc_null R w))) < sv_losses (abst w)) (fst (rpc_null R w))"
    if P: "?P w" for w
  proof -
    note law = null_law [OF knows_good [OF P]]
    let ?w' = "snd (rpc_null R w)"
    show ?thesis
    proof (rule answers_mono [OF conjunct1 [OF conjunct2 [OF law]]])
      fix v assume r: "request_done id v (abst w) (abst ?w')"
      note d = done_knows [OF P r conjunct1 [OF law] advances_id]
      show "?Q v ?w'"
        using d(1,3) unfolding settled_def by (cases "v = 0") (auto simp: knows_def)
    next
      assume lost: "request_lost id (abst w) (abst ?w')"
      from lost_knows [OF P lost conjunct1 [OF law] advances_id] show "?P ?w' \<and> sv_losses (abst ?w') < sv_losses (abst w)" using lost_less [OF lost] by blast
    qed
  qed
  obtain r1 s1 where call: "do_with_retry R (rpc_null R) s = (r1, s1)"
    by (cases "do_with_retry R (rpc_null R) s")
  have ct: "cut_off (fst (rpc_null R w))" if "good w" "fst (rpc_null R w) = Err e" for w e
    using null_law [OF that(1)] that(2) by blast
  have rule: "same_client s s1" "answers (\<lambda>v. ?Q v (fs_remote s1)) (?P (fs_remote s1) \<and> MAX_TRIES \<le> K) r1"
    by (rule retry_rule [where P = ?P and Q = ?Q, OF _ _ _ _ k call];
        (erule step | erule knows_new | erule (1) ct | erule knows_good))+
  show ?thesis
    using run call rule
    by (cases r1) (auto simp: fuse_init_def bindM_apply modifyM_apply same_client_def knows_def)
qed

text \<open>
  A session whose calls all succeed leaves the file with every write in place; a session always
  returns, no assertion of the client fails, and it succeeds when fewer than five messages are
  lost.
\<close>

lemma session_rule:
  assumes g: "good w" and p: "sv_pend (abst w) = []" and ops: "ops_ok ops"
    and fuel: "(sv_left (abst w) + 1) * Suc (length (all_pieces ops)) + length (all_pieces ops) < fuel"
    and run: "session R fuel f ops (mounted w) = (r, s')"
  shows "good (fs_remote s')"
    "r = Ok () \<Longrightarrow> sv_content (abst (fs_remote s')) = written ops (sv_content (abst w))"
    "r = Ok () \<or> (\<exists>e. r = Err e) \<and> MAX_TRIES \<le> K"
proof -
  let ?N = "sv_left (abst w) + 1" and ?base = "sv_content (abst w)" and ?ws = "all_pieces ops"
  have N: "?N < fuel" using fuel by simp
  obtain r1 s1 where init: "fuse_init R (mounted w) = (r1, s1)" by (cases "fuse_init R (mounted w)")
  have i: "answers (\<lambda>_. settled abst good ?base (fs_epoch s1) ?N (fs_remote s1) \<and> fs_bufs s1 = [])
      (good (fs_remote s1) \<and> MAX_TRIES \<le> K) r1"
    using init_rule [OF _ _ init] g p by (simp add: mounted_def)
  have "answers (\<lambda>_. settled abst good (written ops ?base) (fs_epoch s') ?N (fs_remote s')) (good (fs_remote s') \<and> MAX_TRIES \<le> K) r"
  proof (cases r1)
    case (Ok u1)
    then have h: "holds abst good f ?base [] ?N s1" using i by (simp add: holds_def settled_def buffered_def)
    obtain r2 s2 where writes: "write_calls R fuel f ops s1 = (r2, s2)" by (cases "write_calls R fuel f ops s1")
    have w: "answers (\<lambda>_. holds abst good f ?base ?ws ?N s2) (good (fs_remote s2) \<and> MAX_TRIES \<le> K) r2"
      using write_calls_rule [OF h ops _ fuel writes] by simp
    have run': "bind_out r2 s2 (\<lambda>_. fuse_flush R fuel f) = (r, s')"
      using run init Ok writes by (simp add: session_def thenM_apply)
    show ?thesis
    proof (cases r2)
      case (Ok u2)
      then have k: "knows abst good ?base ?ws ?ws (fs_epoch s2) ?N (fs_remote s2)" "buffered f s2 = ?ws" "sendable ?ws"
        using w by (simp_all add: holds_def)
      have "commit_retry R fuel fuel f s2 = (r, s')" using run' Ok by (simp add: fuse_flush_def)
      from commit_retry_rule [OF k N fuel this] show ?thesis
        by (auto elim!: answers_mono simp: all_pieces_written [OF ops])
    qed (use w run' in auto)
  qed (use i run init in \<open>auto simp: session_def thenM_apply\<close>)
  then have "good (fs_remote s') \<and> (r = Ok () \<longrightarrow> sv_content (abst (fs_remote s')) = written ops ?base)
      \<and> (r = Ok () \<or> (\<exists>e. r = Err e) \<and> MAX_TRIES \<le> K)"
  proof (cases rule: answers_cases)
    case (Ok v)
    then show ?thesis using settled_content [OF Ok(2)] knows_good by (simp add: settled_def)
  qed simp
  then show "good (fs_remote s')"
    "r = Ok () \<Longrightarrow> sv_content (abst (fs_remote s')) = written ops ?base"
    "r = Ok () \<or> (\<exists>e. r = Err e) \<and> MAX_TRIES \<le> K" by simp_all
qed

end

end
