(* ===== verification/Frames.thy ===== *)
theory Frames
  imports AtomicData PowerCut Writes
begin

text \<open>
  What a request cannot change, under any schedule of faults. A property of the server's state
  is kept by every request of a kind, once it is kept by the few elementary changes that
  requests of that kind are made of; each locale names those changes, and its lemmas go
  through the program once.
\<close>

definition keeps :: "(world \<Rightarrow> bool) \<Rightarrow> (world, 'e, 'a) M \<Rightarrow> bool" where
  "keeps I m \<longleftrightarrow> (\<forall>w. I w \<longrightarrow> I (snd (m w)))"

named_theorems kp "computations that keep a property of the server's state"

lemma keeps_snd: "keeps I m \<Longrightarrow> I w \<Longrightarrow> I (snd (m w))"
  by (simp add: keeps_def)

lemma keepsD: "keeps I m \<Longrightarrow> m w = (r, w') \<Longrightarrow> I w \<Longrightarrow> I w'"
  unfolding keeps_def by (metis snd_conv)

lemma kp_basic [kp]:
  "keeps I (retM x)" "keeps I (errM e)" "keeps I (panicM p)" "keeps I (nfsM t)"
  "keeps I (assertM b p)" "keeps I (unwrap_optM v)" "keeps I hangM" "keeps I (getsM f)"
  by (simp_all add: keeps_def monad_simps unwrap_optM_def split: option.split)

lemma kp_bindM [kp]:
  assumes m: "keeps I m" and f: "\<And>x. keeps I (f x)"
  shows "keeps I (bindM m f)"
  unfolding keeps_def
proof (intro allI impI)
  fix w assume w: "I w"
  obtain r w1 where m1: "m w = (r, w1)" by (cases "m w")
  then have "I w1" using keepsD [OF m m1 w] by simp
  then show "I (snd (bindM m f w))"
    using f m1 by (cases r) (auto simp: bindM_apply keeps_def)
qed

lemma kp_thenM [kp]: "keeps I m \<Longrightarrow> keeps I k \<Longrightarrow> keeps I (thenM m k)"
  unfolding thenM_def by (rule kp_bindM)

lemma kp_lift [kp]:
  "keeps I m1 \<Longrightarrow> keeps I (unwrapM m1)" "keeps I m2 \<Longrightarrow> keeps I (map_errM h m2)"
  "keeps I m3 \<Longrightarrow> keeps I (attemptM m3)" "keeps I m4 \<Longrightarrow> keeps I (ioM m4)" "keeps I m5 \<Longrightarrow> keeps I (strM m5)"
  by (simp_all add: keeps_def monad_simps case_prod_beta)

lemma kp_if [kp]: "keeps I a \<Longrightarrow> keeps I b \<Longrightarrow> keeps I (if c then a else b)"
  by simp

lemma kp_option [kp]:
  "keeps I a \<Longrightarrow> (\<And>x. keeps I (f x)) \<Longrightarrow> keeps I (case v of None \<Rightarrow> a | Some x \<Rightarrow> f x)"
  by (simp split: option.split)

lemma kp_sum [kp]:
  "(\<And>x. keeps I (f x)) \<Longrightarrow> (\<And>x. keeps I (g x)) \<Longrightarrow> keeps I (case v of Inl x \<Rightarrow> f x | Inr x \<Rightarrow> g x)"
  by (simp split: sum.split)

lemma kp_prod [kp]: "(\<And>x y. keeps I (f x y)) \<Longrightarrow> keeps I (case v of (x, y) \<Rightarrow> f x y)"
  by (simp split: prod.split)

lemma kp_mapM [kp]: "(\<And>x. keeps I (f x)) \<Longrightarrow> keeps I (mapM f xs)"
  by (induction xs) (auto intro!: kp)

section \<open>Requests that leave the disk alone\<close>

text \<open>The volatile part of the state, and what is left of the schedule\<close>

definition volatile :: "world \<Rightarrow> world \<Rightarrow> bool" where
  "volatile w w' \<longleftrightarrow> w' = w\<lparr>h_faults := h_faults w', w_name_lock := w_name_lock w',
     w_fid_cache := w_fid_cache w', w_cache_poisoned := w_cache_poisoned w'\<rparr>"

locale still_frame =
  fixes I :: "world \<Rightarrow> bool"
  assumes keep_volatile: "I w \<Longrightarrow> volatile w w' \<Longrightarrow> I w'"
begin

lemma kp_volatile: "(\<And>w. volatile w (snd (m w))) \<Longrightarrow> keeps I m"
  unfolding keeps_def using keep_volatile by blast

lemma kp_memory [kp]:
  "keeps I (lock_name nm)" "keeps I (unlock_name nm)" "keeps I (cache_get f)"
  "keeps I (cache_insert f g)" "keeps I (cache_extend ps)" "keeps I (cache_remove f)"
  "keeps I (async_lookup f)" "keeps I (async_read a)"
  by (rule kp_volatile, simp add: volatile_def monad_simps lock_name_def unlock_name_def cache_get_def
      cache_insert_def cache_extend_def cache_remove_def async_lookup_def async_read_def)+

lemma kp_look:
  assumes "\<And>now d x d'. k now d = Inr (x, d') \<Longrightarrow> d' = d"
  shows "keeps I (sysM k)"
proof (rule kp_volatile)
  fix w :: world
  have "h_disk (snd (run_call k (drop_fault w))) = h_disk w"
    using assms by (auto simp: run_call_def drop_fault_def split: sum.split)
  then show "volatile w (snd (sysM k w))"
    by (auto simp: volatile_def sysM_def run_call_def drop_fault_def split: option.split fault.split sum.splits)
qed

lemma kp_queryM [kp]: "keeps I (queryM q)"
  by (rule kp_volatile) (auto simp: volatile_def queryM_def drop_fault_def split: option.split fault.split)

lemma kp_looks [kp]:
  "keeps I (fs_is_dir p)" "keeps I (fs_is_file p)" "keeps I (fs_exists p)" "keeps I (read_dir_sys p)"
  "keeps I (open_sys p)" "keeps I (open_write_sys p)" "keeps I sync_sys" "keeps I (metadata_sys p)"
  "keeps I (seek_sys n)" "keeps I (read_at_sys p n k)" "keeps I dirents_sys" "keeps I (sysM (\<lambda>_. k_content p))"
  unfolding fs_is_dir_def fs_is_file_def fs_exists_def read_dir_sys_def open_sys_def open_write_sys_def
    sync_sys_def metadata_sys_def seek_sys_def read_at_sys_def dirents_sys_def
  by (rule kp_queryM | (rule kp_look, force simp: k_read_dir_def k_open_def k_metadata_def k_content_def
      split: option.splits obj.splits if_splits sum.splits))+

lemma kp_under_cache_lock [kp]:
  assumes m: "keeps I m"
  shows "keeps I (under_cache_lock m)"
  unfolding keeps_def
proof (intro allI impI)
  fix w assume w: "I w"
  obtain r w1 where m1: "m w = (r, w1)" by (cases "m w")
  then have I: "I w1" using keepsD [OF m m1 w] by simp
  then have "I (w1\<lparr>w_cache_poisoned := True\<rparr>)"
    by (rule keep_volatile) (simp add: volatile_def)
  then show "I (snd (under_cache_lock m w))"
    using w m1 I by (cases r) (auto simp: under_cache_lock_def)
qed

lemma kp_search [kp]: "keeps I (fs_find_by_fid E fid)" "keeps I (fs_find_by_name E p fname)"
proof -
  have g: "keeps I (get_numbered_and_named_files re p)" for re p
    unfolding get_numbered_and_named_files_def by (intro kp)
  have b: "keeps I (bfs_loop re fid n q)" for re fid n q
  proof (induction n arbitrary: q)
    case (Suc n)
    then show ?case by (cases q) (auto simp: parse_hierarchy_def Let_def intro!: kp g)
  qed (simp add: kp)
  have nc: "keeps I (fs_find_by_fid_no_cache E fid)" for fid
    unfolding fs_find_by_fid_no_cache_def by (intro kp b)
  have c: "keeps I (cached_walk E n fid)" for n fid
    by (induction n arbitrary: fid) (auto intro!: kp nc)
  show "keeps I (fs_find_by_fid E fid)"
    unfolding fs_find_by_fid_def fs_find_by_fid_cached_def by (intro kp c)
  have fn: "keeps I (find_named re p ns ks)" for re ns ks
    by (induction ks) (auto intro!: kp)
  show "keeps I (fs_find_by_name E p fname)"
    unfolding fs_find_by_name_def by (intro kp fn g)
qed

lemma kp_get_attr [kp]: "keeps I (fs_get_attr E p f)"
  unfolding fs_get_attr_def sys_time_to_zip_time_def blocks_of_def by (intro kp)

lemma kp_reading [kp]:
  "keeps I handle_null" "keeps I (handle_getattr E fh)" "keeps I (handle_lookup E da)"
  "keeps I (handle_read E ra)" "keeps I (handle_readdir E rd)" "keeps I (handle_statfs fh)"
  unfolding handle_null_def handle_getattr_def handle_lookup_def handle_read_def handle_readdir_def
    handle_statfs_def fs_read_dir_def dir_entry_of_def get_numbered_and_named_files_def Let_def
  by (intro kp)+

end

text \<open>With the buffers of the unstable writes\<close>

locale quiet_frame = still_frame +
  assumes keep_insert: "I w \<Longrightarrow> I (w\<lparr>w_async_bufs := AList.update f (w_async_next w) (w_async_bufs w),
        w_async_heap := (w_async_heap w)(w_async_next w := []), w_async_next := Suc (w_async_next w)\<rparr>)"
    and keep_buffer: "I w \<Longrightarrow> I (w\<lparr>w_async_heap := (w_async_heap w)(a := ws)\<rparr>)"
    and keep_remove: "I w \<Longrightarrow> I (w\<lparr>w_async_bufs := AList.delete f (w_async_bufs w)\<rparr>)"
begin

lemma kp_bufs [kp]:
  "keeps I (async_insert_new f)" "keeps I (async_push a pw)" "keeps I (async_remove f)" "keeps I (async_drain a)"
  using keep_insert keep_buffer keep_remove
  by (auto simp: keeps_def async_insert_new_def async_push_def async_remove_def async_drain_def modifyM_apply)

lemma kp_async [kp]: "keeps I (get_or_create_async_bufs f)"
  unfolding get_or_create_async_bufs_def by (intro kp)

lemma kp_unstable: "wa_stable a = UNSTABLE \<Longrightarrow> keeps I (handle_write E a)"
  by (simp add: handle_write_def Let_def) (intro kp)

end

section \<open>Requests that leave the counter alone\<close>

locale disk_frame = still_frame +
  assumes keep_disk: "I w \<Longrightarrow> I (w\<lparr>h_disk := d\<rparr>)"
begin

lemma kp_sysM [kp]: "keeps I (sysM k)"
  unfolding keeps_def
proof (intro allI impI)
  fix w assume "I w"
  then have w1: "I (drop_fault w)" by (rule keep_volatile) (simp add: volatile_def drop_fault_def)
  then show "I (snd (sysM k w))"
    by (auto simp: sysM_def run_call_def intro: keep_disk split: option.split fault.split sum.split)
qed

lemma kp_changes [kp]:
  "keeps I (create_new_sys p)" "keeps I (create_dir_sys p)" "keeps I (file_create_sys p)"
  "keeps I (remove_file_sys p)" "keeps I (remove_dir_sys p)" "keeps I (rename_sys p q)"
  "keeps I (set_len_sys p n)" "keeps I (futimens_sys p a m)" "keeps I (write_all_sys p n bs)" "keeps I (copy_sys p q)"
  unfolding create_new_sys_def create_dir_sys_def file_create_sys_def remove_file_sys_def remove_dir_sys_def
    rename_sys_def set_len_sys_def futimens_sys_def write_all_sys_def copy_sys_def
  by (intro kp)+

lemma kp_set_attr [kp]: "keeps I (fs_set_attr E p a m s)"
  unfolding fs_set_attr_def usec_to_nsec_def Let_def by (intro kp)

lemma kp_delete [kp]: "keeps I (fs_delete_obj p f nm isf)"
  unfolding fs_delete_obj_def Let_def by (intro kp)

lemma kp_stable_write [kp]: "keeps I (fs_stable_write E f off cnt bs)"
  unfolding fs_stable_write_def Let_def by (intro kp)

lemma kp_commit_loop [kp]: "keeps I (commit_loop tmp ws)"
  by (induction ws) (auto intro!: kp)

lemma kp_changing [kp]:
  "keeps I (handle_setattr E sa)" "keeps I (handle_remove E da)" "keeps I (handle_rmdir E da)"
  "keeps I (handle_rename E rn)"
  unfolding handle_setattr_def handle_remove_def handle_rmdir_def handle_rename_def
    rename_move_def rename_locked_def Let_def
  by (intro kp)+

lemma kp_write_stable: "wa_stable a \<noteq> UNSTABLE \<Longrightarrow> keeps I (handle_write E a)"
  by (cases "wa_stable a") (auto simp: handle_write_def intro!: kp)

end

locale store_frame = quiet_frame I + disk_frame I for I
begin

lemma kp_data [kp]: "keeps I (handle_write E wa)" "keeps I (handle_commit E cm)"
proof -
  show "keeps I (handle_write E wa)" by (cases "wa_stable wa = UNSTABLE") (intro kp_unstable kp_write_stable; assumption)+
  show "keeps I (handle_commit E cm)" unfolding handle_commit_def Let_def by (intro kp)
qed

end

section \<open>All requests\<close>

locale name_frame = disk_frame +
  assumes keep_counter: "I w \<Longrightarrow> \<not> ctr_poisoned (w_counter w) \<Longrightarrow>
      c \<in> {snd (fetch_inc True (w_counter w)), snd (fetch_inc False (w_counter w)), snd (fetch_add (w_counter w))} \<Longrightarrow>
      I (w\<lparr>w_counter := c\<rparr>)"
begin

lemma kp_fetch [kp]: "keeps I fetch_incM"
  unfolding keeps_def
proof (intro allI impI)
  fix w assume w: "I w"
  then have I: "I (drop_fault w)" by (rule keep_volatile) (simp add: volatile_def drop_fault_def)
  have c: "w_counter (drop_fault w) = w_counter w" by (simp add: drop_fault_def)
  show "I (snd (fetch_incM w))"
    using w keep_counter [OF I, unfolded c]
    by (auto simp: fetch_incM_def case_prod_beta split: option.split fault.split outcome.split)
qed

lemma kp_create [kp]: "keeps I (create_object E ca isf)"
  unfolding create_object_def create_owned_def fs_create_obj_def Let_def by (intro kp)

lemma kp_creating [kp]: "keeps I (handle_create E ca)" "keeps I (handle_mkdir E ca)"
  unfolding handle_create_def handle_mkdir_def by (intro kp)+

end

locale server_frame = store_frame I + name_frame I for I

section \<open>The frames of the server\<close>

lemma volatile_same:
  assumes "volatile w w'"
  shows "h_disk w' = h_disk w" "w_counter w' = w_counter w" "w_epoch w' = w_epoch w" "h_clock w' = h_clock w"
  by (simp_all add: assms [unfolded volatile_def, THEN arg_cong, of h_disk, simplified]
      assms [unfolded volatile_def, THEN arg_cong, of w_counter, simplified]
      assms [unfolded volatile_def, THEN arg_cong, of w_epoch, simplified]
      assms [unfolded volatile_def, THEN arg_cong, of h_clock, simplified])

interpretation same_memory: quiet_frame "\<lambda>w. h_disk w = d \<and> w_counter w = c \<and> w_epoch w = e" for d c e
  by unfold_locales (auto simp: volatile_same)

interpretation fixed_counter: store_frame "\<lambda>w. w_counter w = c \<and> w_epoch w = e" for c e
  by unfold_locales (auto simp: volatile_same)

interpretation fixed_epoch: server_frame "\<lambda>w. w_epoch w = e" for e
  by unfold_locales (auto simp: volatile_same)

text \<open>The buffers of the unstable writes\<close>

lemma volatile_async:
  assumes "volatile w w'"
  shows "w_async_bufs w' = w_async_bufs w" "w_async_heap w' = w_async_heap w" "w_async_next w' = w_async_next w"
  by (simp_all add: assms [unfolded volatile_def, THEN arg_cong, of w_async_bufs, simplified]
      assms [unfolded volatile_def, THEN arg_cong, of w_async_heap, simplified]
      assms [unfolded volatile_def, THEN arg_cong, of w_async_next, simplified])

lemma fresh_update:
  "list_all (\<lambda>(f, a). a < n) xs \<Longrightarrow> distinct (map snd xs) \<Longrightarrow>
    distinct (map snd (AList.update f n xs)) \<and> list_all (\<lambda>(f, a). a < Suc n) (AList.update f n xs)
    \<and> set (map snd (AList.update f n xs)) \<subseteq> insert n (set (map snd xs))"
  by (induction xs) (auto simp: list_all_iff)

interpretation buffers: server_frame async_ok
proof
  fix w w' f a ws d c
  assume w: "async_ok w"
  show "async_ok w'" if "volatile w w'" using w volatile_async [OF that] by (simp add: async_ok_def)
  show "async_ok (w\<lparr>w_async_bufs := AList.update f (w_async_next w) (w_async_bufs w),
      w_async_heap := (w_async_heap w)(w_async_next w := []), w_async_next := Suc (w_async_next w)\<rparr>)"
    using w fresh_update [of "w_async_next w" "w_async_bufs w" f] by (simp add: async_ok_def)
  show "async_ok (w\<lparr>w_async_bufs := AList.delete f (w_async_bufs w)\<rparr>)"
    by (rule async_ok_delete [OF w]) simp_all
qed (simp_all add: async_ok_def)

text \<open>Only writes that are not stable, and COMMIT, touch the buffers.\<close>

interpretation fixed_bufs: name_frame "\<lambda>w. w_async_bufs w = b \<and> w_async_heap w = h" for b h
  by unfold_locales (simp_all add: volatile_async)

section \<open>The temporary directory\<close>

text \<open>
  No directory is ever made in \<^verbatim>\<open>tmp\<close> by a COMMIT, so the temporary files of later ones find
  their place free, or held by a file they may overwrite.
\<close>

definition tmp_entry_ok :: "path \<times> obj \<Rightarrow> bool" where
  "tmp_entry_ok x = (case x of (q, ob) \<Rightarrow> butlast q = [''tmp''] \<longrightarrow> (case ob of RegFile st bs \<Rightarrow> True | DirObj st \<Rightarrow> False))"

definition no_tmp_dirs :: "disk \<Rightarrow> bool" where
  "no_tmp_dirs d = list_all tmp_entry_ok d"

lemma no_tmp_dirsD: "no_tmp_dirs d \<Longrightarrow> \<not> is_dir_at d [''tmp'', n]"
proof
  assume "no_tmp_dirs d" "is_dir_at d [''tmp'', n]"
  then obtain st where "([''tmp'', n], DirObj st) \<in> set d" by (auto simp: is_dir_at_iff dest: map_of_SomeD)
  then show False using \<open>no_tmp_dirs d\<close> by (auto simp: no_tmp_dirs_def list_all_iff tmp_entry_ok_def)
qed

lemma no_tmp_dirs_update: "no_tmp_dirs d \<Longrightarrow> no_tmp_dirs (AList.update q (RegFile st bs) d)"
  unfolding no_tmp_dirs_def by (induction d) (auto simp: tmp_entry_ok_def)

lemma no_tmp_dirs_delete: "no_tmp_dirs d \<Longrightarrow> no_tmp_dirs (AList.delete q d)"
  by (auto simp: no_tmp_dirs_def list_all_iff AList.delete_eq)

lemma no_tmp_dirs_relocate:
  assumes "no_tmp_dirs d" "under_root b"
  shows "no_tmp_dirs (relocate a b d)"
proof -
  have "tmp_entry_ok (move_path a b q, ob)" if "tmp_entry_ok (q, ob)" for q ob
    using that assms(2) by (cases b)
      (auto simp: tmp_entry_ok_def move_path_def under_root_def butlast_append butlast.simps split: if_splits)
  then show ?thesis
    using assms(1) by (auto simp: no_tmp_dirs_def relocate_def list_all_iff)
qed

interpretation tmp_dir: quiet_frame "\<lambda>w. no_tmp_dirs (h_disk w)"
  by unfold_locales (simp_all add: volatile_same)

lemma kp_tmp_call:
  assumes "\<And>now d x d'. k now d = Inr (x, d') \<Longrightarrow> no_tmp_dirs d \<Longrightarrow> no_tmp_dirs d'"
  shows "keeps (\<lambda>w. no_tmp_dirs (h_disk w)) (sysM k)"
  unfolding keeps_def
  by (auto simp: sysM_def run_call_def drop_fault_def intro: assms split: option.split fault.split sum.split)

lemma kp_tmp_changes:
  "keeps (\<lambda>w. no_tmp_dirs (h_disk w)) (file_create_sys p)"
  "keeps (\<lambda>w. no_tmp_dirs (h_disk w)) (sysM (\<lambda>now. k_modify now g p))"
  "under_root q \<Longrightarrow> keeps (\<lambda>w. no_tmp_dirs (h_disk w)) (rename_sys p q)"
  unfolding file_create_sys_def rename_sys_def
  by (rule kp_tmp_call; auto simp: k_create_def k_new_def k_modify_def k_rename_def
      intro!: no_tmp_dirs_update no_tmp_dirs_relocate no_tmp_dirs_delete split: option.splits obj.splits if_splits)+

lemmas kp_tmp = kp tmp_dir.kp_memory tmp_dir.kp_looks kp_tmp_changes(1,2)

lemma commit_tmp:
  assumes doc: "regex_documented E" and w: "wf_store (h_disk w)" "cache_ok (h_disk w) (w_fid_cache w)"
    and t: "no_tmp_dirs (h_disk w)"
  shows "no_tmp_dirs (h_disk (snd (handle_commit E a w)))"
proof -
  let ?I = "\<lambda>w. no_tmp_dirs (h_disk w)"
  have wa: "keeps ?I (write_all_sys p n bs)" for p n bs
    unfolding write_all_sys_def by (intro kp_tmp)
  have cp: "keeps ?I (copy_sys p q)" for p q
    unfolding copy_sys_def by (intro kp_tmp)
  have lp: "keeps ?I (commit_loop p ws)" for p ws
    by (induction ws) (auto intro!: kp_tmp wa)
  obtain r w1 where find: "fs_find_by_fid E (cm_file a) w = (r, w1)" by (cases "fs_find_by_fid E (cm_file a) w")
  then have t1: "?I w1" using tmp_dir.kp_search(1) keepsD t by blast
  have "x = None \<or> x = fid_path (h_disk w) (cm_file a)" if "r = Ok x" for x
    using find_by_fid_finds [OF doc w, of "cm_file a"] find that by (auto simp: finds_def wp_def)
  then have ur: "under_root p" if "r = Ok (Some p)" for p
    using that fid_path_Some [OF w(1)] vpath_under_root by fastforce
  show ?thesis
  proof (cases "\<exists>p. r = Ok (Some p)")
    case True
    then obtain p where p: "r = Ok (Some p)" by blast
    note mv = kp_tmp_changes(3) [OF ur [OF p]]
    show ?thesis
      unfolding handle_commit_def Let_def
      apply (subst bindM_apply)
      apply (simp add: strM_apply find p)
      by (rule keeps_snd [where I = ?I, OF _ t1], intro kp_tmp cp lp mv)
  next
    case False
    then show ?thesis
      unfolding handle_commit_def
      using t1 find by (subst bindM_apply) (cases r; auto simp: strM_apply nfsM_apply split: option.splits)
  qed
qed

end
