(* ===== verification/Network.thy ===== *)
theory Network
  imports Sessions Frames
begin

text \<open>
  A client and a server with a network between them that loses requests and replies, and a
  server that is killed and started again, between requests and in the middle of them. The
  server with this network satisfies the laws of the epoch protocol.
\<close>

section \<open>The network\<close>

text \<open>
  What happens to a request: one of the first five; \<^verbatim>\<open>Cut n\<close> is a crash of the server
  after \<open>n\<close> system calls of the request, \<^verbatim>\<open>Restart\<close> a restart before the request arrives.
\<close>

datatype net_event = Deliver | LoseRequest | LoseReply | Restart | Cut nat

record net =
  nt_world :: world
  nt_events :: "net_event list"

text \<open>A new server process on the same directory; the host is not faulty.\<close>

definition host_of :: "world \<Rightarrow> host" where
  "host_of w = \<lparr>h_disk = h_disk w, h_faults = [], h_clock = h_clock w\<rparr>"

definition reboot :: "world \<Rightarrow> world" where
  "reboot w = (case new_server (host_of w) (Some (ctr_disk (w_counter w))) of Ok w' \<Rightarrow> w' | _ \<Rightarrow> w)"

definition lost :: "(thrift_error, 'a) outcome" where
  "lost = Err (ThriftTransport EIO)"

text \<open>
  The reply to a request; \<open>wire\<close> is what the generated code of the server and the client makes
  of an error, and a panic of the handler closes the connection.
\<close>

fun reply :: "(thrift_error \<Rightarrow> thrift_error) \<Rightarrow> (thrift_error, 'a) outcome \<Rightarrow> (thrift_error, 'a) outcome" where
  "reply wire (Ok v) = Ok v"
| "reply wire (Err e) = Err (wire e)"
| "reply wire (Panic p) = lost"
| "reply wire Crash = lost"
| "reply wire Hang = Hang"

fun deliver ::
  "(thrift_error \<Rightarrow> thrift_error) \<Rightarrow> (world, thrift_error, 'a) M \<Rightarrow> net_event list \<Rightarrow> world
    \<Rightarrow> (thrift_error, 'a) outcome \<times> net" where
  "deliver wire m [] w = (reply wire (fst (m w)), \<lparr>nt_world = snd (m w), nt_events = []\<rparr>)"
| "deliver wire m (Deliver # es) w = (reply wire (fst (m w)), \<lparr>nt_world = snd (m w), nt_events = es\<rparr>)"
| "deliver wire m (LoseRequest # es) w = (lost, \<lparr>nt_world = w, nt_events = es\<rparr>)"
| "deliver wire m (LoseReply # es) w = (lost, \<lparr>nt_world = snd (m w), nt_events = es\<rparr>)"
| "deliver wire m (Restart # es) w = deliver wire m es (reboot w)"
| "deliver wire m (Cut n # es) w =
     (case m (w\<lparr>h_faults := replicate n None @ [Some PowerCut]\<rparr>) of
        (Crash, w') \<Rightarrow> (lost, \<lparr>nt_world = reboot w', nt_events = es\<rparr>)
      | (r, w') \<Rightarrow> (reply wire r, \<lparr>nt_world = w'\<lparr>h_faults := []\<rparr>, nt_events = es\<rparr>))"

definition netM :: "(thrift_error \<Rightarrow> thrift_error) \<Rightarrow> (world, thrift_error, 'a) M \<Rightarrow> (net, thrift_error, 'a) M" where
  "netM wire m n = deliver wire m (nt_events n) (nt_world n)"

definition server_rpc :: "env \<Rightarrow> (thrift_error \<Rightarrow> thrift_error) \<Rightarrow> net rpc" where
  "server_rpc E wire = \<lparr>
     rpc_null = netM wire handle_null, rpc_getattr = (\<lambda>a. netM wire (handle_getattr E a)),
     rpc_setattr = (\<lambda>a. netM wire (handle_setattr E a)), rpc_lookup = (\<lambda>a. netM wire (handle_lookup E a)),
     rpc_read = (\<lambda>a. netM wire (handle_read E a)), rpc_write = (\<lambda>a. netM wire (handle_write E a)),
     rpc_create = (\<lambda>a. netM wire (handle_create E a)), rpc_remove = (\<lambda>a. netM wire (handle_remove E a)),
     rpc_rename = (\<lambda>a. netM wire (handle_rename E a)), rpc_mkdir = (\<lambda>a. netM wire (handle_mkdir E a)),
     rpc_rmdir = (\<lambda>a. netM wire (handle_rmdir E a)), rpc_readdir = (\<lambda>a. netM wire (handle_readdir E a)),
     rpc_statfs = (\<lambda>a. netM wire (handle_statfs a)), rpc_commit = (\<lambda>a. netM wire (handle_commit E a)),
     rpc_new_client = id\<rparr>"

section \<open>A file behind the network\<close>

fun is_restart :: "net_event \<Rightarrow> bool" where
  "is_restart Restart = True"
| "is_restart (Cut n) = True"
| "is_restart e = False"

definition restarts_in :: "net_event list \<Rightarrow> nat" where
  "restarts_in es = length (filter is_restart es)"

lemma restarts_in_simps [simp]:
  "restarts_in [] = 0" "restarts_in (Deliver # es) = restarts_in es" "restarts_in (LoseRequest # es) = restarts_in es"
  "restarts_in (LoseReply # es) = restarts_in es" "restarts_in (Restart # es) = Suc (restarts_in es)"
  "restarts_in (Cut n # es) = Suc (restarts_in es)"
  by (simp_all add: restarts_in_def)

fun is_loss :: "net_event \<Rightarrow> bool" where
  "is_loss LoseRequest = True"
| "is_loss LoseReply = True"
| "is_loss (Cut n) = True"
| "is_loss e = False"

definition losses_in :: "net_event list \<Rightarrow> nat" where
  "losses_in es = length (filter is_loss es)"

lemma losses_in_simps [simp]:
  "losses_in [] = 0" "losses_in (Deliver # es) = losses_in es" "losses_in (LoseRequest # es) = Suc (losses_in es)"
  "losses_in (LoseReply # es) = Suc (losses_in es)" "losses_in (Restart # es) = losses_in es"
  "losses_in (Cut n # es) = Suc (losses_in es)"
  by (simp_all add: losses_in_def)

definition content_of :: "disk \<Rightarrow> fid \<Rightarrow> bytes" where
  "content_of d f = (case view d f of Some v \<Rightarrow> (case nf_body v of FileBody bs \<Rightarrow> bs | _ \<Rightarrow> []) | None \<Rightarrow> [])"

definition world_srv :: "fid \<Rightarrow> nat \<times> nat \<Rightarrow> world \<Rightarrow> srv" where
  "world_srv f k w = \<lparr>sv_content = content_of (h_disk w) f, sv_pend = pending w f, sv_epoch = w_epoch w,
     sv_left = fst k, sv_losses = snd k\<rparr>"

definition ahead :: "net_event list \<Rightarrow> nat \<times> nat" where
  "ahead es = (restarts_in es, losses_in es)"

definition net_srv :: "fid \<Rightarrow> net \<Rightarrow> srv" where
  "net_srv f n = world_srv f (ahead (nt_events n)) (nt_world n)"

text \<open>
  The store of the file \<open>f\<close>: everything a client sees but the content of \<open>f\<close> is as \<open>V\<close> and \<open>v\<close>
  say.
\<close>

definition store_ok :: "fid \<Rightarrow> (fid \<Rightarrow> nfs_file option) \<Rightarrow> nfs_file \<Rightarrow> disk \<Rightarrow> bool" where
  "store_ok f V v d \<longleftrightarrow> no_tmp_dirs d \<and> view d = V(f \<mapsto> v\<lparr>nf_body := FileBody (content_of d f)\<rparr>)"

definition tid_fits :: "env \<Rightarrow> bool" where
  "tid_fits E \<longleftrightarrow> CHR 0x00 \<notin> set (env_tid E) \<and> CHR ''/'' \<notin> set (env_tid E) \<and> length (env_tid E) \<le> 200"

definition serving :: "env \<Rightarrow> fid \<Rightarrow> (fid \<Rightarrow> nfs_file option) \<Rightarrow> nfs_file \<Rightarrow> nat \<Rightarrow> world \<Rightarrow> bool" where
  "serving E f V v k w \<longleftrightarrow> regex_documented E \<and> tid_fits E \<and> ready w \<and> async_ok w \<and> writes_ok (pending w f) \<and> store_ok f V v (h_disk w)
     \<and> unat (w_epoch w) < unat (ctr_disk (w_counter w)) \<and> unat (ctr_disk (w_counter w)) + k < 2 ^ 64 - 2"

lemma world_srv_simps [simp]:
  "sv_content (world_srv f k w) = content_of (h_disk w) f" "sv_pend (world_srv f k w) = pending w f"
  "sv_epoch (world_srv f k w) = w_epoch w" "sv_left (world_srv f k w) = fst k" "sv_losses (world_srv f k w) = snd k"
  by (simp_all add: world_srv_def)

lemma serving_less: "serving E f V v k w \<Longrightarrow> j \<le> k \<Longrightarrow> serving E f V v j w"
  by (auto simp: serving_def)

section \<open>A restart\<close>

lemma reboot_state:
  assumes d: "durable_ok (h_disk w) c" and c: "w_counter w = c" "unat (w_epoch w) < unat (ctr_disk c)"
    and k: "unat (ctr_disk c) + k < 2 ^ 64 - 2" "0 < k"
  shows "ready (reboot w)" "h_disk (reboot w) = h_disk w" "async_ok (reboot w)" "pending (reboot w) = (\<lambda>_. [])"
    "w_epoch (reboot w) = ctr_disk c" "unat (ctr_disk (w_counter (reboot w))) = Suc (unat (ctr_disk c))"
    "w_epoch w < w_epoch (reboot w)"
proof -
  let ?c = "\<lparr>ctr_mem = ctr_disk c + 1, ctr_disk = ctr_disk c + 1, ctr_poisoned = False\<rparr>"
  have r: "reboot w = (blank_world (host_of w) ?c)\<lparr>w_epoch := ctr_disk c\<rparr>"
    by (simp add: reboot_def new_server_def from_file_def fetch_incM_def blank_world_def host_of_def c
        next_fault_def drop_fault_def fetch_inc_def fetch_add_def flush_ok_def)
  have u: "unat (ctr_disk c + 1) = Suc (unat (ctr_disk c))" using k by (intro unat_plus_one) simp
  have "cache_ok (h_disk w) []" by (simp add: cache_ok_def)
  moreover have "fids_below (Suc (unat (ctr_disk c))) (h_disk w)"
    using d by (auto simp: durable_ok_def intro: fids_below_mono)
  ultimately show "ready (reboot w)"
    using d k u by (simp add: r ready_def server_ok_def durable_ok_def blank_world_def host_of_def ctr_synced_def)
  show "h_disk (reboot w) = h_disk w" "async_ok (reboot w)" "pending (reboot w) = (\<lambda>_. [])"
    "w_epoch (reboot w) = ctr_disk c" "unat (ctr_disk (w_counter (reboot w))) = Suc (unat (ctr_disk c))"
    using u by (simp_all add: r blank_world_def host_of_def async_ok_def pending_def fun_eq_iff)
  show "w_epoch w < w_epoch (reboot w)" using c by (simp add: r blank_world_def word_less_nat_alt)
qed

lemma reboot_serving:
  assumes E: "regex_documented E" "tid_fits E" and d: "durable_ok (h_disk w) c"
    and c: "w_counter w = c" "unat (w_epoch w) < unat (ctr_disk c)"
    and k: "unat (ctr_disk c) + Suc k < 2 ^ 64 - 2" and s: "store_ok f V v (h_disk w)"
  shows "serving E f V v k (reboot w)" "h_disk (reboot w) = h_disk w" "pending (reboot w) f = []"
    "w_epoch w < w_epoch (reboot w)"
  using reboot_state [OF d c k] E s k by (simp_all add: serving_def writes_ok_def)

lemma reboot_restarts:
  assumes w: "serving E f V v (Suc k) w"
  shows "serving E f V v k (reboot w)" "restarts (world_srv f (Suc k, l) w) (world_srv f (k, l) (reboot w))"
proof -
  have d: "durable_ok (h_disk w) (w_counter w)"
    using w readyD(1) server_ok_durable unfolding serving_def by blast
  note r = reboot_serving [OF _ _ d refl, of E k f V v]
  show "serving E f V v k (reboot w)" "restarts (world_srv f (Suc k, l) w) (world_srv f (k, l) (reboot w))"
    using w r by (simp_all add: serving_def restarts_def)
qed

section \<open>Handlers behind the network\<close>

text \<open>
  A handler that carries out \<open>g\<close> on a file, from every state with the invariant \<open>I\<close>, whose first
  argument bounds the restarts to come; \<open>okay\<close> relates its reply to the state it was carried out
  in.
\<close>

definition carried :: "(srv \<Rightarrow> srv) \<Rightarrow> (srv \<Rightarrow> bool) \<Rightarrow> srv \<Rightarrow> srv \<Rightarrow> bool" where
  "carried g ok a b \<longleftrightarrow> (\<exists>m. restarts a m \<and> ok m \<and> restarts (g m) b)"

lemma carried_after: "restarts a b \<Longrightarrow> carried g ok b c \<Longrightarrow> carried g ok a c"
  unfolding carried_def using restarts_trans by blast

definition behind :: "(nat \<Rightarrow> world \<Rightarrow> bool) \<Rightarrow> nat \<Rightarrow> net \<Rightarrow> bool" where
  "behind I K n \<longleftrightarrow> I (restarts_in (nt_events n)) (nt_world n) \<and> losses_in (nt_events n) \<le> K"

locale net_handler =
  fixes f :: fid and I :: "nat \<Rightarrow> world \<Rightarrow> bool" and g :: "srv \<Rightarrow> srv"
    and m :: "(world, thrift_error, 'a) M" and okay :: "'a \<Rightarrow> srv \<Rightarrow> bool"
  assumes less: "I k w \<Longrightarrow> j \<le> k \<Longrightarrow> I j w" and faultless: "I k w \<Longrightarrow> h_faults w = []"
    and restarted: "I (Suc k) w \<Longrightarrow> I k (reboot w)
      \<and> restarts (world_srv f (Suc k, l) w) (world_srv f (k, l) (reboot w))"
    and returns: "I k w \<Longrightarrow> \<exists>x w'. m w = (Ok x, w') \<and> I k w'
      \<and> (\<forall>j. okay x (world_srv f j w) \<and> world_srv f j w' = g (world_srv f j w))"
    and cut: "cut_or_calm m"
    and dies: "I (Suc k) w \<Longrightarrow> m (w\<lparr>h_faults := fs\<rparr>) = (Crash, w') \<Longrightarrow> I k (reboot w')
      \<and> request_lost g (world_srv f (Suc k, Suc l) w) (world_srv f (k, l) (reboot w'))"
    and budget: "sv_left (g a) = sv_left a" "sv_losses (g a) = sv_losses a"
begin

lemma done_here:
  assumes "\<And>j. okay x (world_srv f j w) \<and> world_srv f j w' = g (world_srv f j w)" "fst i \<le> fst j" "snd i \<le> snd j"
  shows "carried g (okay x) (world_srv f j w) (world_srv f i w')"
proof -
  have "restarts (g (world_srv f j w)) (world_srv f i w')"
    using assms(1) [of j, THEN conjunct2, symmetric] assms(2,3) by (simp add: restarts_def)
  then show ?thesis unfolding carried_def using assms(1) by (intro exI [of _ "world_srv f j w"]) simp
qed

lemma lost_here:
  assumes "\<And>j. okay x (world_srv f j w) \<and> world_srv f j w' = g (world_srv f j w)" "fst i \<le> fst j" "snd i < snd j"
  shows "request_lost g (world_srv f j w) (world_srv f i w')"
  using done_here [OF assms(1,2)] assms(3) unfolding request_lost_def request_done_def carried_def by auto

lemma lost_before:
  "fst i \<le> fst j \<Longrightarrow> snd i < snd j \<Longrightarrow> request_lost g (world_srv f j w) (world_srv f i w)"
  by (simp add: request_lost_def restarts_def)

lemma deliver_rule:
  "I (restarts_in es) w \<Longrightarrow> losses_in es \<le> K \<Longrightarrow> deliver wire m es w = (r, n') \<Longrightarrow>
    behind I K n'
    \<and> answers (\<lambda>x. carried g (okay x) (world_srv f (ahead es) w) (net_srv f n'))
        (request_lost g (world_srv f (ahead es) w) (net_srv f n')) r
    \<and> (\<forall>e. r = Err e \<longrightarrow> cut_off r)"
proof (induction es arbitrary: w)
  case Nil
  obtain x w' where x: "m w = (Ok x, w')" "I 0 w'"
      "\<And>j. okay x (world_srv f j w) \<and> world_srv f j w' = g (world_srv f j w)"
    using returns [of 0 w] Nil.prems(1) by auto
  then show ?case
    using Nil.prems(3) done_here [OF x(3), of "(0, 0)" "(0, 0)"] by (auto simp: behind_def net_srv_def ahead_def)
next
  case (Cons e es)
  let ?k = "restarts_in es" and ?l = "losses_in es"
  show ?case
  proof (cases "is_restart e")
    case False
    then have k: "restarts_in (e # es) = ?k" by (cases e) simp_all
    obtain x w' where x: "m w = (Ok x, w')" "I ?k w'"
        "\<And>j. okay x (world_srv f j w) \<and> world_srv f j w' = g (world_srv f j w)"
      using returns Cons.prems(1) unfolding k by blast
    note d = done_here [OF x(3), of "(?k, ?l)" "(?k, ?l)"] lost_here [OF x(3), of "(?k, ?l)" "(?k, Suc ?l)"]
      lost_before [of "(?k, ?l)" "(?k, Suc ?l)" w]
    from False show ?thesis
      using Cons.prems x(1,2) d
      by (cases e) (auto simp: behind_def net_srv_def ahead_def lost_def cut_off_def)
  next
    case True
    then have k: "restarts_in (e # es) = Suc ?k" by (cases e) simp_all
    note w = Cons.prems(1) [unfolded k]
    show ?thesis
    proof (cases e)
      case Restart
      have rb: "I ?k (reboot w)" "restarts (world_srv f (Suc ?k, ?l) w) (world_srv f (?k, ?l) (reboot w))"
        using restarted [OF w] by blast+
      have "behind I K n'
          \<and> answers (\<lambda>x. carried g (okay x) (world_srv f (ahead es) (reboot w)) (net_srv f n'))
              (request_lost g (world_srv f (ahead es) (reboot w)) (net_srv f n')) r
          \<and> (\<forall>e. r = Err e \<longrightarrow> cut_off r)"
        using Cons.IH [OF rb(1)] Cons.prems(2,3) Restart by simp
      then show ?thesis
        using Restart by (auto simp: ahead_def elim!: answers_mono intro: carried_after [OF rb(2)] request_lost_after [OF rb(2)])
    next
      case (Cut n)
      let ?fs = "replicate n None @ [Some PowerCut]"
      have cs: "cuts ?fs" by (simp add: cuts_def list_all_iff)
      obtain x w' where x: "m w = (Ok x, w')" "I (Suc ?k) w'"
          "\<And>j. okay x (world_srv f j w) \<and> world_srv f j w' = g (world_srv f j w)"
        using returns [OF w] by blast
      from cut_or_calmD(2) [OF cut faultless [OF w] cs x(1)] show ?thesis
      proof
        assume "fst (m (w\<lparr>h_faults := ?fs\<rparr>)) = Crash"
        then obtain w1 where c: "m (w\<lparr>h_faults := ?fs\<rparr>) = (Crash, w1)" by (metis prod.collapse)
        then show ?thesis
          using Cons.prems(2,3) Cut dies [OF w c, of ?l]
          by (auto simp: lost_def behind_def net_srv_def ahead_def cut_off_def)
      next
        assume "\<exists>fs'. cuts fs' \<and> m (w\<lparr>h_faults := ?fs\<rparr>) = (Ok x, w'\<lparr>h_faults := fs'\<rparr>)"
        then obtain fs' where c: "m (w\<lparr>h_faults := ?fs\<rparr>) = (Ok x, w'\<lparr>h_faults := fs'\<rparr>)" by blast
        have "w'\<lparr>h_faults := []\<rparr> = w'" using faultless [OF x(2)] by simp
        then have "(r, n') = (Ok x, \<lparr>nt_world = w', nt_events = es\<rparr>)" using Cons.prems(3) Cut c by simp
        then show ?thesis
          using Cons.prems(2) Cut less [OF x(2)] done_here [OF x(3), of "(?k, ?l)" "(Suc ?k, Suc ?l)"]
          by (simp add: behind_def net_srv_def ahead_def)
      qed
    qed (use True in simp_all)
  qed
qed

lemma netM_rule:
  assumes "behind I K n"
  shows "behind I K (snd (netM wire m n))
    \<and> answers (\<lambda>x. carried g (okay x) (net_srv f n) (net_srv f (snd (netM wire m n))))
        (request_lost g (net_srv f n) (net_srv f (snd (netM wire m n)))) (fst (netM wire m n))
    \<and> (\<forall>e. fst (netM wire m n) = Err e \<longrightarrow> cut_off (fst (netM wire m n)))"
  using deliver_rule [of "nt_events n" "nt_world n" K wire] assms
  by (cases "deliver wire m (nt_events n) (nt_world n)") (simp add: netM_def behind_def net_srv_def)

end

section \<open>Handlers of the epoch protocol\<close>

text \<open>
  A handler that replies with \<open>ep\<close> the epoch, and leaves the old or the new content when the
  server dies in the middle of it.
\<close>

locale epoch_handler =
  fixes E :: env and f :: fid and V :: "fid \<Rightarrow> nfs_file option" and v :: nfs_file and g :: "srv \<Rightarrow> srv"
    and m :: "(world, thrift_error, 'a) M" and ep :: "'a \<Rightarrow> u64" and okay :: "'a \<Rightarrow> bool"
  assumes calm: "serving E f V v k w \<Longrightarrow> \<exists>x w'. m w = (Ok x, w') \<and> okay x \<and> ep x = w_epoch w
      \<and> serving E f V v k w' \<and> (\<forall>j. world_srv f j w' = g (world_srv f j w))"
    and cut: "cut_or_calm m"
    and crash: "serving E f V v k w \<Longrightarrow> m (w\<lparr>h_faults := fs\<rparr>) = (Crash, w') \<Longrightarrow>
      durable_ok (h_disk w') (w_counter w) \<and> w_counter w' = w_counter w \<and> w_epoch w' = w_epoch w
      \<and> store_ok f V v (h_disk w')
      \<and> content_of (h_disk w') f \<in> {content_of (h_disk w) f, sv_content (g (world_srv f j w))}"
    and effect: "sv_epoch (g a) = sv_epoch a" "sv_left (g a) = sv_left a" "sv_losses (g a) = sv_losses a"
begin

lemma crash_restarts:
  assumes w: "serving E f V v (Suc k) w" and run: "m (w\<lparr>h_faults := fs\<rparr>) = (Crash, w')"
  shows "serving E f V v k (reboot w')"
    "request_lost g (world_srv f (Suc k, Suc l) w) (world_srv f (k, l) (reboot w'))"
proof -
  let ?a = "world_srv f (Suc k, Suc l) w" and ?b = "world_srv f (k, l) (reboot w')"
  note c = crash [OF w run, of "(Suc k, Suc l)"]
  have r: "serving E f V v k (reboot w')" "h_disk (reboot w') = h_disk w'" "pending (reboot w') f = []"
    "w_epoch w' < w_epoch (reboot w')"
    using reboot_serving [of E w' "w_counter w" k f V v] c w by (simp_all add: serving_def)
  then show "serving E f V v k (reboot w')" by simp
  have res: "restarts b ?b"
    if "sv_content b = content_of (h_disk w') f" "sv_epoch b = w_epoch w" "sv_left b = Suc k" "sv_losses b = Suc l" for b
    using that r c by (simp add: restarts_def)
  from c consider "content_of (h_disk w') f = sv_content ?a" | "content_of (h_disk w') f = sv_content (g ?a)" by auto
  then have "restarts ?a ?b \<or> restarts (g ?a) ?b"
    by cases (use res [of ?a] res [of "g ?a"] effect [of ?a] in simp_all)
  then show "request_lost g ?a ?b"
    unfolding request_lost_def request_done_def by (auto intro: restarts_refl)
qed

end

sublocale epoch_handler \<subseteq> net: net_handler f "serving E f V v" g m "\<lambda>x a. okay x \<and> ep x = sv_epoch a"
proof
  fix k w assume w: "serving E f V v k w"
  show "serving E f V v j w" if "j \<le> k" for j using serving_less [OF w that] .
  show "h_faults w = []" using w by (simp add: serving_def ready_def)
  show "\<exists>x w'. m w = (Ok x, w') \<and> serving E f V v k w'
      \<and> (\<forall>j. (okay x \<and> ep x = sv_epoch (world_srv f j w)) \<and> world_srv f j w' = g (world_srv f j w))"
    using calm [OF w] by auto
next
  fix k w l assume w: "serving E f V v (Suc k) w"
  show "serving E f V v k (reboot w) \<and> restarts (world_srv f (Suc k, l) w) (world_srv f (k, l) (reboot w))"
    using reboot_restarts [OF w] by blast
  fix fs w' assume "m (w\<lparr>h_faults := fs\<rparr>) = (Crash, w')"
  from crash_restarts [OF w this] show "serving E f V v k (reboot w')
      \<and> request_lost g (world_srv f (Suc k, Suc l) w) (world_srv f (k, l) (reboot w'))" by blast
qed (simp_all add: cut effect)

lemma carried_done:
  "carried g (\<lambda>a. okay x \<and> ep x = sv_epoch a) a b \<Longrightarrow> okay x \<and> request_done g (ep x) a b"
  unfolding carried_def request_done_def by auto

context epoch_handler
begin

lemma epoch_rule:
  assumes n: "behind (serving E f V v) K n"
  shows "behind (serving E f V v) K (snd (netM wire m n))
    \<and> answers (\<lambda>x. okay x \<and> request_done g (ep x) (net_srv f n) (net_srv f (snd (netM wire m n))))
        (request_lost g (net_srv f n) (net_srv f (snd (netM wire m n)))) (fst (netM wire m n))
    \<and> (\<forall>e. fst (netM wire m n) = Err e \<longrightarrow> cut_off (fst (netM wire m n)))"
proof -
  note rule = net.netM_rule [OF n, of wire]
  have "answers (\<lambda>x. okay x \<and> request_done g (ep x) (net_srv f n) (net_srv f (snd (netM wire m n))))
        (request_lost g (net_srv f n) (net_srv f (snd (netM wire m n)))) (fst (netM wire m n))"
    using rule by (auto elim!: answers_mono dest: carried_done)
  then show ?thesis using rule by blast
qed

end

section \<open>The handlers of the protocol\<close>

lemma servingD:
  assumes "serving E f V v k w"
  shows "regex_documented E" "tid_fits E" "ready w" "async_ok w" "writes_ok (pending w f)" "no_tmp_dirs (h_disk w)"
    "view (h_disk w) = V(f \<mapsto> v\<lparr>nf_body := FileBody (content_of (h_disk w) f)\<rparr>)"
    "wf_store (h_disk w)" "cache_ok (h_disk w) (w_fid_cache w)"
  using assms readyD unfolding serving_def store_ok_def by blast+

lemma serving_durable: "serving E f V v k w \<Longrightarrow> durable_ok (h_disk w) (w_counter w)"
  using servingD(3) readyD(1) server_ok_durable by blast

interpretation null_net: epoch_handler E f V v id handle_null id "\<lambda>_. True" for E f V v
proof
  show "cut_or_calm handle_null" by (rule coc)
qed (auto simp: handle_null_def getsM_apply)

text \<open>An unstable WRITE\<close>

lemma write_handler:
  assumes x: "writes_ok [(off, cnt, data)]"
    and a: "a = \<lparr>wa_file = f, wa_offset = off, wa_count = cnt, wa_data = data, wa_stable = UNSTABLE\<rparr>"
  shows "epoch_handler E f V v (got (off, cnt, data)) (handle_write E a) wr_verf (\<lambda>res. wr_count res = cnt)"
proof
  fix k w assume w: "serving E f V v k w"
  have len: "length (wa_data a) = unat (wa_count a)" using x by (simp add: writes_ok_def a)
  obtain w' where w': "handle_write E a w = (Ok \<lparr>wr_count = wa_count a, wr_committed = UNSTABLE, wr_verf = w_epoch w\<rparr>, w')"
    "async_ok w'" "pending w' = (pending w)(wa_file a := pending w (wa_file a) @ [(wa_offset a, wa_count a, wa_data a)])"
    and eq: "w' = w\<lparr>w_async_bufs := w_async_bufs w', w_async_heap := w_async_heap w', w_async_next := w_async_next w'\<rparr>"
    using write_unstable_calm [OF _ servingD(4) [OF w] len, of E] by (auto simp: a)
  have same: "h_disk w' = h_disk w" "w_counter w' = w_counter w" "w_epoch w' = w_epoch w" "ready w'"
    using servingD(3) [OF w] by (subst eq; simp add: ready_def server_ok_def)+
  have "pending w' f = pending w f @ [(off, cnt, data)]" using w'(3) by (simp add: a)
  moreover have "writes_ok (pending w f @ [(off, cnt, data)])" using x servingD(5) [OF w] by (simp add: writes_ok_def)
  ultimately show "\<exists>x w'. handle_write E a w = (Ok x, w') \<and> wr_count x = cnt \<and> wr_verf x = w_epoch w
      \<and> serving E f V v k w' \<and> (\<forall>j. world_srv f j w' = got (off, cnt, data) (world_srv f j w))"
    using w w'(1,2) same by (auto simp: serving_def a world_srv_def got_def)
next
  show "cut_or_calm (handle_write E a)" by (rule coc)
next
  fix k w fs w' j assume w: "serving E f V v k w" and run: "handle_write E a (w\<lparr>h_faults := fs\<rparr>) = (Crash, w')"
  have "keeps (\<lambda>u. h_disk u = h_disk w \<and> w_counter u = w_counter w \<and> w_epoch u = w_epoch w) (handle_write E a)"
    by (rule same_memory.kp_unstable) (simp add: a)
  from keepsD [OF this run] show "durable_ok (h_disk w') (w_counter w) \<and> w_counter w' = w_counter w \<and> w_epoch w' = w_epoch w
      \<and> store_ok f V v (h_disk w')
      \<and> content_of (h_disk w') f \<in> {content_of (h_disk w) f, sv_content (got (off, cnt, data) (world_srv f j w))}"
    using serving_durable [OF w] w by (simp add: serving_def)
qed (simp_all add: got_def)

text \<open>COMMIT\<close>

lemma show_i64_text:
  "length (show_i64 x) \<le> 21" "CHR 0x00 \<notin> set (show_i64 x)" "CHR ''/'' \<notin> set (show_i64 x)"
proof -
  have dg: "c \<notin> set (show_nat n)" if "\<not> is_digit c" for c n
    using show_nat_digits [of n] that by (auto simp: list_all_iff)
  have "\<not> is_digit (CHR 0x00)" "\<not> is_digit (CHR ''/'')" by (simp_all add: is_digit_def digit_val_def upt_rec)
  then show "CHR 0x00 \<notin> set (show_i64 x)" "CHR ''/'' \<notin> set (show_i64 x)"
    using dg by (auto simp: show_i64_def show_u64_def)
  have "- sint x \<le> 2 ^ 63" using sint_ge [of x] by simp
  then have "nat (- sint x) < 10 ^ Suc 19" by simp
  then have "length (show_nat (nat (- sint x))) \<le> 20" using show_nat_length [of "nat (- sint x)" 19] by simp
  then show "length (show_i64 x) \<le> 21"
    using show_u64_length [of x] by (simp add: show_i64_def)
qed

lemma tmp_ok_fits: "tid_fits E \<Longrightarrow> no_tmp_dirs d \<Longrightarrow> tmp_ok E d (show_i64 x)"
  using show_i64_text [of x] no_tmp_dirsD
  by (auto simp: tmp_ok_def comp_err_def tid_fits_def NAME_MAX_def tmp_path_def)

lemma serving_target:
  assumes w: "serving E f V v k w"
  obtains p where "write_target (h_disk w) f p (content_of (h_disk w) f)"
    "file_at (h_disk w) p = v\<lparr>nf_body := FileBody (content_of (h_disk w) f)\<rparr>"
proof -
  let ?d = "h_disk w"
  note wf = servingD(8) [OF w]
  have "view ?d f = Some (v\<lparr>nf_body := FileBody (content_of ?d f)\<rparr>)" using servingD(7) [OF w] by simp
  then obtain p where p: "vpath ?d p" "last p = show_u64 f"
      "file_at ?d p = v\<lparr>nf_body := FileBody (content_of ?d f)\<rparr>"
    unfolding view_Some [OF wf] by metis
  then have fp: "fid_path ?d f = Some p" using fid_path_Some [OF wf] by blast
  obtain ob where ob: "map_of ?d p = Some ob" using p(1) vpath_exists by (metis not_None_eq)
  have "nf_body (file_at ?d p) = FileBody (content_of ?d f)" using p(3) by simp
  then have "obj_body ob = FileBody (content_of ?d f)" using ob by (simp add: file_at_def)
  then have "content_at ?d p (content_of ?d f)" using ob by (cases ob) (auto simp: content_at_def)
  with fp p(3) that show thesis by (simp add: write_target_def)
qed

lemma store_written:
  assumes w: "serving E f V v k w" and t: "no_tmp_dirs d'"
    and p: "write_target (h_disk w) f p bs" and d': "view d' = (view (h_disk w))(f \<mapsto> (file_at (h_disk w) p)\<lparr>nf_body := FileBody new\<rparr>)"
  shows "store_ok f V v d'" "content_of d' f = new"
proof -
  have "fid_path (h_disk w) f = Some p" using p by (simp add: write_target_def)
  then have "file_at (h_disk w) p = v\<lparr>nf_body := FileBody (content_of (h_disk w) f)\<rparr>"
    using view_fid_path [of "h_disk w" f p] servingD(7) [OF w] by simp
  then have v': "view d' = V(f \<mapsto> v\<lparr>nf_body := FileBody new\<rparr>)"
    using d' servingD(7) [OF w] by simp
  then show "content_of d' f = new" by (simp add: content_of_def)
  then show "store_ok f V v d'" using t v' by (simp add: store_ok_def)
qed

lemma store_same: "store_ok f V v d \<Longrightarrow> no_tmp_dirs d' \<Longrightarrow> view d' = view d \<Longrightarrow> store_ok f V v d' \<and> content_of d' f = content_of d f"
  by (auto simp: store_ok_def content_of_def)

lemma commit_frame:
  assumes "handle_commit E a w = (r, w')"
  shows "w_counter w' = w_counter w" "w_epoch w' = w_epoch w"
  using keepsD [OF fixed_counter.kp_data(2) assms] by simp_all

interpretation commit_net: epoch_handler E f V v committed "handle_commit E \<lparr>cm_file = f, cm_count = c, cm_offset = off\<rparr>"
    id "\<lambda>_. True" for E f V v c off
proof
  let ?a = "\<lparr>cm_file = f, cm_count = c, cm_offset = off\<rparr>"
  fix k w assume w: "serving E f V v k w"
  let ?d = "h_disk w"
  obtain p where p: "write_target ?d f p (content_of ?d f)" by (rule serving_target [OF w])
  have tmp: "tmp_ok E ?d (show_i64 f)" by (rule tmp_ok_fits [OF servingD(2,6) [OF w]])
  obtain w' where w': "handle_commit E ?a w = (Ok (w_epoch w), w')" "async_ok w'"
      "rewritten w f p (apply_writes (pending w f) (content_of ?d f)) w'" "pending w' = (pending w)(f := [])"
    using commit_calm [OF servingD(1,3,4) [OF w], of ?a p "content_of ?d f"] p tmp servingD(5) [OF w] by auto
  have t: "no_tmp_dirs (h_disk w')"
    using commit_tmp [OF servingD(1,8,9,6) [OF w], of ?a] w'(1) by simp
  note s = store_written [OF w t p, of "apply_writes (pending w f) (content_of ?d f)"]
  have r: "ready w'" "view (h_disk w') = (view ?d)(f \<mapsto> (file_at ?d p)\<lparr>nf_body := FileBody (apply_writes (pending w f) (content_of ?d f))\<rparr>)"
    using w'(3) by (simp_all add: rewritten_def)
  have "serving E f V v k w'"
    using w w'(2,4) s(1) [OF r(2)] r(1) commit_frame [OF w'(1)] by (simp add: serving_def writes_ok_def)
  then show "\<exists>x w'. handle_commit E ?a w = (Ok x, w') \<and> True \<and> id x = w_epoch w
      \<and> serving E f V v k w' \<and> (\<forall>j. world_srv f j w' = committed (world_srv f j w))"
    using w'(1,4) s(2) [OF r(2)] commit_frame [OF w'(1)] by (auto simp: world_srv_def committed_def)
next
  let ?a = "\<lparr>cm_file = f, cm_count = c, cm_offset = off\<rparr>"
  show "cut_or_calm (handle_commit E ?a)" by (rule coc)
  fix k w fs w' j assume w: "serving E f V v k w" and run: "handle_commit E ?a (w\<lparr>h_faults := fs\<rparr>) = (Crash, w')"
  let ?d = "h_disk w" and ?w = "w\<lparr>h_faults := fs\<rparr>"
  have pend: "pending ?w f = pending w f" by (simp add: pending_def split: option.split)
  have ok: "server_ok ?w" using readyD(1) [OF servingD(3) [OF w]] by (simp add: server_ok_def)
  have t: "no_tmp_dirs (h_disk w')"
    using commit_tmp [OF servingD(1) [OF w], of ?w ?a] servingD(6,8,9) [OF w] run by simp
  have fr: "w_counter w' = w_counter w" "w_epoch w' = w_epoch w" using commit_frame [OF run] by simp_all
  have "durable_ok (h_disk w') (w_counter w') \<and> (view (h_disk w') = view ?d \<or> commit_done ?w f (h_disk w'))"
    using commit_survives [OF servingD(1) [OF w] ok, of ?a] run by (simp add: survives_def wp_def)
  moreover have "store_ok f V v (h_disk w') \<and> content_of (h_disk w') f \<in> {content_of ?d f, sv_content (committed (world_srv f j w))}"
    if cd: "commit_done ?w f (h_disk w')"
  proof (cases "pending w f = []")
    case True
    then show ?thesis using cd store_same [OF _ t] w by (auto simp: commit_done_def pend serving_def)
  next
    case False
    then obtain p st bs where p: "fid_path ?d f = Some p" "map_of ?d p = Some (RegFile st bs)"
        "view (h_disk w') = (view ?d)(f \<mapsto> (file_at ?d p)\<lparr>nf_body := FileBody (apply_writes (pending w f) bs)\<rparr>)"
      using cd by (auto simp: commit_done_def write_done_def pend)
    then have tg: "write_target ?d f p bs" by (simp add: write_target_def content_at_def)
    have "content_of ?d f = bs" using view_fid_path [OF p(1)] p(2) by (simp add: content_of_def file_at_def)
    then show ?thesis using store_written [OF w t tg p(3)] by simp
  qed
  ultimately show "durable_ok (h_disk w') (w_counter w) \<and> w_counter w' = w_counter w \<and> w_epoch w' = w_epoch w
      \<and> store_ok f V v (h_disk w')
      \<and> content_of (h_disk w') f \<in> {content_of ?d f, sv_content (committed (world_srv f j w))}"
    using fr store_same [OF _ t] w by (auto simp: serving_def)
qed simp_all

section \<open>The server is a server of the epoch protocol\<close>

interpretation net: epoch_server "server_rpc E wire" "net_srv f" "behind (serving E f V v) K" f K for E wire f V v K
proof
  fix n assume n: "behind (serving E f V v) K n"
  show "behind (serving E f V v) K (snd (rpc_null (server_rpc E wire) n))
      \<and> answers (\<lambda>e. request_done id e (net_srv f n) (net_srv f (snd (rpc_null (server_rpc E wire) n))))
          (request_lost id (net_srv f n) (net_srv f (snd (rpc_null (server_rpc E wire) n)))) (fst (rpc_null (server_rpc E wire) n))
      \<and> (\<forall>e. fst (rpc_null (server_rpc E wire) n) = Err e \<longrightarrow> cut_off (fst (rpc_null (server_rpc E wire) n)))"
    using null_net.epoch_rule [OF n, of wire] by (simp add: server_rpc_def)
  show "sv_losses (net_srv f n) \<le> K" using n by (simp add: behind_def net_srv_def ahead_def)
  show "behind (serving E f V v) K (rpc_new_client (server_rpc E wire) n) \<and> net_srv f (rpc_new_client (server_rpc E wire) n) = net_srv f n"
    using n by (simp add: server_rpc_def)
next
  fix n off cnt data a assume n: "behind (serving E f V v) K n" and x: "writes_ok [(off, cnt, data)]"
    and a: "a = \<lparr>wa_file = f, wa_offset = off, wa_count = cnt, wa_data = data, wa_stable = UNSTABLE\<rparr>"
  show "behind (serving E f V v) K (snd (rpc_write (server_rpc E wire) a n))
      \<and> answers (\<lambda>res. wr_count res = cnt
            \<and> request_done (got (off, cnt, data)) (wr_verf res) (net_srv f n) (net_srv f (snd (rpc_write (server_rpc E wire) a n))))
          (request_lost (got (off, cnt, data)) (net_srv f n) (net_srv f (snd (rpc_write (server_rpc E wire) a n))))
          (fst (rpc_write (server_rpc E wire) a n))
      \<and> (\<forall>e. fst (rpc_write (server_rpc E wire) a n) = Err e \<longrightarrow> cut_off (fst (rpc_write (server_rpc E wire) a n)))"
    using epoch_handler.epoch_rule [OF write_handler [OF x a] n, of wire] by (simp add: server_rpc_def)
next
  fix n c assume n: "behind (serving E f V v) K n" and c: "c = \<lparr>cm_file = f, cm_count = 0, cm_offset = 0\<rparr>"
  show "behind (serving E f V v) K (snd (rpc_commit (server_rpc E wire) c n))
      \<and> answers (\<lambda>e. request_done committed e (net_srv f n) (net_srv f (snd (rpc_commit (server_rpc E wire) c n))))
          (request_lost committed (net_srv f n) (net_srv f (snd (rpc_commit (server_rpc E wire) c n)))) (fst (rpc_commit (server_rpc E wire) c n))
      \<and> (\<forall>e. fst (rpc_commit (server_rpc E wire) c n) = Err e \<longrightarrow> cut_off (fst (rpc_commit (server_rpc E wire) c n)))"
    using commit_net.epoch_rule [OF n, of wire] by (simp add: server_rpc_def c)
qed

end
