(* ===== verification/Reads.thy ===== *)
theory Reads
  imports Network
begin

text \<open>
  READ from the client's side: the loop of \<^verbatim>\<open>read\<close> in \<^verbatim>\<open>client_fuse.rs\<close> against a server that
  gives at most 4000 bytes at a time, over a network that loses messages.
\<close>

lemma take_length_take: "take n xs = take (length (take n xs)) xs"
  by (cases "n \<le> length xs") auto

section \<open>The laws\<close>

text \<open>
  A connection on which \<open>losses\<close> bounds the requests that can still fail, \<open>K\<close> at most
\<close>

locale lossy_client =
  fixes R :: "'w rpc" and good :: "'w \<Rightarrow> bool" and losses :: "'w \<Rightarrow> nat" and K :: nat
  assumes loss_bound: "good w \<Longrightarrow> losses w \<le> K"
    and new_law: "good w \<Longrightarrow> good (rpc_new_client R w) \<and> losses (rpc_new_client R w) = losses w"
begin

text \<open>A request that every attempt answers in the same way\<close>

lemma call_rule:
  assumes law: "\<And>w. good w \<Longrightarrow> good (snd (rpc w)) \<and> losses (snd (rpc w)) \<le> losses w
      \<and> answers Q (losses (snd (rpc w)) < losses w) (fst (rpc w))
      \<and> (\<forall>e. fst (rpc w) = Err e \<longrightarrow> cut_off (fst (rpc w)))"
    and g: "good (fs_remote s)" and run: "do_with_retry R rpc s = (r, s')"
  shows "good (fs_remote s')" "answers Q (MAX_TRIES \<le> K) r"
proof -
  let ?P = "\<lambda>i w. good w \<and> losses w + i \<le> K" and ?Q = "\<lambda>res w. good w \<and> Q res"
  have step: "answers (\<lambda>v. ?Q v (snd (rpc w))) (?P (Suc i) (snd (rpc w))) (fst (rpc w))" if "?P i w" for i w
    using law [OF conjunct1 [OF that]] that by (auto elim!: answers_mono)
  have ct: "cut_off (fst (rpc w))" if "?P i w" "fst (rpc w) = Err e" for i w e
    using law [OF conjunct1 [OF that(1)]] that(2) by blast
  have nw: "?P i (rpc_new_client R w)" if "?P i w" for i w
    using new_law [OF conjunct1 [OF that]] that by simp
  have P0: "?P 0 (fs_remote s)" using g loss_bound by simp
  have "answers (\<lambda>v. ?Q v (fs_remote s')) (?P MAX_TRIES (fs_remote s')) r"
    by (rule do_with_retry_rule(2) [where P = ?P and Q = ?Q, OF _ _ _ P0 run]; (erule step | erule (1) ct | erule nw))
  then show "good (fs_remote s')" "answers Q (MAX_TRIES \<le> K) r"
    by (cases rule: answers_cases; simp)+
qed

end

locale read_server = lossy_client R good losses K for R :: "'w rpc" and good losses K +
  fixes f :: fid and bs :: bytes
  assumes read_law: "good w \<Longrightarrow> unat off < 2 ^ 63 \<Longrightarrow> a = \<lparr>ra_file = f, ra_offset = off, ra_count = cnt\<rparr> \<Longrightarrow>
      good (snd (rpc_read R a w)) \<and> losses (snd (rpc_read R a w)) \<le> losses w
      \<and> answers (\<lambda>res. rr_data res = take (min (unat cnt) MAX_BUF_LEN) (drop (unat off) bs))
          (losses (snd (rpc_read R a w)) < losses w) (fst (rpc_read R a w))
      \<and> (\<forall>e. fst (rpc_read R a w) = Err e \<longrightarrow> cut_off (fst (rpc_read R a w)))"
begin

lemma read_part_rule:
  assumes g: "good (fs_remote s)" and off: "unat off < 2 ^ 63"
    and run: "read_part R f off cnt buf s = (r, s')"
  shows "good (fs_remote s')"
    "answers (\<lambda>(got, buf'). let data = take (min (unat cnt) MAX_BUF_LEN) (drop (unat off) bs)
        in got = length data \<and> buf' = buf @ data) (MAX_TRIES \<le> K) r"
proof -
  let ?a = "\<lparr>ra_file = f, ra_offset = off, ra_count = ucast cnt\<rparr>"
  have "unat cnt < 2 ^ 32" using unsigned_less [of cnt] by simp
  then have u: "unat (ucast cnt :: u64) = unat cnt" by (simp add: unsigned_ucast_eq take_bit_nat_eq_self)
  obtain r1 s1 where call: "do_with_retry R (rpc_read R ?a) s = (r1, s1)"
    by (cases "do_with_retry R (rpc_read R ?a) s")
  note rule = call_rule [OF read_law [OF _ off refl, of _ "ucast cnt"] g call, unfolded u]
  show "good (fs_remote s')" "answers (\<lambda>(got, buf'). let data = take (min (unat cnt) MAX_BUF_LEN) (drop (unat off) bs)
        in got = length data \<and> buf' = buf @ data) (MAX_TRIES \<le> K) r"
    using rule(2) rule(1) run call
    by (cases rule: answers_cases; auto simp: read_part_def bindM_apply retM_apply Let_def)+
qed

lemma read_loop_rule:
  "good (fs_remote s) \<Longrightarrow> buf = take (length buf) (drop (unat off) bs) \<Longrightarrow> length buf \<le> sz \<Longrightarrow>
    sz < 2 ^ 32 \<Longrightarrow> unat off + sz < 2 ^ 63 \<Longrightarrow> sz - length buf < n \<Longrightarrow> read_loop R n f off sz buf s = (r, s') \<Longrightarrow>
    good (fs_remote s') \<and> answers (\<lambda>data. data = take sz (drop (unat off) bs)) (MAX_TRIES \<le> K) r"
proof (induction n arbitrary: buf s)
  case (Suc n)
  let ?X = "drop (unat off) bs" and ?l = "length buf"
  show ?case
  proof (cases "?l < sz")
    case False
    then show ?thesis using Suc.prems by (auto simp: retM_apply)
  next
    case True
    define off' where "off' = off + of_nat ?l"
    define cnt where "cnt = (of_nat (sz - ?l) :: u32)"
    have o: "unat off' = unat off + ?l" and c: "unat cnt = sz - ?l"
    proof -
      have "unat (of_nat ?l :: u64) = ?l" using Suc.prems(3,4) by (simp add: unat_of_nat)
      then show "unat off' = unat off + ?l"
        unfolding off'_def using Suc.prems(3,5) by (subst unat_add_lem [THEN iffD1]) simp_all
      show "unat cnt = sz - ?l" using Suc.prems(4) by (simp add: cnt_def unat_of_nat)
    qed
    obtain r1 s1 where call: "read_part R f off' cnt buf s = (r1, s1)" by (cases "read_part R f off' cnt buf s")
    have "unat off' < 2 ^ 63" using o Suc.prems(3,5) by simp
    note part = read_part_rule [OF Suc.prems(1) this call]
    have run: "read_loop R (Suc n) f off sz buf s =
        bind_out r1 s1 (\<lambda>(got, buf). if got = 0 then retM buf else read_loop R n f off sz buf)"
      using True call by (simp add: bindM_apply off'_def cnt_def)
    from part(2) show ?thesis
    proof (cases rule: answers_cases)
      case (Err e)
      then show ?thesis using part(1) run Suc.prems(7) by (auto simp del: read_loop.simps)
    next
      case (Ok v)
      define data where "data = take (min (sz - ?l) MAX_BUF_LEN) (drop ?l ?X)"
      have "r1 = Prelude.Ok (length data, buf @ data)"
        using Ok by (cases v) (simp add: o c Let_def add.commute data_def)
      then have run': "(if data = [] then retM (buf @ data) else read_loop R n f off sz (buf @ data)) s1 = (r, s')"
        using run Suc.prems(7) by (simp del: read_loop.simps)
      have whole: "buf @ data = take (?l + min (sz - ?l) MAX_BUF_LEN) ?X"
        using Suc.prems(2) unfolding data_def by (metis take_add)
      show ?thesis
      proof (cases "data = []")
        case True': True
        then have "drop ?l ?X = []" using True by (auto simp: MAX_BUF_LEN_def data_def)
        then have "buf = take sz ?X" using Suc.prems(2,3) by simp
        then show ?thesis using run' True' part(1) by (auto simp: retM_apply)
      next
        case False
        have "read_loop R n f off sz (buf @ data) s1 = (r, s')" using run' False by simp
        moreover have "buf @ data = take (length (buf @ data)) ?X" unfolding whole by (rule take_length_take)
        moreover have "length (buf @ data) \<le> sz" using True by (simp add: data_def)
        moreover have "0 < length data" using False by simp
        then have "sz - (?l + length data) < n" using Suc.prems(6) True by linarith
        then have "sz - length (buf @ data) < n" by simp
        ultimately show ?thesis using Suc.IH [of s1 "buf @ data"] part(1) Suc.prems(4,5) by blast
      qed
    qed
  qed
qed simp

lemma fuse_read_rule:
  assumes "good (fs_remote s)" "unat off + unat sz < 2 ^ 63" "fuse_read R f off sz s = (r, s')"
  shows "good (fs_remote s')" "answers (\<lambda>data. data = take (unat sz) (drop (unat off) bs)) (MAX_TRIES \<le> K) r"
proof -
  have "unat sz < 2 ^ 32" using unsigned_less [of sz] by simp
  then have "good (fs_remote s') \<and> answers (\<lambda>data. data = take (unat sz) (drop (unat off) bs)) (MAX_TRIES \<le> K) r"
    using read_loop_rule [of s "[]" off "unat sz" "Suc (unat sz)" r s'] assms by (simp add: fuse_read_def)
  then show "good (fs_remote s')" "answers (\<lambda>data. data = take (unat sz) (drop (unat off) bs)) (MAX_TRIES \<le> K) r" by blast+
qed

end

section \<open>The server behind the network\<close>

definition reading :: "env \<Rightarrow> fid \<Rightarrow> bytes \<Rightarrow> nat \<Rightarrow> world \<Rightarrow> bool" where
  "reading E f bs k w \<longleftrightarrow> regex_documented E \<and> ready w \<and> attrs_fine E (h_disk w)
     \<and> (\<exists>p. write_target (h_disk w) f p bs)
     \<and> unat (w_epoch w) < unat (ctr_disk (w_counter w)) \<and> unat (ctr_disk (w_counter w)) + k < 2 ^ 64 - 2"

lemma reading_content: "reading E f bs k w \<Longrightarrow> content_of (h_disk w) f = bs"
  using view_fid_path [of "h_disk w" f]
  by (auto simp: reading_def write_target_def content_at_def content_of_def file_at_def)

lemma reading_reboot:
  assumes w: "reading E f bs (Suc k) w" and w': "h_disk w' = h_disk w" "w_counter w' = w_counter w" "w_epoch w' = w_epoch w"
  shows "reading E f bs k (reboot w')" "h_disk (reboot w') = h_disk w" "pending (reboot w') f = []"
    "w_epoch w < w_epoch (reboot w')"
proof -
  have "durable_ok (h_disk w) (w_counter w)" using w server_ok_durable readyD(1) unfolding reading_def by blast
  then have d: "durable_ok (h_disk w') (w_counter w)" using w' by simp
  note r = reboot_state [OF d w'(2), of "Suc k"]
  show "reading E f bs k (reboot w')" "h_disk (reboot w') = h_disk w" "pending (reboot w') f = []"
    "w_epoch w < w_epoch (reboot w')"
    using w w' r by (auto simp: reading_def)
qed

lemma read_fine:
  assumes w: "reading E f bs k w" and off: "unat off < 2 ^ 63"
    and a: "a = \<lparr>ra_file = f, ra_offset = off, ra_count = cnt\<rparr>"
  shows "\<exists>x c. handle_read E a w = (Ok x, w\<lparr>w_fid_cache := c\<rparr>) \<and> reading E f bs k (w\<lparr>w_fid_cache := c\<rparr>)
    \<and> rr_data x = take (min (unat cnt) MAX_BUF_LEN) (drop (unat off) bs)"
proof -
  obtain p st where p: "fid_path (h_disk w) f = Some p" "map_of (h_disk w) p = Some (RegFile st bs)"
    using w by (auto simp: reading_def write_target_def content_at_def)
  obtain c where c: "handle_read E a w = (run (read_result E (h_disk w) a), w\<lparr>w_fid_cache := c\<rparr>)"
      "ready (w\<lparr>w_fid_cache := c\<rparr>)"
    using read_calm [of E w a] w off by (auto simp: reading_def a)
  then show ?thesis
    using w p by (auto simp: reading_def read_result_def run_def a MAX_BUF_LEN_def)
qed

lemma read_handler:
  assumes off: "unat off < 2 ^ 63" and a: "a = \<lparr>ra_file = f, ra_offset = off, ra_count = cnt\<rparr>"
  shows "net_handler f (reading E f bs) id (handle_read E a)
    (\<lambda>x _. rr_data x = take (min (unat cnt) MAX_BUF_LEN) (drop (unat off) bs))"
proof
  fix k w assume w: "reading E f bs k w"
  show "reading E f bs j w" if "j \<le> k" for j using w that by (auto simp: reading_def)
  show "h_faults w = []" using w by (simp add: reading_def ready_def)
  show "\<exists>x w'. handle_read E a w = (Ok x, w') \<and> reading E f bs k w'
      \<and> (\<forall>j. rr_data x = take (min (unat cnt) MAX_BUF_LEN) (drop (unat off) bs) \<and> world_srv f j w' = id (world_srv f j w))"
    using read_fine [OF w off a] by (fastforce simp: world_srv_def pending_def split: option.split)
next
  fix k w l assume w: "reading E f bs (Suc k) w"
  show "reading E f bs k (reboot w) \<and> restarts (world_srv f (Suc k, l) w) (world_srv f (k, l) (reboot w))"
    using reading_reboot [OF w refl refl refl] by (simp add: restarts_def)
  fix fs w' assume run: "handle_read E a (w\<lparr>h_faults := fs\<rparr>) = (Crash, w')"
  have "keeps (\<lambda>u. h_disk u = h_disk w \<and> w_counter u = w_counter w \<and> w_epoch u = w_epoch w) (handle_read E a)"
    by (rule same_memory.kp_reading)
  from keepsD [OF this run] have same: "h_disk w' = h_disk w" "w_counter w' = w_counter w" "w_epoch w' = w_epoch w" by simp_all
  show "reading E f bs k (reboot w')
      \<and> request_lost id (world_srv f (Suc k, Suc l) w) (world_srv f (k, l) (reboot w'))"
    using reading_reboot [OF w same] by (simp add: request_lost_def restarts_def)
next
  show "cut_or_calm (handle_read E a)" by (rule coc)
qed simp_all

interpretation read_net: read_server "server_rpc E wire" "behind (reading E f bs) K" "\<lambda>n. losses_in (nt_events n)" K f bs
  for E wire f bs K
proof
  fix n assume n: "behind (reading E f bs) K n"
  show "losses_in (nt_events n) \<le> K" using n by (simp add: behind_def)
  show "behind (reading E f bs) K (rpc_new_client (server_rpc E wire) n)
      \<and> losses_in (nt_events (rpc_new_client (server_rpc E wire) n)) = losses_in (nt_events n)"
    using n by (simp add: server_rpc_def)
  fix off :: u64 and a cnt assume off: "unat off < 2 ^ 63" and a: "a = \<lparr>ra_file = f, ra_offset = off, ra_count = cnt\<rparr>"
  let ?x = "netM wire (handle_read E a) n"
  note rule = net_handler.netM_rule [OF read_handler [OF off a] n, of wire]
  have left: "losses_in (nt_events m) = sv_losses (net_srv f m)" for m by (simp add: net_srv_def ahead_def)
  have "answers (\<lambda>res. rr_data res = take (min (unat cnt) MAX_BUF_LEN) (drop (unat off) bs)
        \<and> losses_in (nt_events (snd ?x)) \<le> losses_in (nt_events n))
      (losses_in (nt_events (snd ?x)) < losses_in (nt_events n)) (fst ?x)"
    unfolding left using rule
    by (auto elim!: answers_mono simp: carried_def restarts_def request_lost_def)
  then show "behind (reading E f bs) K (snd (rpc_read (server_rpc E wire) a n))
      \<and> losses_in (nt_events (snd (rpc_read (server_rpc E wire) a n))) \<le> losses_in (nt_events n)
      \<and> answers (\<lambda>res. rr_data res = take (min (unat cnt) MAX_BUF_LEN) (drop (unat off) bs))
          (losses_in (nt_events (snd (rpc_read (server_rpc E wire) a n))) < losses_in (nt_events n))
          (fst (rpc_read (server_rpc E wire) a n))
      \<and> (\<forall>e. fst (rpc_read (server_rpc E wire) a n) = Err e \<longrightarrow> cut_off (fst (rpc_read (server_rpc E wire) a n)))"
    using rule by (cases rule: answers_cases) (simp_all add: server_rpc_def)
qed

end
