(* ===== verification/Listing.thy ===== *)
theory Listing
  imports Reads
begin

text \<open>
  READDIR: the list of a directory as a client sees it, the pages in which the server gives it, and
  the loop of the kernel over the offsets that the FUSE client makes up.
\<close>

section \<open>The entries of a directory\<close>

definition ftype_at :: "disk \<Rightarrow> path \<Rightarrow> zip_ftype" where
  "ftype_at d p = (if is_dir_at d p then NFDIR else NFREG)"

text \<open>The entry of the named file \<open>k\<close>, with the path of its numbered file\<close>

definition named_entry :: "disk \<Rightarrow> path \<Rightarrow> string \<Rightarrow> path \<times> (u64 \<times> string \<times> zip_ftype)" where
  "named_entry d p k =
     (let number = takeWhile (\<lambda>c. c \<noteq> CHR ''.'') k; rest = dropWhile (\<lambda>c. c \<noteq> CHR ''.'') k
      in (p @ [number], the (parse_u64 number), tl rest, ftype_at d (p @ [number])))"

lemma named_entry_named [simp]:
  "named_entry d p (show_u64 f @ CHR ''.'' # nm) = (p @ [show_u64 f], f, nm, ftype_at d (p @ [show_u64 f]))"
  by (simp add: named_entry_def Let_def)

definition contents :: "disk \<Rightarrow> path \<Rightarrow> (u64 \<times> string \<times> zip_ftype) list" where
  "contents d p =
     remdups (map snd (filter (\<lambda>(q, _). exists_at d q)
       (map (named_entry d p) (filter (\<lambda>k. \<not> is_numbered k) (children d p)))))"

definition dir_entry :: "u64 \<times> string \<times> zip_ftype \<Rightarrow> zip_dir_entry" where
  "dir_entry = (\<lambda>(fid, fname, ftype). \<lparr>de_fid = fid, de_fname = fname, de_type = ftype\<rparr>)"

definition listing :: "disk \<Rightarrow> path \<Rightarrow> zip_dir_entry list" where
  "listing d p = sort_key (\<lambda>de. sint (de_fid de)) (map dir_entry (contents d p))"

lemma mapM_calm:
  "(\<And>x. x \<in> set xs \<Longrightarrow> f x w = (Ok (g x), w)) \<Longrightarrow> mapM f xs w = (Ok (map g xs), w)"
  by (induction xs) (simp_all add: retM_apply bindM_apply)

lemma child_name:
  assumes wf: "names_ok d" and p: "under_root p" and k: "k \<in> set (children d p)"
  obtains f where "k = show_u64 f" | f nm where "k = show_u64 f @ CHR ''.'' # nm"
proof -
  obtain ob where "map_of d (p @ [k]) = Some ob" using k by (auto simp: in_children_iff)
  moreover have "under_root (p @ [k])" using p by (cases p) (auto simp: under_root_def)
  ultimately show thesis using names_okD [OF wf] that by fastforce
qed

lemma named_child:
  assumes "names_ok d" "under_root p" "k \<in> set (children d p)" "\<not> is_numbered k"
  obtains f nm where "k = show_u64 f @ CHR ''.'' # nm"
  using child_name [OF assms(1-3)] assms(4) by (metis is_numbered_show)

lemma dir_entry_of_calm:
  assumes nf: "h_faults w = []"
  shows "dir_entry_of (p @ [show_u64 f @ CHR ''.'' # nm]) w
    = (Ok (named_entry (h_disk w) p (show_u64 f @ CHR ''.'' # nm)), w)"
  using nf by (simp add: dir_entry_of_def ftype_at_def Let_def bindM_apply retM_apply read_calls_calm
      takeWhile_show_u64 dropWhile_show_u64)

lemma fs_read_dir_calm:
  assumes doc: "regex_documented E" and nf: "h_faults w = []" and wf: "names_ok (h_disk w)"
    and p: "under_root p" "is_dir_at (h_disk w) p"
  shows "fs_read_dir E p w = (Ok (contents (h_disk w) p), w)"
proof -
  let ?d = "h_disk w"
  obtain re where re: "env_regex E NUMBERED_FILE_RE = Some re" "num_re re" by (rule regex_documented_num [OF doc])
  have named: "named_of re ?d p = map (\<lambda>k. p @ [k]) (filter (\<lambda>k. \<not> is_numbered k) (children ?d p))"
    using re(2) by (simp add: named_of_def num_re_def filter_map o_def)
  let ?ks = "filter (\<lambda>k. \<not> is_numbered k) (children ?d p)"
  have entry: "dir_entry_of (p @ [k]) w = (Ok (named_entry ?d p k), w)" if "k \<in> set ?ks" for k
    using that dir_entry_of_calm [OF nf] by (auto elim!: child_name [OF wf p(1)])
  have "mapM dir_entry_of (named_of re ?d p) w = (Ok (map (\<lambda>q. named_entry ?d p (last q)) (named_of re ?d p)), w)"
    by (rule mapM_calm) (auto simp: named entry)
  then have entries: "mapM dir_entry_of (named_of re ?d p) w = (Ok (map (named_entry ?d p) ?ks), w)"
    by (simp add: named o_def)
  have num: "fst e \<in> set (numbered_of re ?d p) \<longleftrightarrow> exists_at ?d (fst e)" if e: "e \<in> set (map (named_entry ?d p) ?ks)" for e
  proof -
    obtain k where k: "k \<in> set ?ks" "e = named_entry ?d p k" using e unfolding set_map by blast
    then obtain f nm where "k = show_u64 f @ CHR ''.'' # nm" by (auto elim!: child_name [OF wf p(1)])
    then have "fst e = p @ [show_u64 f]" using k(2) by simp
    then show ?thesis using re(2) by (auto simp: numbered_of_def num_re_def in_children_iff exists_at_def)
  qed
  have "filter (\<lambda>(q, _). q \<in> set (numbered_of re ?d p)) (map (named_entry ?d p) ?ks)
      = filter (\<lambda>(q, _). exists_at ?d q) (map (named_entry ?d p) ?ks)"
  proof (rule filter_cong [OF refl])
    fix e assume "e \<in> set (map (named_entry ?d p) ?ks)"
    from num [OF this] show "(case e of (q, _) \<Rightarrow> q \<in> set (numbered_of re ?d p)) = (case e of (q, _) \<Rightarrow> exists_at ?d q)"
      by (simp add: case_prod_unfold)
  qed
  then show ?thesis
    using re(1) entries get_files_calm [OF nf p(2), of re]
    by (simp add: fs_read_dir_def contents_def bindM_apply retM_apply)
qed

text \<open>An entry of the directory with FID \<open>f\<close> in terms of the view\<close>

definition entry_in :: "(fid \<Rightarrow> nfs_file option) \<Rightarrow> fid \<Rightarrow> zip_dir_entry \<Rightarrow> bool" where
  "entry_in V f e \<longleftrightarrow> (\<exists>v. V (de_fid e) = Some v \<and> nf_parent v = show_u64 f \<and> de_fname e \<in> nf_names v
     \<and> de_type e = (if nf_body v = DirBody then NFDIR else NFREG))"

lemma in_contents:
  assumes wf: "names_ok d" and p: "under_root p"
  shows "(f, nm, ty) \<in> set (contents d p) \<longleftrightarrow>
    nm \<in> names_at d p (show_u64 f) \<and> exists_at d (p @ [show_u64 f]) \<and> ty = ftype_at d (p @ [show_u64 f])"
proof
  assume "(f, nm, ty) \<in> set (contents d p)"
  then obtain e where e0: "(f, nm, ty) = snd e"
      "e \<in> {x \<in> named_entry d p ` {k \<in> set (children d p). \<not> is_numbered k}. case x of (q, _) \<Rightarrow> exists_at d q}"
    unfolding contents_def set_remdups set_map set_filter by (rule imageE)
  have e: "e \<in> named_entry d p ` {k \<in> set (children d p). \<not> is_numbered k}" "exists_at d (fst e)" "snd e = (f, nm, ty)"
    using e0(2) [unfolded mem_Collect_eq case_prod_unfold, THEN conjunct1]
      e0(2) [unfolded mem_Collect_eq case_prod_unfold, THEN conjunct2] e0(1) [symmetric] by - assumption+
  from e(1) obtain k where k: "k \<in> set (children d p)" "\<not> is_numbered k" "e = named_entry d p k" by blast
  obtain f' nm' where n: "k = show_u64 f' @ CHR ''.'' # nm'" by (rule named_child [OF wf p k(1,2)])
  then have "fst e = p @ [show_u64 f]" "f = f'" "nm = nm'" "ty = ftype_at d (p @ [show_u64 f])"
    using e(3) k(3) by auto
  then show "nm \<in> names_at d p (show_u64 f) \<and> exists_at d (p @ [show_u64 f]) \<and> ty = ftype_at d (p @ [show_u64 f])"
    using k(1) e(2) n by (simp add: in_names_at in_children_iff)
next
  assume e: "nm \<in> names_at d p (show_u64 f) \<and> exists_at d (p @ [show_u64 f]) \<and> ty = ftype_at d (p @ [show_u64 f])"
  let ?k = "show_u64 f @ CHR ''.'' # nm"
  have "?k \<in> set (children d p)" "\<not> is_numbered ?k" "named_entry d p ?k = (p @ [show_u64 f], f, nm, ty)"
    using e by (simp_all add: in_names_at in_children_iff)
  then have "(p @ [show_u64 f], f, nm, ty) \<in> named_entry d p ` {k \<in> set (children d p). \<not> is_numbered k}"
    by (intro image_eqI [where x = ?k]) simp_all
  then show "(f, nm, ty) \<in> set (contents d p)"
    using e unfolding contents_def set_remdups set_map set_filter by (intro image_eqI [where x = "(p @ [show_u64 f], f, nm, ty)"]) simp_all
qed

lemma in_listing:
  assumes wf: "wf_store d" and p: "fid_path d f = Some p"
  shows "e \<in> set (listing d p) \<longleftrightarrow> entry_in (view d) f e"
proof -
  have v: "vpath d p" "last p = show_u64 f" using p fid_path_Some [OF wf] by auto
  have ur: "under_root p" "p \<noteq> []" using v(1) by (auto intro: vpath_under_root)
  obtain g nm ty where e: "e = dir_entry (g, nm, ty)" by (cases e) (auto simp: dir_entry_def)
  have inj: "dir_entry x = dir_entry y \<longleftrightarrow> x = y" for x y by (cases x; cases y) (auto simp: dir_entry_def)
  let ?c = "show_u64 g"
  have "e \<in> set (listing d p) \<longleftrightarrow> (g, nm, ty) \<in> set (contents d p)" by (auto simp: listing_def e inj)
  also have "\<dots> \<longleftrightarrow> nm \<in> names_at d p ?c \<and> vpath d (p @ [?c]) \<and> ty = ftype_at d (p @ [?c])"
    using in_contents [OF _ ur(1)] wf v(1) ur(2)
    by (auto simp: wf_store_def vpath_snoc vchild_iff in_names_at exists_at_def)
  also have "\<dots> \<longleftrightarrow> entry_in (view d) f e"
  proof
    assume a: "nm \<in> names_at d p ?c \<and> vpath d (p @ [?c]) \<and> ty = ftype_at d (p @ [?c])"
    then obtain ob where "map_of d (p @ [?c]) = Some ob" using vpath_exists by (metis not_None_eq)
    then show "entry_in (view d) f e"
      using a view_path [OF wf, of "p @ [?c]" g] ur(2) v(2)
      by (cases ob) (auto simp: entry_in_def e dir_entry_def file_at_def ftype_at_def is_dir_at_def)
  next
    assume "entry_in (view d) f e"
    then obtain x where x: "view d g = Some x" "nf_parent x = show_u64 f" "nm \<in> nf_names x"
        "ty = (if nf_body x = DirBody then NFDIR else NFREG)"
      by (auto simp: entry_in_def e dir_entry_def)
    then obtain q where q: "vpath d q" "last q = ?c" "file_at d q = x" unfolding view_Some [OF wf] by blast
    then have b: "butlast q \<noteq> []" "last (butlast q) = show_u64 f" using x(2) by (auto simp: file_at_def split: if_splits)
    then have qs: "q = butlast q @ [?c]" using q(2) by (metis append_butlast_last_id butlast.simps(1))
    then have "vpath d (butlast q)" using q(1) b(1) vpath_snoc by metis
    then have "butlast q = p" using vpath_unique wf v b(2) unfolding wf_store_def by metis
    moreover obtain ob where "map_of d q = Some ob" using q(1) vpath_exists by (metis not_None_eq)
    ultimately show "nm \<in> names_at d p ?c \<and> vpath d (p @ [?c]) \<and> ty = ftype_at d (p @ [?c])"
      using x(3,4) q(1,3) qs ur(2) by (cases ob) (auto simp: file_at_def ftype_at_def is_dir_at_def)
  qed
  finally show ?thesis .
qed

lemma listing_sorted: "sorted (map (\<lambda>e. sint (de_fid e)) (listing d p))"
  by (simp add: listing_def)

lemma listing_distinct: "distinct (listing d p)"
proof -
  have "inj dir_entry" by (auto simp: inj_def dir_entry_def)
  then show ?thesis by (auto simp: listing_def contents_def distinct_map intro: inj_on_subset)
qed

section \<open>The request\<close>

text \<open>The page at an offset\<close>

definition page_size :: "env \<Rightarrow> nat" where
  "page_size E = MAX_BUF_LEN div env_dirent_size E"

definition readdir_result :: "env \<Rightarrow> disk \<Rightarrow> zip_read_dir_args \<Rightarrow> thrift_error + zip_dir_entry list" where
  "readdir_result E d a =
     (case fid_path d (rd_dir a) of
        None \<Rightarrow> Inl (nfs_error NFSERR_STALE)
      | Some p \<Rightarrow>
          if \<not> is_dir_at d p then Inl (nfs_error NFSERR_NOTDIR)
          else Inr (take (page_size E) (drop (unat (rd_offset a)) (listing d p))))"

lemma readdir_calm:
  assumes doc: "regex_documented E" and w: "ready w"
  shows "\<exists>c. handle_readdir E a w = (run (readdir_result E (h_disk w) a), w\<lparr>w_fid_cache := c\<rparr>)
    \<and> ready (w\<lparr>w_fid_cache := c\<rparr>)"
proof -
  let ?d = "h_disk w"
  obtain c where c: "ready (w\<lparr>w_fid_cache := c\<rparr>)"
    "handle_readdir E a w = (case fid_path ?d (rd_dir a) of
       None \<Rightarrow> nfsM NFSERR_STALE
     | Some dpath \<Rightarrow>
         bindM (fs_is_dir dpath) (\<lambda>d.
         if \<not> d then nfsM NFSERR_NOTDIR
         else
           bindM (strM (fs_read_dir E dpath)) (\<lambda>contents.
           if length contents \<le> unat (rd_offset a) then retM []
           else
             let entries = map (\<lambda>(fid, fname, ftype).
                   \<lparr>de_fid = fid, de_fname = fname, de_type = ftype\<rparr>) contents;
                 sorted = sort_key (\<lambda>de. sint (de_fid de)) entries;
                 num_de = min (MAX_BUF_LEN div env_dirent_size E) (length sorted)
             in retM (take num_de (drop (unat (rd_offset a)) sorted))))) (w\<lparr>w_fid_cache := c\<rparr>)"
    unfolding handle_readdir_def by (rule resolve_calm [OF doc w])
  let ?w = "w\<lparr>w_fid_cache := c\<rparr>"
  have nf: "h_faults ?w = []" using readyD(2) [OF w] by simp
  show ?thesis
  proof (cases "fid_path ?d (rd_dir a)")
    case None
    then show ?thesis using c by (auto simp: nfsM_apply readdir_result_def run_def)
  next
    case (Some p)
    then have "under_root p" using fid_path_Some [OF readyD(5) [OF w]] vpath_under_root by blast
    moreover have isd: "(fs_is_dir p :: (world, thrift_error, bool) M) ?w = (Ok (is_dir_at ?d p), ?w)"
      using read_calls_calm(1) [OF nf] by simp
    ultimately have "fs_read_dir E p ?w = (Ok (contents ?d p), ?w)" if "is_dir_at ?d p"
      using fs_read_dir_calm [OF doc nf, of p] readyD(7) [OF w] that by simp
    moreover have len: "length (listing ?d p) = length (contents ?d p)" by (simp add: listing_def)
    then have "take (min (MAX_BUF_LEN div env_dirent_size E) (length (listing ?d p))) (drop (unat (rd_offset a)) (listing ?d p))
        = take (page_size E) (drop (unat (rd_offset a)) (listing ?d p))"
      by (cases "page_size E \<le> length (listing ?d p)") (simp_all add: page_size_def min_def)
    ultimately show ?thesis
      using c Some isd len
      by (auto simp: bindM_apply strM_apply retM_apply nfsM_apply readdir_result_def run_def Let_def
          simp flip: listing_def dir_entry_def split: if_splits)
  qed
qed

end
