(* ===== verification/Browse.thy ===== *)
theory Browse
  imports Listing
begin

text \<open>
  The requests that only read, behind the network: their answers do not depend on lost messages,
  restarts and power cuts. The loop of the kernel over a directory.
\<close>

section \<open>Requests that only read\<close>

text \<open>A server up on the disk \<open>d\<close>, with \<open>k\<close> restarts to come\<close>

definition intact :: "env \<Rightarrow> disk \<Rightarrow> nat \<Rightarrow> world \<Rightarrow> bool" where
  "intact E d k w \<longleftrightarrow> regex_documented E \<and> ready w \<and> h_disk w = d
     \<and> unat (w_epoch w) < unat (ctr_disk (w_counter w)) \<and> unat (ctr_disk (w_counter w)) + k < 2 ^ 64 - 2"

lemma intact_reboot:
  assumes w: "intact E d (Suc k) w" and w': "h_disk w' = h_disk w" "w_counter w' = w_counter w" "w_epoch w' = w_epoch w"
  shows "intact E d k (reboot w')" "h_disk (reboot w') = h_disk w" "pending (reboot w') f = []"
    "w_epoch w < w_epoch (reboot w')"
proof -
  have "durable_ok (h_disk w) (w_counter w)" using w server_ok_durable readyD(1) unfolding intact_def by blast
  then have d: "durable_ok (h_disk w') (w_counter w)" using w' by simp
  note r = reboot_state [OF d w'(2), of "Suc k"]
  show "intact E d k (reboot w')" "h_disk (reboot w') = h_disk w" "pending (reboot w') f = []"
    "w_epoch w < w_epoch (reboot w')"
    using w w' r by (auto simp: intact_def)
qed

lemma quiet_handler:
  assumes calm: "\<And>w. regex_documented E \<Longrightarrow> ready w \<Longrightarrow> h_disk w = d \<Longrightarrow>
      \<exists>c. m w = (Ok x, w\<lparr>w_fid_cache := c\<rparr>) \<and> ready (w\<lparr>w_fid_cache := c\<rparr>)"
    and keeps: "\<And>c e. keeps (\<lambda>u. h_disk u = d \<and> w_counter u = c \<and> w_epoch u = e) m"
    and cut: "cut_or_calm m"
  shows "net_handler f (intact E d) id m (\<lambda>y _. y = x)"
proof
  fix k w assume w: "intact E d k w"
  show "intact E d j w" if "j \<le> k" for j using w that by (auto simp: intact_def)
  show "h_faults w = []" using w by (simp add: intact_def ready_def)
  obtain c where c: "m w = (Ok x, w\<lparr>w_fid_cache := c\<rparr>)" "ready (w\<lparr>w_fid_cache := c\<rparr>)"
    using calm w unfolding intact_def by blast
  moreover have "intact E d k (w\<lparr>w_fid_cache := c\<rparr>)" using w c(2) by (simp add: intact_def)
  ultimately show "\<exists>y w'. m w = (Ok y, w') \<and> intact E d k w'
      \<and> (\<forall>j. y = x \<and> world_srv f j w' = id (world_srv f j w))"
    by (fastforce simp: world_srv_def pending_def split: option.split)
next
  fix k w l assume w: "intact E d (Suc k) w"
  show "intact E d k (reboot w) \<and> restarts (world_srv f (Suc k, l) w) (world_srv f (k, l) (reboot w))"
    using intact_reboot [OF w refl refl refl] by (simp add: restarts_def)
  fix fs w' assume run: "m (w\<lparr>h_faults := fs\<rparr>) = (Crash, w')"
  have d: "h_disk w = d" using w by (simp add: intact_def)
  from keepsD [OF keeps [of "w_counter w" "w_epoch w"] run]
  have same: "h_disk w' = h_disk w" "w_counter w' = w_counter w" "w_epoch w' = w_epoch w" by (simp_all add: d)
  show "intact E d k (reboot w')
      \<and> request_lost id (world_srv f (Suc k, Suc l) w) (world_srv f (k, l) (reboot w'))"
    using intact_reboot [OF w same] by (simp add: request_lost_def restarts_def)
next
  show "cut_or_calm m" by (rule cut)
qed simp_all

text \<open>The answers that the network lets through are those of the quiet server.\<close>

lemma quiet_law:
  assumes h: "net_handler f (intact E d) id m (\<lambda>y _. y = x)" and n: "behind (intact E d) K n"
  shows "behind (intact E d) K (snd (netM wire m n)) \<and> losses_in (nt_events (snd (netM wire m n))) \<le> losses_in (nt_events n)
    \<and> answers (\<lambda>y. y = x) (losses_in (nt_events (snd (netM wire m n))) < losses_in (nt_events n)) (fst (netM wire m n))
    \<and> (\<forall>e. fst (netM wire m n) = Err e \<longrightarrow> cut_off (fst (netM wire m n)))"
proof -
  note rule = net_handler.netM_rule [OF h n, of wire]
  have left: "losses_in (nt_events n') = sv_losses (net_srv f n')" for n' by (simp add: net_srv_def ahead_def)
  have "answers (\<lambda>y. y = x \<and> losses_in (nt_events (snd (netM wire m n))) \<le> losses_in (nt_events n))
      (losses_in (nt_events (snd (netM wire m n))) < losses_in (nt_events n)) (fst (netM wire m n))"
    unfolding left using rule by (auto elim!: answers_mono simp: carried_def restarts_def request_lost_def)
  then show ?thesis using rule by (cases rule: answers_cases) simp_all
qed

interpretation quiet_net: lossy_client "server_rpc E wire" "behind (intact E d) K" "\<lambda>n. losses_in (nt_events n)" K
  for E wire d K
  by unfold_locales (simp_all add: behind_def server_rpc_def)

text \<open>The answers of the client to the kernel\<close>

lemma quiet_call:
  assumes h: "net_handler f (intact E d) id m (\<lambda>y _. y = x)" and n: "behind (intact E d) K (fs_remote s)"
    and run: "do_with_retry (server_rpc E wire) (netM wire m) s = (r, s')"
  shows "behind (intact E d) K (fs_remote s')" "answers (\<lambda>y. y = x) (MAX_TRIES \<le> K) r"
  using quiet_net.call_rule [where rpc = "netM wire m" and Q = "\<lambda>y. y = x", OF quiet_law [OF h] n run] by simp_all

lemma quiet_reply:
  assumes "net_handler f (intact E d) id m (\<lambda>y _. y = x)" "behind (intact E d) K (fs_remote s)"
    and "bindM (do_with_retry (server_rpc E wire) (netM wire m)) (\<lambda>y. retM (g y)) s = (r, s')"
  shows "behind (intact E d) K (fs_remote s') \<and> (r = Ok (g x) \<or> (\<exists>e. r = Err e) \<and> MAX_TRIES \<le> K)"
proof -
  obtain r1 s1 where c: "do_with_retry (server_rpc E wire) (netM wire m) s = (r1, s1)"
    by (cases "do_with_retry (server_rpc E wire) (netM wire m) s")
  show ?thesis
    using quiet_call(2) [OF assms(1,2) c] quiet_call(1) [OF assms(1,2) c] assms(3) c
    by (cases rule: answers_cases) (auto simp: bindM_apply retM_apply)
qed

section \<open>GETATTR and LOOKUP\<close>

lemma server_calls:
  "rpc_getattr (server_rpc E wire) = (\<lambda>f. netM wire (handle_getattr E f))"
  "rpc_lookup (server_rpc E wire) = (\<lambda>a. netM wire (handle_lookup E a))"
  by (simp_all add: server_rpc_def)

lemma getattr_quiet:
  assumes fine: "attrs_fine E d" and x: "getattr_result E d f = Inr x"
  shows "net_handler f (intact E d) id (handle_getattr E f) (\<lambda>y _. y = x)"
proof (rule quiet_handler)
  show "\<exists>c. handle_getattr E f w = (Ok x, w\<lparr>w_fid_cache := c\<rparr>) \<and> ready (w\<lparr>w_fid_cache := c\<rparr>)"
    if "regex_documented E" "ready w" "h_disk w = d" for w
    using getattr_calm [OF that(1,2), of f] that(3) fine x by (simp add: run_def)
qed (rule same_memory.kp_reading coc)+

lemma lookup_quiet:
  assumes fine: "attrs_fine E d" and plain: "plain_name (da_filename a)" and x: "lookup_result E d a = Inr x"
  shows "net_handler f (intact E d) id (handle_lookup E a) (\<lambda>y _. y = x)"
proof (rule quiet_handler)
  show "\<exists>c. handle_lookup E a w = (Ok x, w\<lparr>w_fid_cache := c\<rparr>) \<and> ready (w\<lparr>w_fid_cache := c\<rparr>)"
    if "regex_documented E" "ready w" "h_disk w = d" for w
    using lookup_calm [OF that(1,2) _ plain] that(3) fine x by (simp add: run_def)
qed (rule same_memory.kp_reading coc)+

lemma readdir_quiet:
  assumes x: "readdir_result E d a = Inr x"
  shows "net_handler f (intact E d) id (handle_readdir E a) (\<lambda>y _. y = x)"
proof (rule quiet_handler)
  show "\<exists>c. handle_readdir E a w = (Ok x, w\<lparr>w_fid_cache := c\<rparr>) \<and> ready (w\<lparr>w_fid_cache := c\<rparr>)"
    if "regex_documented E" "ready w" "h_disk w = d" for w
    using readdir_calm [OF that(1,2), of a] that(3) x by (simp add: run_def)
qed (rule same_memory.kp_reading coc)+

section \<open>The loop over a directory\<close>

text \<open>
  How the kernel reads a directory: it asks again at the offset of the last entry it got, until a reply is
  empty. \<open>n\<close> bounds the number of requests.
\<close>

fun list_dir :: "'w rpc \<Rightarrow> (dirent list \<Rightarrow> dirent \<Rightarrow> bool) \<Rightarrow> nat \<Rightarrow> u64 \<Rightarrow> u64 \<Rightarrow> dirent list \<Rightarrow> ('w fuse, c_int, dirent list) M" where
  "list_dir R fits 0 ino offset seen = hangM"
| "list_dir R fits (Suc n) ino offset seen =
     bindM (fuse_readdir R fits ino offset) (\<lambda>ents.
     if ents = [] then retM seen else list_dir R fits n ino (fst (snd (last ents))) (seen @ ents))"

text \<open>The directory entries of a listing, with the offset after each\<close>

definition dirent_of :: "u64 \<Rightarrow> nat \<times> zip_dir_entry \<Rightarrow> dirent" where
  "dirent_of offset = (\<lambda>(i, e). (de_fid e, offset + of_nat i, kind_of (de_type e), de_fname e))"

definition dirents :: "zip_dir_entry list \<Rightarrow> dirent list" where
  "dirents es = map (dirent_of 0) (enumerate 1 es)"

lemma add_entries_prefix:
  "\<exists>m \<le> length es. add_entries fits offset (of_nat c) added es = added @ map (dirent_of offset) (enumerate c (take m es))
    \<and> (es \<noteq> [] \<and> fits added (dirent_of offset (c, hd es)) \<longrightarrow> 0 < m)"
proof (induction es arbitrary: c added)
  case (Cons e es)
  let ?item = "dirent_of offset (c, e)"
  show ?case
  proof (cases "fits added ?item")
    case False
    then show ?thesis by (intro exI [of _ 0]) (simp add: dirent_of_def)
  next
    case True
    obtain m where "m \<le> length es" "add_entries fits offset (of_nat (Suc c)) (added @ [?item]) es
        = (added @ [?item]) @ map (dirent_of offset) (enumerate (Suc c) (take m es))"
      using Cons.IH [of "Suc c" "added @ [?item]"] by blast
    then show ?thesis
      using True by (intro exI [of _ "Suc m"]) (simp add: dirent_of_def Let_def add.commute)
  qed
qed simp

text \<open>A server that gives the listing \<open>es\<close> of the directory \<open>ino\<close> in pages of at most \<open>P\<close> entries\<close>

locale dir_server = lossy_client R good losses K for R :: "'w rpc" and good losses K +
  fixes ino :: fid and es :: "zip_dir_entry list" and P :: nat
  assumes page_pos: "0 < P"
    and page_law: "good w \<Longrightarrow> a = \<lparr>rd_dir = ino, rd_offset = offset\<rparr> \<Longrightarrow>
      good (snd (rpc_readdir R a w)) \<and> losses (snd (rpc_readdir R a w)) \<le> losses w
      \<and> answers (\<lambda>page. page = take P (drop (unat offset) es))
          (losses (snd (rpc_readdir R a w)) < losses w) (fst (rpc_readdir R a w))
      \<and> (\<forall>e. fst (rpc_readdir R a w) = Err e \<longrightarrow> cut_off (fst (rpc_readdir R a w)))"
begin

lemma page_rule:
  assumes g: "good (fs_remote s)" and k: "k \<le> length es" "length es < 2 ^ 64" and fits: "\<And>x. fits [] x"
    and run: "fuse_readdir R fits ino (of_nat k) s = (r, s')"
  shows "good (fs_remote s')"
    "answers (\<lambda>ents. \<exists>m. ents = map (dirent_of 0) (enumerate (Suc k) (take m (drop k es))) \<and> k + m \<le> length es
        \<and> (k < length es \<longrightarrow> 0 < m)) (MAX_TRIES \<le> K) r"
proof -
  let ?a = "\<lparr>rd_dir = ino, rd_offset = of_nat k\<rparr>"
  have u: "unat (of_nat k :: u64) = k" using k by (simp add: unat_of_nat take_bit_nat_eq_self)
  obtain r1 s1 where call: "do_with_retry R (rpc_readdir R ?a) s = (r1, s1)"
    by (cases "do_with_retry R (rpc_readdir R ?a) s")
  have law: "good (snd (rpc_readdir R ?a w)) \<and> losses (snd (rpc_readdir R ?a w)) \<le> losses w
      \<and> answers (\<lambda>page. page = take P (drop k es)) (losses (snd (rpc_readdir R ?a w)) < losses w) (fst (rpc_readdir R ?a w))
      \<and> (\<forall>e. fst (rpc_readdir R ?a w) = Err e \<longrightarrow> cut_off (fst (rpc_readdir R ?a w)))" if "good w" for w
    using page_law [OF that refl, of "of_nat k"] unfolding u .
  have rule: "good (fs_remote s1)" "answers (\<lambda>page. page = take P (drop k es)) (MAX_TRIES \<le> K) r1"
    using call_rule [OF law g call] by blast+
  have shift: "dirent_of (of_nat k) x = dirent_of 0 (k + fst x, snd x)" for x :: "nat \<times> zip_dir_entry"
    by (cases x) (simp add: dirent_of_def)
  have enum: "map (dirent_of (of_nat k)) (enumerate 1 xs) = map (dirent_of 0) (enumerate (Suc k) xs)" for xs
    by (rule nth_equalityI) (simp_all add: shift nth_enumerate_eq)
  have "answers (\<lambda>ents. \<exists>m. ents = map (dirent_of 0) (enumerate (Suc k) (take m (drop k es))) \<and> k + m \<le> length es
        \<and> (k < length es \<longrightarrow> 0 < m)) (MAX_TRIES \<le> K) r \<and> good (fs_remote s')"
    using rule(2)
  proof (cases rule: answers_cases)
    case (Ok page)
    obtain m where m: "m \<le> length page"
        "add_entries fits (of_nat k) (of_nat 1) [] page = [] @ map (dirent_of (of_nat k)) (enumerate 1 (take m page))"
        "page \<noteq> [] \<and> fits [] (dirent_of (of_nat k) (1, hd page)) \<longrightarrow> 0 < m"
      using add_entries_prefix [of page fits "of_nat k" 1 "[]"] by blast
    have "length page = min (length es - k) P" using Ok(2) by simp
    then have "m \<le> P" "k + m \<le> length es" using m(1) k by linarith+
    then have "take m page = take m (drop k es)" "k + m \<le> length es" using Ok(2) by (simp_all add: min_absorb1)
    moreover have "k < length es \<longrightarrow> 0 < m" using m(3) Ok(2) fits page_pos by auto
    ultimately show ?thesis
      using run call Ok(1) m(2) rule(1) enum by (auto simp: fuse_readdir_def bindM_apply retM_apply)
  qed (use run call rule(1) in \<open>auto simp: fuse_readdir_def bindM_apply\<close>)
  then show "good (fs_remote s')"
    "answers (\<lambda>ents. \<exists>m. ents = map (dirent_of 0) (enumerate (Suc k) (take m (drop k es))) \<and> k + m \<le> length es
        \<and> (k < length es \<longrightarrow> 0 < m)) (MAX_TRIES \<le> K) r" by blast+
qed

lemma list_dir_rule:
  assumes len: "length es < 2 ^ 64" and fits: "\<And>x. fits [] x"
  shows "good (fs_remote s) \<Longrightarrow> k \<le> length es \<Longrightarrow> length es - k < n \<Longrightarrow> seen = dirents (take k es) \<Longrightarrow>
    list_dir R fits n ino (of_nat k) seen s = (r, s') \<Longrightarrow>
    good (fs_remote s') \<and> answers (\<lambda>ents. ents = dirents es) (MAX_TRIES \<le> K) r"
proof (induction n arbitrary: k seen s)
  case (Suc n)
  obtain r1 s1 where call: "fuse_readdir R fits ino (of_nat k) s = (r1, s1)"
    by (cases "fuse_readdir R fits ino (of_nat k) s")
  note page = page_rule [OF Suc.prems(1,2) len fits call]
  from page(2) show ?case
  proof (cases rule: answers_cases)
    case (Ok ents)
    then obtain m where m: "ents = map (dirent_of 0) (enumerate (Suc k) (take m (drop k es)))" "k + m \<le> length es"
        "k < length es \<longrightarrow> 0 < m" by blast
    have seen: "seen @ ents = dirents (take (k + m) es)"
      using m(2) Suc.prems(2) by (simp add: m(1) Suc.prems(4) dirents_def take_add enumerate_append_eq)
    show ?thesis
    proof (cases "m = 0")
      case True
      then have "k = length es" using m(3) Suc.prems(2) by auto
      then show ?thesis using True m(1) Suc.prems(4,5) call Ok(1) page(1) by (auto simp: bindM_apply retM_apply)
    next
      case False
      have len_m: "length (take m (drop k es)) = m" using m(2) by simp
      then have "length ents = m" by (simp add: m(1))
      then have l: "length (take m (drop k es)) = m" "ents \<noteq> []" using False len_m by auto
      then have "last ents = dirent_of 0 (k + m, last (take m (drop k es)))"
        using False m(1) by (simp add: last_conv_nth nth_enumerate_eq)
      then have "fst (snd (last ents)) = of_nat (k + m)" by (simp add: dirent_of_def)
      then have "list_dir R fits n ino (of_nat (k + m)) (seen @ ents) s1 = (r, s')"
        using Suc.prems(5) call Ok(1) l(2) by (simp add: bindM_apply)
      moreover have "length es - (k + m) < n" using Suc.prems(3) m(2) False by linarith
      ultimately show ?thesis using Suc.IH [OF page(1) m(2) _ seen] by blast
    qed
  qed (use Suc.prems(5) call page(1) in \<open>auto simp: bindM_apply\<close>)
qed simp

end

lemma readdir_page:
  assumes "fid_path d ino = Some p" "is_dir_at d p" "a = \<lparr>rd_dir = ino, rd_offset = offset\<rparr>"
  shows "readdir_result E d a = Inr (take (page_size E) (drop (unat offset) (listing d p)))"
  using assms by (simp add: readdir_result_def)

lemma kept_page:
  assumes "fid_path d ino = Some p" "is_dir_at d p" "behind (intact E d) K n" "a = \<lparr>rd_dir = ino, rd_offset = offset\<rparr>"
  shows "behind (intact E d) K (snd (rpc_readdir (server_rpc E wire) a n))
    \<and> losses_in (nt_events (snd (rpc_readdir (server_rpc E wire) a n))) \<le> losses_in (nt_events n)
    \<and> answers (\<lambda>page. page = take (page_size E) (drop (unat offset) (listing d p)))
        (losses_in (nt_events (snd (rpc_readdir (server_rpc E wire) a n))) < losses_in (nt_events n))
        (fst (rpc_readdir (server_rpc E wire) a n))
    \<and> (\<forall>e. fst (rpc_readdir (server_rpc E wire) a n) = Err e \<longrightarrow> cut_off (fst (rpc_readdir (server_rpc E wire) a n)))"
  using quiet_law [OF readdir_quiet [OF readdir_page [OF assms(1,2,4)]] assms(3), of wire] by (simp add: server_rpc_def)

text \<open>A connection to a server on a disk with the directory \<open>ino\<close>\<close>

definition lists :: "env \<Rightarrow> disk \<Rightarrow> fid \<Rightarrow> zip_dir_entry list \<Rightarrow> nat \<Rightarrow> net \<Rightarrow> bool" where
  "lists E d ino es K n \<longleftrightarrow> behind (intact E d) K n
     \<and> (\<exists>p. fid_path d ino = Some p \<and> is_dir_at d p \<and> es = listing d p) \<and> 0 < page_size E"

interpretation dir_net: dir_server "server_rpc E wire" "lists E d ino es K" "\<lambda>n. losses_in (nt_events n)" K ino es
    "if page_size E = 0 then 1 else page_size E"
  for E wire d ino es K
proof
  fix n assume n: "lists E d ino es K n"
  then show "losses_in (nt_events n) \<le> K" by (simp add: lists_def behind_def)
  show "lists E d ino es K (rpc_new_client (server_rpc E wire) n)
      \<and> losses_in (nt_events (rpc_new_client (server_rpc E wire) n)) = losses_in (nt_events n)"
    using n by (simp add: server_rpc_def)
  fix a offset assume a: "a = \<lparr>rd_dir = ino, rd_offset = offset\<rparr>"
  obtain p where p: "fid_path d ino = Some p" "is_dir_at d p" "es = listing d p" "0 < page_size E"
    and b: "behind (intact E d) K n"
    using n by (auto simp: lists_def)
  show "lists E d ino es K (snd (rpc_readdir (server_rpc E wire) a n))
      \<and> losses_in (nt_events (snd (rpc_readdir (server_rpc E wire) a n))) \<le> losses_in (nt_events n)
      \<and> answers (\<lambda>page. page = take (if page_size E = 0 then 1 else page_size E) (drop (unat offset) es))
          (losses_in (nt_events (snd (rpc_readdir (server_rpc E wire) a n))) < losses_in (nt_events n))
          (fst (rpc_readdir (server_rpc E wire) a n))
      \<and> (\<forall>e. fst (rpc_readdir (server_rpc E wire) a n) = Err e \<longrightarrow> cut_off (fst (rpc_readdir (server_rpc E wire) a n)))"
    using kept_page [OF p(1,2) b a, of wire] p by (simp add: lists_def)
qed simp

end
