(* ===== verification/SetAttrs.thy ===== *)
theory SetAttrs
  imports Writes
begin

text \<open>
  SETATTR when nothing fails: the size and the times that were asked for are what the reply
  reports, and the content is cut or filled with zeros.
\<close>

definition changed_obj :: "tspec \<Rightarrow> zip_sattr \<Rightarrow> obj \<Rightarrow> obj" where
  "changed_obj now at ob = stamp_obj (sa_atime at) (sa_mtime at) (resize_obj now (sa_size at) ob)"

text \<open>The attributes the server can set, and can report afterwards\<close>

definition change_ok :: "env \<Rightarrow> disk \<Rightarrow> path \<Rightarrow> tspec \<Rightarrow> zip_sattr \<Rightarrow> obj \<Rightarrow> bool" where
  "change_ok E d p now at ob \<longleftrightarrow> times_given_ok (sa_atime at) (sa_mtime at)
     \<and> (case sa_size at of None \<Rightarrow> True | Some n \<Rightarrow> unat n < 2 ^ 63 \<and> is_file_at d p)
     \<and> times_ok (obj_stamps (changed_obj now at ob))
     \<and> (\<not> env_overflow_checks E \<or> unat (size_of_obj E d p (changed_obj now at ob)) + 4095 < 2 ^ 32)"

lemma changed_obj_kind:
  "(case changed_obj now at ob of DirObj _ \<Rightarrow> True | RegFile _ _ \<Rightarrow> False)
     \<longleftrightarrow> (case ob of DirObj _ \<Rightarrow> True | RegFile _ _ \<Rightarrow> False)"
  by (cases "sa_atime at"; cases "sa_size at"; cases ob) (simp_all add: changed_obj_def)

lemma changed_obj_body:
  "obj_body (changed_obj now at ob) =
     (case (sa_size at, ob) of
        (Some n, RegFile st bs) \<Rightarrow> FileBody (resize_bytes (unat n) bs)
      | _ \<Rightarrow> obj_body ob)"
  by (cases "sa_atime at"; cases "sa_size at"; cases ob) (simp_all add: changed_obj_def)

lemma children_keys: "children d p = map last (filter (\<lambda>q. q \<noteq> [] \<and> butlast q = p) (map fst d))"
  by (simp add: children_def filter_map o_def case_prod_unfold)

lemma set_attr_disk_children:
  assumes "map_of d p = Some ob"
  shows "children (set_attr_disk now p at mt sz ob d) q = children d q"
proof -
  have "p \<in> fst ` set d" using assms by (metis map_of_SomeD fst_conv image_eqI)
  then have "map fst (AList.update p x d) = map fst d" for x by (simp add: update_keys)
  then show ?thesis by (simp add: children_keys set_attr_disk_def)
qed

lemma setattr_calm:
  assumes doc: "regex_documented E" and w: "ready w"
    and p: "fid_path (h_disk w) (ss_file a) = Some p" and ob: "map_of (h_disk w) p = Some ob"
    and ok: "change_ok E (h_disk w) p (h_clock w) (ss_attributes a) ob"
  shows "\<exists>w'. handle_setattr E a w =
      (Ok (attr_of E (h_disk w) p (ss_file a) (changed_obj (h_clock w) (ss_attributes a) ob)), w')
    \<and> ready w' \<and> w_name_lock w' = w_name_lock w
    \<and> view (h_disk w') = (view (h_disk w))(ss_file a \<mapsto> (file_at (h_disk w) p)
        \<lparr>nf_body := obj_body (changed_obj (h_clock w) (ss_attributes a) ob)\<rparr>)"
proof -
  let ?d = "h_disk w" and ?at = "ss_attributes a" and ?f = "ss_file a"
  let ?ob = "changed_obj (h_clock w) (ss_attributes a) ob"
  note wf = readyD(5) [OF w]
  have vp: "vpath ?d p" "last p = show_u64 ?f" "p \<noteq> []" using p fid_path_Some [OF wf] by auto
  obtain c where c: "cache_ok ?d c" "ready (w\<lparr>w_fid_cache := c\<rparr>)"
    "handle_setattr E a w = (case fid_path ?d ?f of
       Some fpath_numbered \<Rightarrow>
         thenM (fs_set_attr E fpath_numbered (sa_atime ?at) (sa_mtime ?at) (sa_size ?at))
               (fs_get_attr E fpath_numbered ?f)
     | None \<Rightarrow> nfsM NFSERR_STALE) (w\<lparr>w_fid_cache := c\<rparr>)"
    unfolding handle_setattr_def by (rule resolve_calm [OF doc w])
  let ?w = "w\<lparr>w_fid_cache := c\<rparr>"
  define d' where "d' = set_attr_disk (h_clock w) p (sa_atime ?at) (sa_mtime ?at) (sa_size ?at) ob ?d"
  let ?w' = "?w\<lparr>h_disk := d'\<rparr>"
  note nf = readyD(2) [OF w]
  have set: "fs_set_attr E p (sa_atime ?at) (sa_mtime ?at) (sa_size ?at) ?w = (Ok (), ?w')"
    using set_attr_calm [of ?w p ob "sa_size ?at" "sa_atime ?at" "sa_mtime ?at" E] nf ob ok
    by (auto simp: d'_def change_ok_def split: option.splits)
  have at': "map_of d' p = Some ?ob"
    using ob by (auto simp: d'_def set_attr_disk_def changed_obj_def)
  have kids: "children d' q = children ?d q" for q
    unfolding d'_def by (rule set_attr_disk_children [OF ob])
  have same: "size_of_obj E d' p ?ob = size_of_obj E ?d p ?ob"
    by (auto simp: size_of_obj_def meta_len_def kids split: obj.split)
  have get: "(fs_get_attr E p ?f :: (world, thrift_error, zip_fattr) M) ?w' = (Ok (attr_of E ?d p ?f ?ob), ?w')"
    using get_attr_calm [of ?w' p ?ob ?f E] nf at' vp ok same by (simp add: change_ok_def attr_of_def)
  have t: "touches (sa_size ?at = None) p ?d d'"
    unfolding d'_def by (rule touches_set_attr [OF ob])
  have wf': "wf_store d'" using t same_shape_wf_store wf by (auto simp: touches_def)
  have v: "view d' = (view ?d)(?f \<mapsto> (file_at ?d p)\<lparr>nf_body := obj_body ?ob\<rparr>)"
    by (rule content_view [OF wf wf' agree_off_touches [OF t] p at'])
  have "cache_ok d' c" by (rule cache_ok_upd_same [OF wf wf' c(1) v view_fid_path [OF p]]) simp
  then have "ready ?w'"
    using w wf' touches_below [OF t] by (simp add: ready_def server_ok_def)
  then show ?thesis using c(3) p set get v by (auto simp: thenM_apply)
qed

text \<open>The times in the reply are the ones that were asked for.\<close>

lemma zip_time_roundtrip:
  assumes "usec_ok t"
  shows "zip_time_of (to_tspec t) = t"
proof -
  have lt: "unat (tv_useconds t) < 1000000" using assms by (simp add: usec_ok_def)
  then have m: "unat (tv_useconds t * of_nat NANOS_PER_MICRO) = unat (tv_useconds t) * 1000"
    by (subst unat_mult_lem [THEN iffD1]) (auto simp: NANOS_PER_MICRO_def)
  then have low: "unat (ucast (tv_useconds t * of_nat NANOS_PER_MICRO) :: u32) = unat (tv_useconds t) * 1000"
    using lt by (simp add: unsigned_ucast_eq take_bit_nat_eq_self)
  have "unat (ucast ((ucast (tv_useconds t * of_nat NANOS_PER_MICRO) :: u32) div of_nat NANOS_PER_MICRO) :: u64)
      = unat (tv_useconds t)"
    using lt unfolding unsigned_ucast_eq [where 'b = 32] unat_div_distrib low
    by (simp add: NANOS_PER_MICRO_def take_bit_nat_eq_self)
  then show ?thesis
    by (simp add: zip_time_of_def to_tspec_def unsigned_word_eqI)
qed

lemma set_times_reported:
  assumes "sa_atime at = Some t" "times_given_ok (sa_atime at) (sa_mtime at)"
  shows "fa_atime (attr_of E d p f (changed_obj now at ob)) = t"
    "fa_mtime (attr_of E d p f (changed_obj now at ob)) = (case sa_mtime at of None \<Rightarrow> t | Some m \<Rightarrow> m)"
proof -
  have "st_atime (obj_stamps (changed_obj now at ob)) = to_tspec t"
    "st_mtime (obj_stamps (changed_obj now at ob)) = to_tspec (case sa_mtime at of None \<Rightarrow> t | Some m \<Rightarrow> m)"
    using assms(1) by (cases "resize_obj now (sa_size at) ob"; simp add: changed_obj_def)+
  then show "fa_atime (attr_of E d p f (changed_obj now at ob)) = t"
    "fa_mtime (attr_of E d p f (changed_obj now at ob)) = (case sa_mtime at of None \<Rightarrow> t | Some m \<Rightarrow> m)"
    using assms by (auto simp: attr_of_def zip_time_roundtrip times_given_ok_def split: option.splits)
qed

end
