(* ===== verification/Sample.thy ===== *)
theory Sample
  imports SetAttrs
begin

text \<open>
  A concrete server on a small store, at which the properties are applied: a regular
  expression engine for the two patterns of the server, and a store with a directory
  \<^verbatim>\<open>docs\<close> (FID 2) that holds the file \<^verbatim>\<open>abc\<close> (FID 3).
\<close>

section \<open>A regular expression engine for the two patterns\<close>

definition sample_regex :: "string \<Rightarrow> compiled option" where
  "sample_regex pat =
     (if pat = NUMBERED_FILE_RE
      then Some (\<lambda>s. if s \<noteq> [] \<and> list_all is_digit s then Some [Some s] else None)
      else Some (\<lambda>s. case split_name s of
             Some (ds, nm) \<Rightarrow> if dot_match (butlast (drop 8 pat)) nm then Some [Some s, Some ds] else None
           | None \<Rightarrow> None))"

definition env0 :: env where
  "env0 = \<lparr>env_regex = sample_regex, env_tid = ''ThreadId(1)'', env_dirent_size = 56,
           env_dir_len = (\<lambda>_. 4096), env_overflow_checks = True\<rparr>"

lemma env0_documented: "regex_documented env0"
proof -
  have num: "env_regex env0 NUMBERED_FILE_RE
      = Some (\<lambda>s. if s \<noteq> [] \<and> list_all is_digit s then Some [Some s] else None)"
    by (simp add: env0_def sample_regex_def)
  have len: "named_file_re fname \<noteq> NUMBERED_FILE_RE" "butlast (drop 8 (named_file_re fname)) = fname" for fname
    by (simp_all add: named_file_re_def NUMBERED_FILE_RE_def)
  have re: "env_regex env0 (named_file_re fname) = Some (\<lambda>s. case split_name s of
       Some (ds, nm) \<Rightarrow> if dot_match (butlast (drop 8 (named_file_re fname))) nm then Some [Some s, Some ds] else None
     | None \<Rightarrow> None)" for fname
    using len(1) [of fname] by (simp add: env0_def sample_regex_def)
  have named: "env_regex env0 (named_file_re fname) = Some (\<lambda>s. case split_name s of
       Some (ds, nm) \<Rightarrow> if dot_match fname nm then Some [Some s, Some ds] else None
     | None \<Rightarrow> None)" for fname
    using re [of fname] unfolding len(2) .
  show ?thesis unfolding regex_documented_def using num named by (auto simp: is_match_def)
qed

section \<open>A store\<close>

definition stamps0 :: stamps where
  "stamps0 = \<lparr>st_atime = (100, 0), st_mtime = (100, 0), st_btime = None\<rparr>"

definition disk0 :: disk where
  "disk0 =
     [([], DirObj stamps0), ([''1''], DirObj stamps0), ([''tmp''], DirObj stamps0),
      ([''1'', ''2''], DirObj stamps0), ([''1'', ''2.docs''], RegFile stamps0 []),
      ([''1'', ''2'', ''3''], RegFile stamps0 [10, 20, 30]), ([''1'', ''2'', ''3.abc''], RegFile stamps0 [])]"

definition counter0 :: apu where
  "counter0 = \<lparr>ctr_mem = 4, ctr_disk = 4, ctr_poisoned = False\<rparr>"

definition world0 :: world where
  "world0 =
     \<lparr>h_disk = disk0, h_faults = [], h_clock = (200, 0), w_counter = counter0,
      w_name_lock = {}, w_epoch = 3, w_fid_cache = [], w_cache_poisoned = False,
      w_async_bufs = [], w_async_heap = (\<lambda>_. []), w_async_next = 0\<rparr>"

lemma shown0 [simp]:
  "show_u64 2 = ''2''" "show_u64 3 = ''3''" "show_u64 4 = ''4''"
  by (simp_all add: show_u64_def show_nat.simps digit_char_def)

lemma digits0 [simp]:
  "is_digit (CHR ''1'')" "is_digit (CHR ''2'')" "is_digit (CHR ''3'')" "is_digit (CHR ''4'')"
  by (simp_all add: is_digit_def digit_val_def upt_rec)

lemma entries0 [simp]:
  "entry_fid ''1'' = Some 1" "entry_fid ''2'' = Some 2" "entry_fid ''3'' = Some 3"
  "entry_fid ''2.docs'' = Some 2" "entry_fid ''3.abc'' = Some 3"
  using entry_fid_show [of 1] entry_fid_show [of 2] entry_fid_show [of 3]
    entry_fid_named [of 2 "''docs''"] entry_fid_named [of 3 "''abc''"] by simp_all

lemma store0: "wf_store disk0" "fids_below 4 disk0"
  by (simp_all add: wf_store_def wf_disk_def names_ok_def fids_unique_def fids_below_def disk0_def
      is_dir_at_def is_file_at_def under_root_def is_numbered_def)

lemma ready0: "ready world0"
  using store0 by (simp add: ready_def server_ok_def world0_def counter0_def ctr_synced_def)

lemma world0_simps [simp]:
  "h_disk world0 = disk0" "w_counter world0 = counter0" "w_name_lock world0 = {}" "h_clock world0 = (200, 0)"
  "w_epoch world0 = 3" "h_faults world0 = []" "w_fid_cache world0 = []" "w_async_bufs world0 = []"
  "w_cache_poisoned world0 = False" "ctr_disk counter0 = 4" "ctr_mem counter0 = 4" "ctr_poisoned counter0 = False"
  by (simp_all add: world0_def counter0_def)

lemmas disk0_simps = disk0_def children_def is_dir_at_def is_file_at_def exists_at_def

lemma kinds0 [simp]:
  "is_dir_at disk0 [''1'']" "is_dir_at disk0 [''1'', ''2'']" "\<not> is_dir_at disk0 [''1'', ''2'', ''3'']"
  by (simp_all add: disk0_simps)

lemma paths0 [simp]:
  "fid_path disk0 1 = Some [''1'']" "fid_path disk0 2 = Some [''1'', ''2'']"
  "fid_path disk0 3 = Some [''1'', ''2'', ''3'']" "fid_path disk0 4 = None"
  by (simp_all add: fid_path_def vpath_def vchild_def has_named_def is_numbered_def disk0_simps upt_rec)

lemma plain0 [simp]:
  "plain_name ''docs''" "plain_name ''new''" "plain_name ''abc''" "plain_name ''a.c''"
  by (simp_all add: plain_name_def is_meta_def)

lemma names0 [simp]:
  "find_name disk0 [''1''] ''docs'' = Some 2" "find_name disk0 [''1''] ''new'' = None"
  "find_name disk0 [''1'', ''2''] ''abc'' = Some 3" "find_name disk0 [''1'', ''2''] ''a.c'' = Some 3"
  "find_name disk0 [''1'', ''2''] ''new'' = None" "find_name disk0 [''1''] ''abc'' = None"
  by (simp_all add: find_name_def name_hit_def split_name_def dot_match_def disk0_simps)

lemma server0: "server_ok world0"
  using readyD(1) [OF ready0] .

lemma fine0: "attrs_fine env0 disk0"
  by (simp add: attrs_fine_def disk0_simps times_ok_def stamps0_def size_of_obj_def meta_len_def env0_def)

end
