(* ===== verification/Pitfalls.thy ===== *)
theory Pitfalls
  imports Sample
begin

text \<open>
  Where the server does not do what its documentation says: a name is used as a pattern, a
  failed creation keeps its name locked, and a rename within a directory can be seen half
  done.
\<close>

section \<open>A name is a pattern\<close>

lemma deletes_other:
  assumes doc: "regex_documented E" and w: "ready w" and plain: "plain_name (da_filename a)"
    and e: "entry_of (h_disk w) (da_dir a) (da_filename a) = Inr (dp, f)"
    and isf: "\<not> is_dir_at (h_disk w) (dp @ [show_u64 f])"
    and other: "da_filename a \<notin> names_at (h_disk w) dp (show_u64 f)"
  shows "\<exists>e w'. handle_remove E a w = (Err e, w') \<and> view (h_disk w') = (view (h_disk w))(f := None)"
proof -
  have "remove_error (h_disk w) a = None" using e isf by (simp add: remove_error_def)
  then show ?thesis using remove_calm [OF doc w plain] e other by (auto simp: deletes_def)
qed

section \<open>A failed creation keeps its name locked\<close>

lemma create_too_long:
  assumes doc: "regex_documented E" and w: "ready w"
    and p: "fid_path (h_disk w) (da_dir (ca_where a)) = Some dp" and dir: "is_dir_at (h_disk w) dp"
    and plain: "plain_name (da_filename (ca_where a))"
    and long: "NAME_MAX < length (da_filename (ca_where a))"
    and chars: "CHR ''/'' \<notin> set (da_filename (ca_where a))" "CHR 0x00 \<notin> set (da_filename (ca_where a))"
    and unlocked: "(dp, da_filename (ca_where a)) \<notin> w_name_lock w"
    and free: "find_name (h_disk w) dp (da_filename (ca_where a)) = None"
  shows "\<exists>e w'. create_object E a is_file w = (Err e, w') \<and> (dp, da_filename (ca_where a)) \<in> w_name_lock w'"
proof -
  let ?d = "h_disk w" and ?f = "ctr_disk (w_counter w)" and ?nm = "da_filename (ca_where a)"
  note wf = readyD(5) [OF w] and below = readyD(10) [OF w]
  have dp: "vpath ?d dp" using p fid_path_Some [OF wf] by auto
  obtain c where c: "cache_ok ?d c" "ready (w\<lparr>w_fid_cache := c\<rparr>)"
    "create_object E a is_file w = (case fid_path ?d (da_dir (ca_where a)) of
       None \<Rightarrow> nfsM NFSERR_STALE
     | Some dpath \<Rightarrow>
         let filename = ?nm in
         bindM (fs_is_dir dpath) (\<lambda>d.
         if \<not> d then nfsM NFSERR_NOTDIR
         else
           bindM (lock_name (dpath, filename)) (\<lambda>locked.
           if \<not> locked then nfsM NFSERR_EXIST
           else
             bindM (attemptM (fs_find_by_name E dpath filename)) (\<lambda>already.
             case already of
               Inl e \<Rightarrow> thenM (unlock_name (dpath, filename)) (errM (ThriftApplication e))
             | Inr (Some _) \<Rightarrow> thenM (unlock_name (dpath, filename)) (nfsM NFSERR_EXIST)
             | Inr None \<Rightarrow> create_owned E a dpath is_file)))) (w\<lparr>w_fid_cache := c\<rparr>)"
    unfolding create_object_def by (rule resolve_calm [OF doc w])
  define w1 where "w1 = w\<lparr>w_fid_cache := c, w_name_lock := insert (dp, ?nm) (w_name_lock w)\<rparr>"
  have w1: "ready w1" "h_disk w1 = ?d" "w_counter w1 = w_counter w" "h_clock w1 = h_clock w"
    using ready_lock [OF c(2)] by (simp_all add: w1_def)
  have isd: "(fs_is_dir dp :: (world, thrift_error, bool) M) (w\<lparr>w_fid_cache := c\<rparr>) = (Ok True, w\<lparr>w_fid_cache := c\<rparr>)"
    using read_calls_calm(1) [of "w\<lparr>w_fid_cache := c\<rparr>" dp] readyD(2) [OF w] dir by simp
  have name: "fs_find_by_name E dp ?nm w1 = (Ok None, w1)"
    using find_name_calm [OF doc plain w1(1)] w1(2) dp dir free by simp
  have start: "create_object E a is_file w = create_owned E a dp is_file w1"
    using c(3) p isd unlocked name
    by (simp add: Let_def bindM_apply lock_name_def attemptM_apply w1_def)
  define d1 where "d1 = AList.update (dp @ [show_u64 ?f])
    (if is_file then RegFile (fresh_stamps (h_clock w)) [] else DirObj (fresh_stamps (h_clock w))) ?d"
  define w2 where "w2 = w1\<lparr>w_counter := bump (w_counter w)\<rparr>"
  have nf: "h_faults w2 = []" "h_faults (w2\<lparr>h_disk := d1\<rparr>) = []" using readyD(2) [OF w1(1)] by (simp_all add: w2_def)
  note none = fids_below_fresh [OF below vpath_under_root [OF dp]]
  have comp: "comp_err ?d dp (show_u64 ?f) = None"
    using show_u64_length [of ?f] show_u64_digit_set not_digit unfolding comp_err_def NAME_MAX_def by fastforce
  have num: "(if is_file then create_new_sys (dp @ [show_u64 ?f]) else create_dir_sys (dp @ [show_u64 ?f])) w2
      = (Ok (), w2\<lparr>h_disk := d1\<rparr>)"
    using none(1) dir comp w1(2,4) nf(1)
    by (auto simp: create_new_sys_def create_dir_sys_def sysM_calm k_create_new_def k_mkdir_def
        k_new_def exists_at_def w2_def d1_def)
  have dir1: "is_dir_at d1 dp" using dir by (simp add: is_dir_at_iff d1_def)
  have op: "open_sys dp (w2\<lparr>h_disk := d1\<rparr>) = (Ok (), w2\<lparr>h_disk := d1\<rparr>)"
    using dir1 by (auto simp: open_sys_def sysM_calm [OF nf(2)] k_open_def is_dir_at_iff)
  have sync: "sync_sys (w2\<lparr>h_disk := d1\<rparr>) = (Ok (), w2\<lparr>h_disk := d1\<rparr>)"
    using nf by (simp add: sync_sys_def sysM_calm)
  have "CHR ''/'' \<notin> set (show_u64 ?f)" "CHR 0x00 \<notin> set (show_u64 ?f)"
    using show_u64_digit_set not_digit by blast+
  then have "comp_err d1 dp (show_u64 ?f @ CHR ''.'' # ?nm) = Some ENAMETOOLONG"
    using long chars by (simp add: comp_err_def)
  moreover have absent: "map_of d1 (dp @ [show_u64 ?f @ CHR ''.'' # ?nm]) = None"
    using none(2) [of ?nm] by (simp add: d1_def)
  ultimately have nam: "file_create_sys (dp @ [show_u64 ?f @ CHR ''.'' # ?nm]) (w2\<lparr>h_disk := d1\<rparr>)
      = (Err ENAMETOOLONG, w2\<lparr>h_disk := d1\<rparr>)"
    using absent dir1
    by (auto simp: file_create_sys_def sysM_calm [OF nf(2)] k_create_def k_new_def)
  have "fs_create_obj dp ?nm is_file w1 = (Err (io_text ENAMETOOLONG), w2\<lparr>h_disk := d1\<rparr>)"
    unfolding fs_create_obj_def Let_def
    using num op sync nam w1(3)
    by (simp add: fetch_calm [OF w1(1)] bindM_apply thenM_apply map_errM_apply unwrapM_apply w2_def [symmetric]
        split del: if_split)
  then have "create_owned E a dp is_file w1 = (Err (ThriftApplication (io_text ENAMETOOLONG)), w2\<lparr>h_disk := d1\<rparr>)"
    by (simp add: create_owned_def bindM_apply strM_apply)
  then show ?thesis using start by (auto simp: w2_def w1_def)
qed


section \<open>A rename within a directory can be seen half done\<close>

lemma call_step:
  assumes "h_faults s = None # fs"
  shows "sysM k s = (case k (h_clock s) (h_disk s) of
      Inl e \<Rightarrow> (Err e, s\<lparr>h_faults := fs\<rparr>) | Inr (x, d) \<Rightarrow> (Ok x, s\<lparr>h_faults := fs, h_disk := d\<rparr>))"
    "queryM q s = (Ok (q (h_disk s)), s\<lparr>h_faults := fs\<rparr>)"
  using assms by (simp_all add: sysM_def queryM_def run_call_def next_fault_def drop_fault_def)

lemma find_by_name_steps:
  assumes doc: "regex_documented E" and plain: "plain_name fname" and ok: "names_ok (h_disk w)" "under_root p"
    and dir: "is_dir_at (h_disk w) p" and steps: "h_faults w = None # None # None # None # None # fs"
  shows "fs_find_by_name E p fname w = (Ok (find_name (h_disk w) p fname), w\<lparr>h_faults := fs\<rparr>)"
proof -
  obtain re re_file where re: "env_regex E NUMBERED_FILE_RE = Some re" "num_re re"
    "env_regex E (named_file_re fname) = Some re_file" "file_re fname re_file"
    using find_by_name_patterns [OF doc plain] by blast
  have ex: "exists_at (h_disk w) p" using dir by (auto simp: is_dir_at_iff exists_at_def)
  have files: "get_numbered_and_named_files re p (w\<lparr>h_faults := None # None # None # None # fs\<rparr>) =
     (Ok (numbered_of re (h_disk w) p, named_of re (h_disk w) p), w\<lparr>h_faults := fs\<rparr>)"
    using dir ex
    by (auto simp: get_numbered_and_named_files_def fs_exists_def fs_is_dir_def read_dir_sys_def dirents_sys_def
        monad_simps call_step k_read_dir_def is_dir_at_iff numbered_of_def named_of_def Let_def)
  show ?thesis
    using re(1,3) plain dir steps files
    by (simp add: fs_find_by_name_def monad_simps fs_is_dir_def call_step plain_name_def
        find_named_all [OF re(2) ok re(4)])
qed

lemma find_root: "fs_find_by_fid E 1 w = (if w_cache_poisoned w then (Panic ''PoisonError'', w) else (Ok (Some [''1'']), w))"
  by (simp add: fs_find_by_fid_def fs_find_by_fid_cached_def monad_simps cache_extend_def)

lemma rename_half_done:
  assumes doc: "regex_documented E" and w: "ready w"
    and plain: "plain_name (da_filename (rn_old_loc a))" "plain_name (da_filename (rn_new_loc a))"
    and root: "da_dir (rn_old_loc a) = 1" "da_dir (rn_new_loc a) = 1"
    and old: "find_name (h_disk w) [''1''] (da_filename (rn_old_loc a)) = Some f"
    and new: "find_name (h_disk w) [''1''] (da_filename (rn_new_loc a)) = None"
    and unlocked: "([''1''], da_filename (rn_new_loc a)) \<notin> w_name_lock w"
    and fits: "name_fits f (da_filename (rn_new_loc a))"
  shows "\<exists>w'. handle_rename E a (w\<lparr>h_faults := replicate 13 None @ [Some PowerCut]\<rparr>) = (Crash, w')
    \<and> view (h_disk w') = rename_mid (h_disk w) [''1''] f (da_filename (rn_new_loc a))"
proof -
  let ?d = "h_disk w" and ?old = "da_filename (rn_old_loc a)" and ?new = "da_filename (rn_new_loc a)"
  note wf = readyD(5) [OF w]
  have r13: "replicate 13 None @ [Some PowerCut] = [None, None, None, None, None, None, None, None, None, None,
      None, None, None, Some PowerCut]" by (simp add: numeral_eq_Suc)
  have dir: "is_dir_at ?d [''1'']" using wf by (simp add: wf_store_def)
  then have vp: "vpath ?d [''1'']" by (auto simp: is_dir_at_iff)
  have ur: "under_root [''1'']" by (simp add: under_root_def)
  obtain d1 where d1: "file_create_sys ([''1''] @ [show_u64 f @ ''.'' @ ?new]) w = (Ok (), w\<lparr>h_disk := d1\<rparr>)"
      "name_added ?d [''1''] f ?new d1"
    using create_named_calm [OF readyD(2) [OF w] wf dir ur fits] by blast
  then have create: "k_create (h_clock w) [''1'', show_u64 f @ CHR ''.'' # ?new] ?d = Inr ((), d1)"
    using readyD(2) [OF w] by (auto simp: file_create_sys_def sysM_calm split: sum.splits)
       (metis host.select_convs(1) host.surjective host.update_convs(1))
  define w1 where "w1 = w\<lparr>h_faults := [None, None, None, None, None, None, None, None, None, None,
      None, None, None, Some PowerCut]\<rparr>"
  define w2 where "w2 = w\<lparr>h_faults := [None, None, None, None, None, None, None, None, Some PowerCut]\<rparr>"
  define w3 where "w3 = w2\<lparr>w_name_lock := insert ([''1''], ?new) (w_name_lock w)\<rparr>"
  define w4 where "w4 = w3\<lparr>h_faults := [None, None, None, Some PowerCut]\<rparr>"
  define w5 where "w5 = w3\<lparr>h_disk := d1, h_faults := [Some PowerCut]\<rparr>"
  note live = readyD(3) [OF w] and names = readyD(7) [OF w]
  have roots: "fs_find_by_fid E 1 w1 = (Ok (Some [''1'']), w1)"
    using live by (simp add: find_root w1_def)
  have name1: "fs_find_by_name E [''1''] ?old w1 = (Ok (Some f), w2)"
    using find_by_name_steps [OF doc plain(1), of w1 "[''1'']"] names ur dir old by (simp add: w1_def w2_def)
  have lock: "(lock_name ([''1''], ?new) :: (world, thrift_error, bool) M) w2 = (Ok True, w3)"
    using unlocked by (simp add: lock_name_def w3_def w2_def)
  have name2: "fs_find_by_name E [''1''] ?new w3 = (Ok None, w4)"
    using find_by_name_steps [OF doc plain(2), of w3 "[''1'']"] names ur dir new
    by (simp add: w3_def w2_def w4_def)
  have "k_open False [''1''] ?d = Inr ((), ?d)" using dir by (auto simp: k_open_def is_dir_at_iff)
  then have op: "open_sys [''1''] w4 = (Ok (), w4\<lparr>h_faults := [None, None, Some PowerCut]\<rparr>)"
    by (simp add: open_sys_def call_step w4_def w3_def w2_def)
  have mk: "file_create_sys [''1'', show_u64 f @ CHR ''.'' # ?new] (w4\<lparr>h_faults := [None, None, Some PowerCut]\<rparr>)
      = (Ok (), w5\<lparr>h_faults := [None, Some PowerCut]\<rparr>)"
    using create by (simp add: file_create_sys_def call_step w4_def w5_def w3_def w2_def)
  have sync: "sync_sys (w5\<lparr>h_faults := [None, Some PowerCut]\<rparr>) = (Ok (), w5)"
    by (simp add: sync_sys_def call_step w5_def)
  have cut: "rename_sys x y w5 = (Crash, w5\<lparr>h_faults := []\<rparr>)" for x y
    by (simp add: rename_sys_def sysM_def next_fault_def drop_fault_def w5_def)
  have locked: "rename_locked a [''1''] [''1''] f w5 = (Crash, w5\<lparr>h_faults := []\<rparr>)"
    using live cut
    by (simp add: rename_locked_def Let_def under_cache_lock_def bindM_apply attemptM_apply w5_def w3_def w2_def)
  have move: "rename_move a [''1''] [''1''] f w4 = (Crash, w5\<lparr>h_faults := []\<rparr>)"
    unfolding rename_move_def
    using op mk sync locked by (simp add: Let_def thenM_apply bindM_apply unwrapM_apply attemptM_apply)
  have "handle_rename E a w1 = (Crash, w5\<lparr>h_faults := []\<rparr>)"
    unfolding handle_rename_def root
    using roots name1 lock name2 move by (simp add: Let_def bindM_apply strM_apply attemptM_apply)
  moreover have "view d1 = rename_mid ?d [''1''] f ?new"
    using name_added_view(1) [OF wf readyD(10) [OF w] vp vp find_name_vchild [OF wf vp old] d1(2)] by simp
  ultimately show ?thesis by (simp add: r13 w1_def w5_def)
qed

end
