(* ===== verification/ClientPitfalls.thy ===== *)
theory ClientPitfalls
  imports Reads Pitfalls
begin

text \<open>
  Sequences of calls in which the client and the server together fall short: writes that are
  lost although \<^verbatim>\<open>flush\<close> succeeds.
\<close>

section \<open>A COMMIT with nothing pending\<close>

text \<open>A server on whose disk \<open>f\<close> is a file\<close>

definition is_file_fid :: "disk \<Rightarrow> fid \<Rightarrow> bool" where
  "is_file_fid d f = (case view d f of Some v \<Rightarrow> (case nf_body v of FileBody bs \<Rightarrow> True | _ \<Rightarrow> False) | None \<Rightarrow> False)"

definition up :: "env \<Rightarrow> world \<Rightarrow> bool" where
  "up E w \<longleftrightarrow> regex_documented E \<and> tid_fits E \<and> ready w \<and> async_ok w \<and> no_tmp_dirs (h_disk w)
     \<and> unat (w_epoch w) < unat (ctr_disk (w_counter w)) \<and> unat (ctr_disk (w_counter w)) < 2 ^ 64 - 4"

lemma file_target:
  assumes wf: "wf_store d" and f: "is_file_fid d f"
  obtains p where "write_target d f p (content_of d f)" "file_at d p = the (view d f)"
    "nf_body (file_at d p) = FileBody (content_of d f)"
proof -
  obtain v bs where v: "view d f = Some v" "nf_body v = FileBody bs"
    using f by (auto simp: is_file_fid_def split: option.splits body.splits)
  then obtain p where p: "vpath d p" "last p = show_u64 f" "file_at d p = v"
    unfolding view_Some [OF wf] by metis
  then have fp: "fid_path d f = Some p" using fid_path_Some [OF wf] by blast
  obtain ob where ob: "map_of d p = Some ob" using p(1) vpath_exists by (metis not_None_eq)
  have c: "content_of d f = bs" using v by (simp add: content_of_def)
  have "nf_body (file_at d p) = FileBody bs" using p(3) v(2) by simp
  moreover from this have "content_at d p bs" using ob by (cases ob) (auto simp: content_at_def file_at_def)
  ultimately show thesis using that fp p(3) v(1) c by (simp add: write_target_def)
qed

lemma commit_idle:
  assumes w: "up E w" and f: "is_file_fid (h_disk w) f" and p: "pending w f = []"
    and a: "a = \<lparr>cm_file = f, cm_count = 0, cm_offset = 0\<rparr>"
  shows "\<exists>w'. handle_commit E a w = (Ok (w_epoch w), w') \<and> up E w' \<and> pending w' = pending w
    \<and> w_epoch w' = w_epoch w \<and> view (h_disk w') = view (h_disk w)"
proof -
  have u: "regex_documented E" "tid_fits E" "ready w" "async_ok w" "no_tmp_dirs (h_disk w)" using w by (simp_all add: up_def)
  note wf = readyD(5) [OF u(3)]
  obtain q where q: "write_target (h_disk w) f q (content_of (h_disk w) f)" "file_at (h_disk w) q = the (view (h_disk w) f)"
      "nf_body (file_at (h_disk w) q) = FileBody (content_of (h_disk w) f)"
    by (rule file_target [OF wf f])
  obtain w' where w': "handle_commit E a w = (Ok (w_epoch w), w')" "async_ok w'"
      "rewritten w f q (apply_writes [] (content_of (h_disk w) f)) w'" "pending w' = (pending w)(f := [])"
    using commit_calm [OF u(1,3,4), of a q "content_of (h_disk w) f"] q(1) tmp_ok_fits [OF u(2,5), of f] p
    by (auto simp: a writes_ok_def)
  have "(file_at (h_disk w) q)\<lparr>nf_body := FileBody (content_of (h_disk w) f)\<rparr> = file_at (h_disk w) q"
    using q(3) by (cases "file_at (h_disk w) q") simp
  moreover have "view (h_disk w) f = Some (file_at (h_disk w) q)"
    using q(1) view_fid_path by (simp add: write_target_def)
  ultimately have v: "view (h_disk w') = view (h_disk w)"
    using w'(3) by (auto simp: rewritten_def fun_eq_iff)
  have "no_tmp_dirs (h_disk w')"
    using commit_tmp [OF u(1) wf readyD(8) [OF u(3)] u(5), of a] w'(1) by simp
  moreover have "ready w'" using w'(3) by (simp add: rewritten_def)
  ultimately have "up E w'" using w w'(2) commit_frame [OF w'(1)] by (simp add: up_def)
  moreover have "pending w' = pending w" using w'(4) p by (metis fun_upd_triv)
  ultimately show ?thesis using w'(1) v commit_frame [OF w'(1)] by blast
qed

lemma reboot_up:
  assumes w: "up E w" and c: "unat (ctr_disk (w_counter w)) + 1 < 2 ^ 64 - 4"
  shows "up E (reboot w)" "h_disk (reboot w) = h_disk w" "pending (reboot w) = (\<lambda>_. [])" "w_epoch w < w_epoch (reboot w)"
proof -
  have "durable_ok (h_disk w) (w_counter w)" using w server_ok_durable readyD(1) unfolding up_def by blast
  from reboot_state [OF this refl, of 1] w c
  show "up E (reboot w)" "h_disk (reboot w) = h_disk w" "pending (reboot w) = (\<lambda>_. [])" "w_epoch w < w_epoch (reboot w)"
    by (simp_all add: up_def)
qed

section \<open>A flush that succeeds and loses writes\<close>

text \<open>A request that is answered at once\<close>

lemma do_with_retry_Ok:
  "rpc (fs_remote s) = (Ok v, w) \<Longrightarrow> do_with_retry R rpc s = (Ok v, s\<lparr>fs_remote := w\<rparr>)"
  using retry_step [where rpc = rpc and s = s and r = "Ok v" and w = w and n = 4 and tries = 0 and R = R]
  by (simp add: do_with_retry_def MAX_TRIES_def cut_off_def)

text \<open>
  The client knows the epoch of the running server, so it takes what it has buffered for
  written, whether the server ever got it or not.
\<close>

lemma flush_forgets:
  assumes w: "up E w" and f: "is_file_fid (h_disk w) f" and p: "pending w f = []"
    and s: "fs_remote s = \<lparr>nt_world = w, nt_events = []\<rparr>" "fs_epoch s = w_epoch w"
  shows "\<exists>w'. commit_retry (server_rpc E wire) (Suc n) fuel f s =
      (Ok (), s\<lparr>fs_remote := \<lparr>nt_world = w', nt_events = []\<rparr>, fs_bufs := AList.delete f (fs_bufs s)\<rparr>)
    \<and> up E w' \<and> pending w' = pending w \<and> w_epoch w' = w_epoch w \<and> view (h_disk w') = view (h_disk w)"
proof -
  let ?a = "\<lparr>cm_file = f, cm_count = 0, cm_offset = 0\<rparr>"
  obtain w' where w': "handle_commit E ?a w = (Ok (w_epoch w), w')" "up E w'" "pending w' = pending w"
      "w_epoch w' = w_epoch w" "view (h_disk w') = view (h_disk w)"
    using commit_idle [OF w f p refl] by blast
  have "rpc_commit (server_rpc E wire) ?a (fs_remote s) = (Ok (w_epoch w), \<lparr>nt_world = w', nt_events = []\<rparr>)"
    using w'(1) s(1) by (simp add: server_rpc_def netM_def)
  note call = do_with_retry_Ok [where s = s and rpc = "rpc_commit (server_rpc E wire) ?a", OF this]
  have "commit_retry (server_rpc E wire) (Suc n) fuel f s =
      (Ok (), s\<lparr>fs_remote := \<lparr>nt_world = w', nt_events = []\<rparr>, fs_bufs := AList.delete f (fs_bufs s)\<rparr>)"
    using s(2) by (simp add: bindM_apply call getsM_apply thenM_apply assertM_apply modifyM_apply)
  then show ?thesis using w' by blast
qed

text \<open>A flush of a file without buffered writes, with a restart of the server before it\<close>

lemma flush_learns:
  assumes w: "up E w" "unat (ctr_disk (w_counter w)) + 1 < 2 ^ 64 - 4" and f: "is_file_fid (h_disk w) f"
    and s: "fs_remote s = \<lparr>nt_world = w, nt_events = [Restart]\<rparr>" "fs_epoch s = w_epoch w" "map_of (fs_bufs s) f = None"
  shows "\<exists>w'. commit_retry (server_rpc E wire) (Suc (Suc n)) fuel f s =
      (Ok (), s\<lparr>fs_remote := \<lparr>nt_world = w', nt_events = []\<rparr>, fs_epoch := w_epoch w'\<rparr>)
    \<and> up E w' \<and> pending w' = (\<lambda>_. []) \<and> view (h_disk w') = view (h_disk w)"
proof -
  let ?a = "\<lparr>cm_file = f, cm_count = 0, cm_offset = 0\<rparr>"
  note rb = reboot_up [OF w]
  have f1: "is_file_fid (h_disk (reboot w)) f" using f rb(2) by simp
  have p1: "pending (reboot w) f = []" using rb(3) by simp
  obtain w1 where w1: "handle_commit E ?a (reboot w) = (Ok (w_epoch (reboot w)), w1)" "up E w1" "pending w1 = pending (reboot w)"
      "w_epoch w1 = w_epoch (reboot w)" "view (h_disk w1) = view (h_disk (reboot w))"
    using commit_idle [OF rb(1) f1 p1 refl] by blast
  let ?s1 = "s\<lparr>fs_remote := \<lparr>nt_world = w1, nt_events = []\<rparr>, fs_epoch := w_epoch w1\<rparr>"
  have "rpc_commit (server_rpc E wire) ?a (fs_remote s) = (Ok (w_epoch w1), \<lparr>nt_world = w1, nt_events = []\<rparr>)"
    using w1(1,4) s(1) by (simp add: server_rpc_def netM_def)
  note call = do_with_retry_Ok [where s = s and rpc = "rpc_commit (server_rpc E wire) ?a", OF this]
  have less: "w_epoch w \<le> w_epoch w1" "w_epoch w1 \<noteq> w_epoch w" using rb(4) w1(4) by auto
  have "commit_retry (server_rpc E wire) (Suc (Suc n)) fuel f s = commit_retry (server_rpc E wire) (Suc n) fuel f ?s1"
    by (subst commit_retry.simps(2))
       (simp add: bindM_apply call getsM_apply thenM_apply assertM_apply modifyM_apply s(2,3) less
        write_async_handle_epochs_def retM_apply del: commit_retry.simps)
  moreover have idle: "is_file_fid (h_disk w1) f" "pending w1 f = []"
    using f w1(5) rb(2) p1 w1(3) by (simp_all add: is_file_fid_def)
  moreover obtain w' where
    "commit_retry (server_rpc E wire) (Suc n) fuel f ?s1 =
      (Ok (), ?s1\<lparr>fs_remote := \<lparr>nt_world = w', nt_events = []\<rparr>, fs_bufs := AList.delete f (fs_bufs s)\<rparr>)"
    "up E w'" "pending w' = pending w1" "w_epoch w' = w_epoch w1" "view (h_disk w') = view (h_disk w1)"
    using flush_forgets [where s = ?s1 and n = n and wire = wire and fuel = fuel, OF w1(2) idle] by auto
  moreover have "AList.delete f (fs_bufs s) = fs_bufs s" using s(3) by (simp add: delete_absent)
  ultimately show ?thesis using w1(3,5) rb(2,3)
    by (intro exI [of _ w']) (simp del: commit_retry.simps)
qed

text \<open>
  The epoch that one flush learned makes the next flush believe that the server has everything.
\<close>

lemma flush_two_files:
  assumes w: "up E w" "unat (ctr_disk (w_counter w)) + 1 < 2 ^ 64 - 4"
    and f: "is_file_fid (h_disk w) f" and g: "is_file_fid (h_disk w) g"
    and s: "fs_remote s = \<lparr>nt_world = w, nt_events = [Restart]\<rparr>" "fs_epoch s = w_epoch w" "map_of (fs_bufs s) f = None"
  obtains s1 s2 where "fuse_flush (server_rpc E wire) (Suc (Suc n)) f s = (Ok (), s1)"
    "fuse_flush (server_rpc E wire) (Suc (Suc n)) g s1 = (Ok (), s2)"
    "view (h_disk (nt_world (fs_remote s2))) = view (h_disk w)" "fs_bufs s2 = AList.delete g (fs_bufs s)"
    "pending (nt_world (fs_remote s2)) = (\<lambda>_. [])"
proof -
  obtain w1 where w1: "commit_retry (server_rpc E wire) (Suc (Suc n)) (Suc (Suc n)) f s =
      (Ok (), s\<lparr>fs_remote := \<lparr>nt_world = w1, nt_events = []\<rparr>, fs_epoch := w_epoch w1\<rparr>)"
      "up E w1" "pending w1 = (\<lambda>_. [])" "view (h_disk w1) = view (h_disk w)"
    using flush_learns [where n = n and wire = wire and fuel = "Suc (Suc n)", OF w f s] by blast
  let ?s1 = "s\<lparr>fs_remote := \<lparr>nt_world = w1, nt_events = []\<rparr>, fs_epoch := w_epoch w1\<rparr>"
  have g1: "is_file_fid (h_disk w1) g" "pending w1 g = []" using g w1(3,4) by (simp_all add: is_file_fid_def)
  obtain w2 where w2: "commit_retry (server_rpc E wire) (Suc (Suc n)) (Suc (Suc n)) g ?s1 =
      (Ok (), ?s1\<lparr>fs_remote := \<lparr>nt_world = w2, nt_events = []\<rparr>, fs_bufs := AList.delete g (fs_bufs s)\<rparr>)"
      "up E w2" "pending w2 = pending w1" "view (h_disk w2) = view (h_disk w1)"
    using flush_forgets [where s = ?s1 and n = "Suc n" and wire = wire and fuel = "Suc (Suc n)", OF w1(2) g1] by auto
  show thesis
    by (rule that [of ?s1 "?s1\<lparr>fs_remote := \<lparr>nt_world = w2, nt_events = []\<rparr>, fs_bufs := AList.delete g (fs_bufs s)\<rparr>"])
      (use w1 w2 in \<open>simp_all add: fuse_flush_def del: commit_retry.simps\<close>)
qed

end
