(* ===== verification/Guarantees.thy ===== *)
theory Guarantees
  imports Pitfalls
begin

text \<open>
  What the server guarantees, one property after the other, each with a witness on the store
  of the theory Sample: atomicity of every request that changes the store, under
  every schedule of I/O errors and power cuts; what the requests return and leave when
  nothing fails; and the ways in which the code falls short of its documentation.
\<close>

section \<open>Atomicity of the requests under faults\<close>

text \<open>
  C4. CREATE and MKDIR are atomic: under every schedule of I/O errors and power cuts, and with
  any attributes, what a client can see of the store afterwards is either what it saw before
  or the same with one new file under a fresh FID, with nothing in it or with the size that was
  asked for; a reply that reports success means the last. The store on disk stays well formed, and the request always ends.
\<close>

theorem create_atomic:
  assumes "regex_documented E" and "server_ok w"
  shows "survives (handle_create E a)
      (\<lambda>res d' c'. durable_ok d' c' \<and> dr_file res = ctr_disk (w_counter w) \<and> create_sees w a (initial_body True (sa_size (ca_attributes a))) d')
      (\<lambda>d' c'. durable_ok d' c' \<and> (view d' = view (h_disk w) \<or> create_sees w a (empty_body True) d'
         \<or> create_sees w a (initial_body True (sa_size (ca_attributes a))) d')) w
    \<and> survives (handle_mkdir E a)
      (\<lambda>res d' c'. durable_ok d' c' \<and> dr_file res = ctr_disk (w_counter w) \<and> create_sees w a (initial_body False (sa_size (ca_attributes a))) d')
      (\<lambda>d' c'. durable_ok d' c' \<and> (view d' = view (h_disk w) \<or> create_sees w a (empty_body False) d'
         \<or> create_sees w a (initial_body False (sa_size (ca_attributes a))) d')) w"
  unfolding handle_create_def handle_mkdir_def by (intro conjI create_survives [OF assms])

text \<open>A schedule with a failing call and a power cut, for the witnesses\<close>

definition stormy0 :: world where
  "stormy0 = world0\<lparr>h_faults := [None, None, None, None, None, None, Some (FailWith EIO), Some PowerCut]\<rparr>"

lemma stormy_ok: "server_ok stormy0"
  using server0 by (simp add: stormy0_def server_ok_def)

definition no_attrs :: zip_sattr where
  "no_attrs = \<lparr>sa_mode = None, sa_uid = None, sa_gid = None, sa_size = None, sa_atime = None, sa_mtime = None\<rparr>"

definition create0 :: zip_create_args where
  "create0 = \<lparr>ca_where = \<lparr>da_dir = 2, da_filename = ''new''\<rparr>, ca_attributes = no_attrs\<rparr>"

lemma create_atomic_witness:
  "survives (handle_create env0 create0)
      (\<lambda>res d' c'. durable_ok d' c' \<and> dr_file res = 4 \<and> create_sees stormy0 create0 (FileBody []) d')
      (\<lambda>d' c'. durable_ok d' c' \<and> (view d' = view disk0 \<or> create_sees stormy0 create0 (FileBody []) d')) stormy0"
  using create_atomic [OF env0_documented stormy_ok, of create0]
  by (simp add: stormy0_def create0_def no_attrs_def initial_body_def empty_body_def)

text \<open>
  C5. REMOVE and RMDIR are atomic: under every schedule of faults the store a client sees is
  the old one, or the old one without the file that the name stood for.
\<close>

theorem remove_atomic:
  assumes "regex_documented E" and "server_ok w" and "plain_name (da_filename a)"
  shows "survives (handle_remove E a)
      (\<lambda>_ d' c'. durable_ok d' c' \<and> remove_sees (h_disk w) a d')
      (\<lambda>d' c'. durable_ok d' c' \<and> (view d' = view (h_disk w) \<or> remove_sees (h_disk w) a d')) w
    \<and> survives (handle_rmdir E a)
      (\<lambda>_ d' c'. durable_ok d' c' \<and> remove_sees (h_disk w) a d')
      (\<lambda>d' c'. durable_ok d' c' \<and> (view d' = view (h_disk w) \<or> remove_sees (h_disk w) a d')) w"
  by (intro conjI remove_survives [OF assms])

definition abc0 :: zip_dir_op_args where
  "abc0 = \<lparr>da_dir = 2, da_filename = ''abc''\<rparr>"

lemma remove_atomic_witness:
  "survives (handle_remove env0 abc0)
      (\<lambda>_ d' c'. durable_ok d' c' \<and> remove_sees disk0 abc0 d')
      (\<lambda>d' c'. durable_ok d' c' \<and> (view d' = view disk0 \<or> remove_sees disk0 abc0 d')) stormy0"
  using remove_atomic [OF env0_documented stormy_ok, of abc0]
  by (simp add: stormy0_def abc0_def)

text \<open>
  C6. RENAME under every schedule of faults: a client sees the old store, or the file at its
  new name and no longer at the old one; only when source and target are in one directory may
  it also see the file under both names.
\<close>

theorem rename_atomic:
  assumes "regex_documented E" and "server_ok w"
    and "plain_name (da_filename (rn_old_loc a))" and "plain_name (da_filename (rn_new_loc a))"
  shows "survives (handle_rename E a)
    (\<lambda>_ d' c'. durable_ok d' c' \<and> rename_sees (h_disk w) a (\<lambda>od nd f.
       view d' = rename_done (h_disk w) od nd f (da_filename (rn_old_loc a)) (da_filename (rn_new_loc a))))
    (\<lambda>d' c'. durable_ok d' c' \<and> (view d' = view (h_disk w) \<or> rename_sees (h_disk w) a (\<lambda>od nd f.
       rename_states (h_disk w) od nd f (da_filename (rn_old_loc a)) (da_filename (rn_new_loc a)) d'))) w"
  by (rule rename_survives [OF assms])

definition move0 :: zip_rename_args where
  "move0 = \<lparr>rn_old_loc = abc0, rn_new_loc = \<lparr>da_dir = 1, da_filename = ''abc''\<rparr>\<rparr>"

lemma rename_atomic_witness:
  "survives (handle_rename env0 move0)
    (\<lambda>_ d' c'. durable_ok d' c' \<and> rename_sees disk0 move0 (\<lambda>od nd f.
       view d' = rename_done disk0 od nd f ''abc'' ''abc''))
    (\<lambda>d' c'. durable_ok d' c' \<and> (view d' = view disk0 \<or> rename_sees disk0 move0 (\<lambda>od nd f.
       rename_states disk0 od nd f ''abc'' ''abc'' d'))) stormy0"
  using rename_atomic [OF env0_documented stormy_ok, of move0]
  by (simp add: stormy0_def abc0_def move0_def)

text \<open>
  C7. A stable write is atomic: under every schedule of faults the content of the file is the
  old one or the old one with all the bytes of the write in place, and everything else a
  client can see is unchanged.
\<close>

theorem stable_write_atomic:
  assumes "regex_documented E" and "server_ok w"
  shows "survives (fs_stable_write E f off cnt data)
    (\<lambda>n d' c'. durable_ok d' c' \<and> n = of_nat (length data) \<and> length data = unat cnt
       \<and> write_done (h_disk w) f (write_at (unat off) data) d')
    (\<lambda>d' c'. durable_ok d' c'
       \<and> (view d' = view (h_disk w) \<or> write_done (h_disk w) f (write_at (unat off) data) d')) w"
  by (rule stable_write_survives [OF assms])

lemma stable_write_atomic_witness:
  "survives (fs_stable_write env0 3 1 2 [7, 8])
    (\<lambda>n d' c'. durable_ok d' c' \<and> n = 2 \<and> write_done disk0 3 (write_at 1 [7, 8]) d')
    (\<lambda>d' c'. durable_ok d' c' \<and> (view d' = view disk0 \<or> write_done disk0 3 (write_at 1 [7, 8]) d')) stormy0"
  using stable_write_atomic [OF env0_documented stormy_ok, of 3 1 2 "[7, 8]"]
  by (simp add: stormy0_def)

text \<open>
  C8. COMMIT is atomic: under every schedule of faults a client sees the old content or the
  content with all the pending unstable writes of the file applied in order.
\<close>

theorem commit_atomic:
  assumes "regex_documented E" and "server_ok w"
  shows "survives (handle_commit E a)
    (\<lambda>_ d' c'. durable_ok d' c' \<and> commit_done w (cm_file a) d')
    (\<lambda>d' c'. durable_ok d' c' \<and> (view d' = view (h_disk w) \<or> commit_done w (cm_file a) d')) w"
  by (rule commit_survives [OF assms])

definition commit0 :: zip_commit_args where
  "commit0 = \<lparr>cm_file = 3, cm_count = 0, cm_offset = 0\<rparr>"

definition buffered0 :: world where
  "buffered0 = stormy0\<lparr>w_async_bufs := [(3, 0)], w_async_heap := (\<lambda>_. [(0, 1, [9]), (2, 2, [5, 6])]), w_async_next := 1\<rparr>"

lemma commit_atomic_witness:
  "survives (handle_commit env0 commit0)
    (\<lambda>_ d' c'. durable_ok d' c' \<and> commit_done buffered0 3 d')
    (\<lambda>d' c'. durable_ok d' c' \<and> (view d' = view disk0 \<or> commit_done buffered0 3 d')) buffered0"
proof -
  have "server_ok buffered0" using stormy_ok by (simp add: buffered0_def server_ok_def)
  from commit_atomic [OF env0_documented this, of commit0] show ?thesis
    by (simp add: buffered0_def stormy0_def commit0_def)
qed


section \<open>What the requests return when nothing fails\<close>

text \<open>
  C11. Resolving a FID, through the cache and the search of the disk, finds the path of the file
  with that FID or nothing when there is none, and leaves a right cache behind.
\<close>

theorem find_by_fid_correct:
  assumes "regex_documented E" and "wf_store (h_disk w)" and "h_faults w = []"
    and "\<not> w_cache_poisoned w" and "cache_ok (h_disk w) (w_fid_cache w)"
  shows "\<exists>c. fs_find_by_fid E fid w = (Ok (fid_path (h_disk w) fid), w\<lparr>w_fid_cache := c\<rparr>)
    \<and> cache_ok (h_disk w) c"
  by (rule find_by_fid_calm [OF assms])

lemma find_by_fid_correct_witness:
  "\<exists>c. fs_find_by_fid env0 3 world0 = (Ok (Some [''1'', ''2'', ''3'']), world0\<lparr>w_fid_cache := c\<rparr>) \<and> cache_ok disk0 c"
  using find_by_fid_correct [OF env0_documented, of world0 3] store0 by simp

text \<open>
  C12. Under any schedule of faults, resolving a FID returns the path of the file, nothing, or
  an error; it never returns another path, never loops, and never changes the store.
\<close>

theorem find_by_fid_safe:
  assumes "regex_documented E" and "wf_store (h_disk w)" and "cache_ok (h_disk w) (w_fid_cache w)"
  shows "finds (fs_find_by_fid E fid) (\<lambda>x. x = None \<or> x = fid_path (h_disk w) fid) w"
  by (rule find_by_fid_finds [OF assms])

lemma find_by_fid_safe_witness:
  "finds (fs_find_by_fid env0 3) (\<lambda>x. x = None \<or> x = Some [''1'', ''2'', ''3'']) stormy0"
  using find_by_fid_safe [OF env0_documented, of stormy0 3] store0 by (simp add: stormy0_def)

text \<open>
  C13. GETATTR returns the attributes of the file with the given FID, or \<^verbatim>\<open>NFSERR_STALE\<close> when
  there is none, and changes nothing but the cache.
\<close>

theorem getattr_correct:
  assumes "regex_documented E" and "ready w" and "attrs_fine E (h_disk w)"
  shows "\<exists>c. handle_getattr E f w = (run (getattr_result E (h_disk w) f), w\<lparr>w_fid_cache := c\<rparr>)
    \<and> ready (w\<lparr>w_fid_cache := c\<rparr>)"
  by (rule getattr_calm [OF assms])

lemma getattr_correct_witness:
  "\<exists>c. handle_getattr env0 4 world0 = (Err (nfs_error NFSERR_STALE), world0\<lparr>w_fid_cache := c\<rparr>)"
  using getattr_correct [OF env0_documented ready0, of 4] fine0
  by (auto simp: getattr_result_def run_def)

text \<open>
  C14. LOOKUP returns the FID and the attributes of the entry with the given name, or the NFS
  error of the first check that fails: stale directory, not a directory, no such entry.
\<close>

theorem lookup_correct:
  assumes "regex_documented E" and "ready w" and "attrs_fine E (h_disk w)" and "plain_name (da_filename a)"
  shows "\<exists>c. handle_lookup E a w = (run (lookup_result E (h_disk w) a), w\<lparr>w_fid_cache := c\<rparr>)
    \<and> ready (w\<lparr>w_fid_cache := c\<rparr>)"
  by (rule lookup_calm [OF assms])

lemma lookup_correct_witness:
  "\<exists>c. handle_lookup env0 abc0 world0 = (Ok \<lparr>dr_file = 3,
     dr_attributes = attrs_at env0 disk0 [''1'', ''2'', ''3''] 3\<rparr>, world0\<lparr>w_fid_cache := c\<rparr>)"
  using lookup_correct [OF env0_documented ready0, of abc0] fine0
  by (auto simp: lookup_result_def run_def abc0_def entry_of_def)

text \<open>
  C15. READ returns the bytes of the file from the offset, at most \<^verbatim>\<open>count\<close> and at most 4000 of
  them, an empty answer at the end of the file, and \<^verbatim>\<open>NFSERR_STALE\<close> or \<^verbatim>\<open>NFSERR_ISDIR\<close> otherwise.
\<close>

theorem read_correct:
  assumes "regex_documented E" and "ready w" and "attrs_fine E (h_disk w)" and "unat (ra_offset a) < 2 ^ 63"
  shows "\<exists>c. handle_read E a w = (run (read_result E (h_disk w) a), w\<lparr>w_fid_cache := c\<rparr>)
    \<and> ready (w\<lparr>w_fid_cache := c\<rparr>)"
  by (rule read_calm [OF assms])

lemma read_correct_witness:
  "\<exists>c. handle_read env0 \<lparr>ra_file = 3, ra_offset = 1, ra_count = 100\<rparr> world0 =
     (Ok \<lparr>rr_attributes = attrs_at env0 disk0 [''1'', ''2'', ''3''] 3, rr_data = [20, 30]\<rparr>, world0\<lparr>w_fid_cache := c\<rparr>)"
proof -
  have "map_of disk0 [''1'', ''2'', ''3''] = Some (RegFile stamps0 [10, 20, 30])" by (simp add: disk0_def)
  then show ?thesis
    using read_correct [OF env0_documented ready0, of "\<lparr>ra_file = 3, ra_offset = 1, ra_count = 100\<rparr>"] fine0
    by (auto simp: read_result_def run_def)
qed

text \<open>
  C16. A CREATE or MKDIR of a free name in an existing directory succeeds: the new file has the
  next FID, is in the view with its name and nothing in it, or the zeros its size asks for,
  and the name lock is as it was.
\<close>

theorem create_correct:
  assumes "regex_documented E" and "ready w"
    and "fid_path (h_disk w) (da_dir (ca_where a)) = Some dp" and "is_dir_at (h_disk w) dp"
    and "plain_name (da_filename (ca_where a))"
    and "name_fits (ctr_disk (w_counter w)) (da_filename (ca_where a))"
    and "(dp, da_filename (ca_where a)) \<notin> w_name_lock w"
    and "find_name (h_disk w) dp (da_filename (ca_where a)) = None"
    and "unat (ctr_disk (w_counter w)) < 2 ^ 64 - 2"
    and "create_attrs_ok E (h_clock w) is_file (ca_attributes a)"
  shows "\<exists>res w'. create_object E a is_file w = (Ok res, w')
    \<and> dr_file res = ctr_disk (w_counter w) \<and> ready w' \<and> w_name_lock w' = w_name_lock w
    \<and> ctr_disk (w_counter w') = ctr_disk (w_counter w) + 1
    \<and> view (h_disk w') = (view (h_disk w))(ctr_disk (w_counter w) \<mapsto>
        new_file dp (da_filename (ca_where a)) (initial_body is_file (sa_size (ca_attributes a))))"
  by (rule create_calm [OF assms])

lemma create_correct_witness:
  "\<exists>res w'. create_object env0 create0 True world0 = (Ok res, w') \<and> dr_file res = 4
    \<and> view (h_disk w') = (view disk0)(4 \<mapsto> \<lparr>nf_parent = ''2'', nf_names = {''new''}, nf_body = FileBody []\<rparr>)"
proof -
  have "create_attrs_ok env0 (200, 0) True no_attrs"
    by (simp add: create_attrs_ok_def no_attrs_def times_given_ok_def new_obj_def times_ok_def
        fresh_stamps_def env0_def)
  moreover have "name_fits 4 ''new''" by (simp add: name_fits_def NAME_MAX_def)
  ultimately show ?thesis
    using create_correct [OF env0_documented ready0, of create0 "[''1'', ''2'']" True]
    by (auto simp: create0_def no_attrs_def new_file_def initial_body_def empty_body_def)
qed

text \<open>
  C17. CREATE and MKDIR refuse a stale directory, a file as directory, and a name that exists or
  is being created, each with its NFS error, and leave the store, the name lock and the
  counter as they were.
\<close>

theorem create_refusals:
  assumes "regex_documented E" and "ready w"
    and "plain_name (da_filename (ca_where a))" and "create_error w a = Some t"
  shows "\<exists>c. create_object E a is_file w = (Err (nfs_error t), w\<lparr>w_fid_cache := c\<rparr>)
    \<and> ready (w\<lparr>w_fid_cache := c\<rparr>)"
  by (rule create_refused [OF assms])

lemma create_refusals_witness:
  "\<exists>c. create_object env0 \<lparr>ca_where = abc0, ca_attributes = no_attrs\<rparr> False world0
     = (Err (nfs_error NFSERR_EXIST), world0\<lparr>w_fid_cache := c\<rparr>)"
  using create_refusals [OF env0_documented ready0, of "\<lparr>ca_where = abc0, ca_attributes = no_attrs\<rparr>" NFSERR_EXIST False]
  by (auto simp: create_error_def abc0_def)

text \<open>
  C18. REMOVE on every branch: the NFS error of the first check that fails and nothing changed,
  or else the file the name stands for is gone, the name lock is as it was, and the reply is
  a success when the name is one of the file's own names.
\<close>

theorem remove_correct:
  assumes "regex_documented E" and "ready w" and "plain_name (da_filename a)"
  shows "case remove_error (h_disk w) a of
      Some t \<Rightarrow> \<exists>c. handle_remove E a w = (Err (nfs_error t), w\<lparr>w_fid_cache := c\<rparr>) \<and> ready (w\<lparr>w_fid_cache := c\<rparr>)
    | None \<Rightarrow> \<exists>r w'. handle_remove E a w = (r, w') \<and> deletes w a r w'"
  by (rule remove_calm [OF assms])

lemma remove_correct_witness:
  "\<exists>w'. handle_remove env0 abc0 world0 = (Ok (), w') \<and> view (h_disk w') = (view disk0)(3 := None)"
proof -
  have "remove_error disk0 abc0 = None"
    by (simp add: remove_error_def entry_of_def abc0_def)
  moreover have "''abc'' \<in> names_at disk0 [''1'', ''2''] ''3''"
    using in_names_at [of "''abc''" disk0 "[''1'', ''2'']" "''3''"] by (simp add: disk0_def)
  ultimately show ?thesis
    using remove_correct [OF env0_documented ready0, of abc0]
    by (auto simp: deletes_def entry_of_def abc0_def)
qed

text \<open>
  C19. RMDIR on every branch: a file, a directory that is not empty, a missing name and a stale
  parent are refused with their NFS errors and nothing changes; otherwise the directory is
  gone.
\<close>

theorem rmdir_correct:
  assumes "regex_documented E" and "ready w" and "plain_name (da_filename a)"
  shows "case rmdir_error (h_disk w) a of
      Some t \<Rightarrow> \<exists>c. handle_rmdir E a w = (Err (nfs_error t), w\<lparr>w_fid_cache := c\<rparr>) \<and> ready (w\<lparr>w_fid_cache := c\<rparr>)
    | None \<Rightarrow> \<exists>r w'. handle_rmdir E a w = (r, w') \<and> deletes w a r w'"
  by (rule rmdir_calm [OF assms])

definition docs0 :: zip_dir_op_args where
  "docs0 = \<lparr>da_dir = 1, da_filename = ''docs''\<rparr>"

lemma rmdir_correct_witness:
  "\<exists>c. handle_rmdir env0 docs0 world0 = (Err (nfs_error NFSERR_NOTEMPTY), world0\<lparr>w_fid_cache := c\<rparr>)"
proof -
  have "rmdir_error disk0 docs0 = Some NFSERR_NOTEMPTY"
    by (simp add: rmdir_error_def entry_of_def docs0_def) (simp add: disk0_simps)
  then show ?thesis
    using rmdir_correct [OF env0_documented ready0, of docs0] by (auto simp: docs0_def)
qed

text \<open>
  C20. RENAME on every branch: its NFS errors leave the view and the name lock as they were; a
  move the host can carry out puts the file at its new place with its new name, keeps what it
  holds, removes the old name, and releases the name lock.
\<close>

theorem rename_correct:
  assumes "regex_documented E" and "ready w"
    and "plain_name (da_filename (rn_old_loc a))" and "plain_name (da_filename (rn_new_loc a))"
    and "\<And>p. fid_path (h_disk w) (da_dir (rn_old_loc a)) = Some p \<Longrightarrow> is_dir_at (h_disk w) p"
    and "\<And>p. fid_path (h_disk w) (da_dir (rn_new_loc a)) = Some p \<Longrightarrow> is_dir_at (h_disk w) p"
  shows "case rename_error w a of
      Some t \<Rightarrow> \<exists>w'. handle_rename E a w = (Err (nfs_error t), w') \<and> ready w'
        \<and> w_name_lock w' = w_name_lock w \<and> view (h_disk w') = view (h_disk w)
    | None \<Rightarrow> \<exists>od nd f. fid_path (h_disk w) (da_dir (rn_old_loc a)) = Some od
        \<and> fid_path (h_disk w) (da_dir (rn_new_loc a)) = Some nd
        \<and> find_name (h_disk w) od (da_filename (rn_old_loc a)) = Some f
        \<and> (can_move (h_disk w) od nd f (da_filename (rn_old_loc a)) (da_filename (rn_new_loc a)) \<longrightarrow>
            (\<exists>w'. handle_rename E a w = (Ok (), w') \<and> ready w' \<and> w_name_lock w' = w_name_lock w
              \<and> view (h_disk w') = rename_done (h_disk w) od nd f
                   (da_filename (rn_old_loc a)) (da_filename (rn_new_loc a))))"
  by (rule rename_calm [OF assms])

lemma rename_correct_witness:
  "\<exists>w'. handle_rename env0 move0 world0 = (Ok (), w')
     \<and> view (h_disk w') = rename_done disk0 [''1'', ''2''] [''1''] 3 ''abc'' ''abc''"
proof -
  have "rename_error world0 move0 = None"
    by (simp add: rename_error_def move0_def abc0_def)
  moreover have "can_move disk0 [''1'', ''2''] [''1''] 3 ''abc'' ''abc''"
    using in_names_at [of "''abc''" disk0 "[''1'', ''2'']" "''3''"]
    by (simp add: can_move_def name_fits_def NAME_MAX_def disk0_def)
  ultimately show ?thesis
    using rename_correct [OF env0_documented ready0, of move0] by (auto simp: move0_def abc0_def)
qed

text \<open>
  C21. SETATTR succeeds on attributes the server can set, reports the attributes of the changed
  file, cuts or fills its content to the new size, and changes nothing else a client sees.
\<close>

theorem setattr_correct:
  assumes "regex_documented E" and "ready w"
    and "fid_path (h_disk w) (ss_file a) = Some p" and "map_of (h_disk w) p = Some ob"
    and "change_ok E (h_disk w) p (h_clock w) (ss_attributes a) ob"
  shows "\<exists>w'. handle_setattr E a w =
      (Ok (attr_of E (h_disk w) p (ss_file a) (changed_obj (h_clock w) (ss_attributes a) ob)), w')
    \<and> ready w' \<and> w_name_lock w' = w_name_lock w
    \<and> view (h_disk w') = (view (h_disk w))(ss_file a \<mapsto> (file_at (h_disk w) p)
        \<lparr>nf_body := obj_body (changed_obj (h_clock w) (ss_attributes a) ob)\<rparr>)"
  by (rule setattr_calm [OF assms])

definition size0 :: zip_sattr_args where
  "size0 = \<lparr>ss_file = 3, ss_attributes = no_attrs\<lparr>sa_size := Some 2\<rparr>\<rparr>"

lemma setattr_correct_witness:
  "\<exists>r w'. handle_setattr env0 size0 world0 = (Ok r, w')
     \<and> view (h_disk w') = (view disk0)(3 \<mapsto> (file_at disk0 [''1'', ''2'', ''3''])\<lparr>nf_body := FileBody [10, 20]\<rparr>)"
proof -
  have ob: "map_of disk0 [''1'', ''2'', ''3''] = Some (RegFile stamps0 [10, 20, 30])" by (simp add: disk0_def)
  have "change_ok env0 disk0 [''1'', ''2'', ''3''] (200, 0) (ss_attributes size0) (RegFile stamps0 [10, 20, 30])"
    using ob by (simp add: change_ok_def size0_def no_attrs_def times_given_ok_def changed_obj_def
        is_file_at_iff stamps0_def times_ok_def size_of_obj_def meta_len_def resize_bytes_def)
  then show ?thesis
    using setattr_correct [OF env0_documented ready0, of size0 "[''1'', ''2'', ''3'']"] ob
    by (auto simp: size0_def no_attrs_def changed_obj_def resize_bytes_def)
qed



text \<open>
  C23. A stable WRITE to a file replies with the number of bytes, \<^verbatim>\<open>FILE_SYNC\<close> and the epoch, and
  leaves the file with exactly those bytes replaced, the gap to a later offset filled with
  zeros; the rest of the view and the name lock are unchanged.
\<close>

theorem stable_write_correct:
  assumes "regex_documented E" and "ready w" and "wa_stable a \<noteq> UNSTABLE"
    and "write_target (h_disk w) (wa_file a) p bs" and "tmp_ok E (h_disk w) (show_u64 (wa_file a))"
    and "unat (wa_offset a) < 2 ^ 63" and "length (wa_data a) = unat (wa_count a)"
  shows "\<exists>w'. handle_write E a w =
      (Ok \<lparr>wr_count = wa_count a, wr_committed = FILE_SYNC, wr_verf = w_epoch w\<rparr>, w')
    \<and> rewritten w (wa_file a) p (write_at (unat (wa_offset a)) (wa_data a) bs) w'"
  by (rule write_stable_calm [OF assms])

definition write0 :: zip_write_args where
  "write0 = \<lparr>wa_file = 3, wa_offset = 5, wa_count = 2, wa_data = [7, 8], wa_stable = FILE_SYNC\<rparr>"

lemma target0: "write_target disk0 3 [''1'', ''2'', ''3''] [10, 20, 30]"
  by (simp add: write_target_def content_at_def) (simp add: disk0_def)

lemma tmp0: "tmp_ok env0 disk0 ''3''"
  by (simp add: tmp_ok_def comp_err_def NAME_MAX_def env0_def tmp_path_def disk0_simps)

lemma bytes0:
  "write_at 5 [7, 8] [10, 20, 30] = [10, 20, 30, 0, 0, 7, 8]"
  "apply_writes [(0, 1, [9]), (2, 2, [5, 6])] [10, 20, 30] = [9, 20, 5, 6]"
proof -
  have "replicate 2 0 = [0, 0 :: byte]" by (simp add: numeral_2_eq_2)
  then show "write_at 5 [7, 8] [10, 20, 30] = [10, 20, 30, 0, 0, 7, 8]"
    "apply_writes [(0, 1, [9]), (2, 2, [5, 6])] [10, 20, 30] = [9, 20, 5, 6]"
    by (simp_all add: write_at_def apply_writes_def)
qed

lemma stable_write_correct_witness:
  "\<exists>w'. handle_write env0 write0 world0 = (Ok \<lparr>wr_count = 2, wr_committed = FILE_SYNC, wr_verf = 3\<rparr>, w')
     \<and> rewritten world0 3 [''1'', ''2'', ''3''] [10, 20, 30, 0, 0, 7, 8] w'"
  using stable_write_correct [OF env0_documented ready0, of write0 "[''1'', ''2'', ''3'']" "[10, 20, 30]"]
    target0 tmp0
  by (simp add: write0_def bytes0)

text \<open>
  C24. An unstable WRITE is acknowledged at once with the epoch and appended to what is pending
  for its file; nothing else changes, and no write pending for another file is touched.
\<close>

theorem unstable_write_correct:
  assumes "wa_stable a = UNSTABLE" and "async_ok w" and "length (wa_data a) = unat (wa_count a)"
  shows "\<exists>w'. handle_write E a w =
      (Ok \<lparr>wr_count = wa_count a, wr_committed = UNSTABLE, wr_verf = w_epoch w\<rparr>, w')
    \<and> async_ok w'
    \<and> w' = w\<lparr>w_async_bufs := w_async_bufs w', w_async_heap := w_async_heap w', w_async_next := w_async_next w'\<rparr>
    \<and> pending w' = (pending w)(wa_file a := pending w (wa_file a) @ [(wa_offset a, wa_count a, wa_data a)])"
  by (rule write_unstable_calm [OF assms])

lemma unstable_write_correct_witness:
  "\<exists>w'. handle_write env0 (write0\<lparr>wa_stable := UNSTABLE\<rparr>) world0 =
      (Ok \<lparr>wr_count = 2, wr_committed = UNSTABLE, wr_verf = 3\<rparr>, w')
    \<and> pending w' = (\<lambda>_. [])(3 := [(5, 2, [7, 8])])"
proof -
  have "async_ok world0" by (simp add: async_ok_def)
  moreover have "pending world0 = (\<lambda>_. [])" by (simp add: pending_def fun_eq_iff)
  ultimately show ?thesis
    using unstable_write_correct [of "write0\<lparr>wa_stable := UNSTABLE\<rparr>" world0 env0]
    by (auto simp: write0_def)
qed

text \<open>
  C25. COMMIT applies the writes pending for the file, all of them and in the order in which
  they came, replies with the epoch, and forgets them; the writes pending for other files
  stay.
\<close>

theorem commit_correct:
  assumes "regex_documented E" and "ready w" and "async_ok w"
    and "write_target (h_disk w) (cm_file a) p bs" and "tmp_ok E (h_disk w) (show_i64 (cm_file a))"
    and "writes_ok (pending w (cm_file a))"
  shows "\<exists>w'. handle_commit E a w = (Ok (w_epoch w), w') \<and> async_ok w'
    \<and> rewritten w (cm_file a) p (apply_writes (pending w (cm_file a)) bs) w'
    \<and> pending w' = (pending w)(cm_file a := [])"
  by (rule commit_calm [OF assms])

lemma commit_correct_witness:
  "\<exists>w'. handle_commit env0 commit0 (buffered0\<lparr>h_faults := []\<rparr>) = (Ok 3, w') \<and> pending w' 3 = []
     \<and> view (h_disk w') 3 = Some ((file_at disk0 [''1'', ''2'', ''3''])\<lparr>nf_body := FileBody [9, 20, 5, 6]\<rparr>)"
proof -
  let ?w = "buffered0\<lparr>h_faults := []\<rparr>"
  have w: "ready ?w" "async_ok ?w" "w_epoch ?w = 3" "h_disk ?w = disk0"
    using ready0 by (simp_all add: buffered0_def stormy0_def ready_def server_ok_def async_ok_def)
  have p: "pending ?w 3 = [(0, 1, [9]), (2, 2, [5, 6])]" by (simp add: pending_def buffered0_def)
  have "tmp_ok env0 disk0 (show_i64 3)" using tmp0 by (simp add: show_i64_def)
  then show ?thesis
    using commit_correct [OF env0_documented w(1,2), of commit0 "[''1'', ''2'', ''3'']" "[10, 20, 30]"] target0 w p
    by (auto simp: commit0_def writes_ok_def rewritten_def bytes0)
qed

section \<open>Where the code falls short of its documentation\<close>

text \<open>
  C26. A rename within a directory is not atomic: for every rename between two names of the
  root directory there is a power cut after which a client sees the file under both names.
\<close>

theorem same_directory_rename_not_atomic:
  assumes "regex_documented E" and "ready w"
    and "plain_name (da_filename (rn_old_loc a))" and "plain_name (da_filename (rn_new_loc a))"
    and "da_dir (rn_old_loc a) = 1" and "da_dir (rn_new_loc a) = 1"
    and "find_name (h_disk w) [''1''] (da_filename (rn_old_loc a)) = Some f"
    and "find_name (h_disk w) [''1''] (da_filename (rn_new_loc a)) = None"
    and "([''1''], da_filename (rn_new_loc a)) \<notin> w_name_lock w"
    and "name_fits f (da_filename (rn_new_loc a))"
  shows "\<exists>w'. handle_rename E a (w\<lparr>h_faults := replicate 13 None @ [Some PowerCut]\<rparr>) = (Crash, w')
    \<and> view (h_disk w') = rename_mid (h_disk w) [''1''] f (da_filename (rn_new_loc a))"
  by (rule rename_half_done [OF assms])

definition same0 :: zip_rename_args where
  "same0 = \<lparr>rn_old_loc = docs0, rn_new_loc = \<lparr>da_dir = 1, da_filename = ''new''\<rparr>\<rparr>"

lemma same_directory_rename_not_atomic_witness:
  "\<exists>w' v. handle_rename env0 same0 (world0\<lparr>h_faults := replicate 13 None @ [Some PowerCut]\<rparr>) = (Crash, w')
     \<and> view (h_disk w') 2 = Some v \<and> {''docs'', ''new''} \<subseteq> nf_names v"
proof -
  have "''docs'' \<in> names_at disk0 [''1''] ''2''"
    using in_names_at [of "''docs''" disk0 "[''1'']" "''2''"] by (simp add: disk0_def)
  moreover have "name_fits 2 ''new''" by (simp add: name_fits_def NAME_MAX_def)
  ultimately show ?thesis
    using same_directory_rename_not_atomic [OF env0_documented ready0, of same0 2]
    by (auto simp: same0_def docs0_def rename_mid_def)
qed

text \<open>
  C27. The name in a request is used as a pattern, where a dot matches any character: a REMOVE of
  a name that no file has, but that matches the name of a file, deletes that file and then
  reports an error.
\<close>

theorem remove_deletes_other_file:
  assumes "regex_documented E" and "ready w" and "plain_name (da_filename a)"
    and "entry_of (h_disk w) (da_dir a) (da_filename a) = Inr (dp, f)"
    and "\<not> is_dir_at (h_disk w) (dp @ [show_u64 f])"
    and "da_filename a \<notin> names_at (h_disk w) dp (show_u64 f)"
  shows "\<exists>e w'. handle_remove E a w = (Err e, w') \<and> view (h_disk w') = (view (h_disk w))(f := None)"
  by (rule deletes_other [OF assms])

lemma remove_deletes_other_file_witness:
  "\<exists>e w'. handle_remove env0 \<lparr>da_dir = 2, da_filename = ''a.c''\<rparr> world0 = (Err e, w')
     \<and> view (h_disk w') 3 = None"
proof -
  have "''a.c'' \<notin> names_at disk0 [''1'', ''2''] ''3''"
    using in_names_at [of "''a.c''" disk0 "[''1'', ''2'']" "''3''"] by (simp add: disk0_def)
  then show ?thesis
    using remove_deletes_other_file [OF env0_documented ready0, of "\<lparr>da_dir = 2, da_filename = ''a.c''\<rparr>" "[''1'', ''2'']" 3]
    by (auto simp: entry_of_def)
qed




end
