(* ===== verification/ClientGuarantees.thy ===== *)
theory ClientGuarantees
  imports ClientPitfalls Guarantees
begin

text \<open>
  What an application gets that works through the FUSE client, over a network that loses
  requests and replies and on a server that is restarted or loses power in between: written
  data that a flush has saved, reads of the stored bytes, a bounded number of retries; and the
  cases in which the protocol of client and server breaks.
\<close>

section \<open>A session of writes ended by a flush\<close>

lemma serving_start:
  assumes w: "up E w" and f: "is_file_fid (h_disk w) f" and idle: "pending w f = []"
    and c: "unat (ctr_disk (w_counter w)) + k < 2 ^ 64 - 2"
  shows "serving E f (view (h_disk w)) (the (view (h_disk w) f)) k w"
proof -
  obtain v bs where v: "view (h_disk w) f = Some v" "nf_body v = FileBody bs"
    using f by (auto simp: is_file_fid_def split: option.splits body.splits)
  then have "content_of (h_disk w) f = bs" "v\<lparr>nf_body := FileBody bs\<rparr> = v" by (auto simp: content_of_def)
  then have "store_ok f (view (h_disk w)) (the (view (h_disk w) f)) (h_disk w)"
    using w v by (simp add: store_ok_def up_def fun_upd_idem)
  then show ?thesis using w idle c by (simp add: serving_def up_def writes_ok_def)
qed

text \<open>
  C29. Close-to-open consistency across failures. An application opens a file, writes to it any
  number of times and flushes it, through a FUSE client that was just mounted, while the
  network drops requests and replies and the server restarts or loses power at any system call
  of any request. If the calls succeed, the file on the server's disk has the content that all
  the writes in order give, and nothing else a client can see has changed; if fewer than
  \<^const>\<open>MAX_TRIES\<close> connections fail, the calls do succeed. Whatever happens, nothing but the
  content of that file changes.
\<close>

theorem session_saves_writes:
  assumes "up E w" and "is_file_fid (h_disk w) f" and "pending w f = []"
    and "unat (ctr_disk (w_counter w)) + restarts_in evs < 2 ^ 64 - 2"
    and "ops_ok ops"
    and "(restarts_in evs + 1) * Suc (length (all_pieces ops)) + length (all_pieces ops) < fuel"
    and "session (server_rpc E wire) fuel f ops (mounted \<lparr>nt_world = w, nt_events = evs\<rparr>) = (r, s)"
  shows "(r = Ok () \<or> (\<exists>e. r = Err e) \<and> MAX_TRIES \<le> losses_in evs)
    \<and> (r = Ok () \<longrightarrow> content_of (h_disk (nt_world (fs_remote s))) f = written ops (content_of (h_disk w) f))
    \<and> ready (nt_world (fs_remote s))
    \<and> view (h_disk (nt_world (fs_remote s))) = (view (h_disk w))(f \<mapsto>
        (the (view (h_disk w) f))\<lparr>nf_body := FileBody (content_of (h_disk (nt_world (fs_remote s))) f)\<rparr>)"
proof -
  let ?n = "\<lparr>nt_world = w, nt_events = evs\<rparr>" and ?V = "view (h_disk w)"
  have good: "behind (serving E f ?V (the (?V f))) (losses_in evs) ?n"
    using serving_start [OF assms(1-4)] by (simp add: behind_def)
  have idle: "sv_pend (net_srv f ?n) = []" "sv_content (net_srv f ?n) = content_of (h_disk w) f"
      "sv_left (net_srv f ?n) = restarts_in evs"
    using assms(3) by (simp_all add: net_srv_def ahead_def)
  note rule = net.session_rule [OF good idle(1) assms(5) _ assms(7), unfolded idle, OF assms(6)]
  have "content_of (h_disk (nt_world (fs_remote s))) f = written ops (content_of (h_disk w) f)" if "r = Ok ()"
    using rule(2) [OF that] by (simp add: net_srv_def)
  then show ?thesis
    using rule(1,3) by (auto simp: behind_def serving_def store_ok_def)
qed

definition events0 :: "net_event list" where
  "events0 = [LoseReply, Cut 3, Restart, LoseRequest]"

definition ops0 :: "(u64 \<times> bytes) list" where
  "ops0 = [(1, [7, 8]), (4, [9])]"

lemma up0: "up env0 world0"
  using ready0 env0_documented
  by (simp add: up_def tid_fits_def env0_def async_ok_def no_tmp_dirs_def disk0_def tmp_entry_ok_def)

lemma file0: "is_file_fid disk0 3" "content_of disk0 3 = [10, 20, 30]"
  by (simp_all add: is_file_fid_def content_of_def view_def file_at_def) (simp_all add: disk0_def)

lemma idle0: "pending world0 f = []"
  by (simp add: pending_def)

lemma ops0_pieces: "all_pieces ops0 = [(1, 2, [7, 8]), (4, 1, [9])]"
  by (simp add: all_pieces_def ops0_def pieces.simps MAX_BUF_LEN_def)

lemma session_saves_writes_witness:
  "\<exists>r s. session (server_rpc env0 id) 12 3 ops0 (mounted \<lparr>nt_world = world0, nt_events = events0\<rparr>) = (r, s)
     \<and> r = Ok () \<and> content_of (h_disk (nt_world (fs_remote s))) 3 = [10, 7, 8, 0, 9]"
proof -
  obtain r s where run: "session (server_rpc env0 id) 12 3 ops0 (mounted \<lparr>nt_world = world0, nt_events = events0\<rparr>) = (r, s)"
    by (cases "session (server_rpc env0 id) 12 3 ops0 (mounted \<lparr>nt_world = world0, nt_events = events0\<rparr>)")
  have "written ops0 [10, 20, 30] = [10, 7, 8, 0, 9]"
    by (simp add: written_def ops0_def write_at_def)
  moreover have "restarts_in events0 = 2" "losses_in events0 = 3" by (simp_all add: events0_def)
  ultimately show ?thesis
    using session_saves_writes [OF up0 _ idle0 _ _ _ run] file0 ops0_pieces run
    by (auto simp: ops_ok_def ops0_def MAX_TRIES_def)
qed

section \<open>Reads through the network\<close>

text \<open>
  C30. A read of an open file over a network with losses and server failures gives exactly the
  bytes of the file in the requested range, cut at its end, or an error; an error only if
  \<^const>\<open>MAX_TRIES\<close> connections fail. The server, its store and its limits stay intact.
\<close>

theorem read_through_failures:
  assumes "reading E f bs (restarts_in evs) w"
    and "unat off + unat sz < 2 ^ 63"
    and "fs_remote s = \<lparr>nt_world = w, nt_events = evs\<rparr>"
    and "fuse_read (server_rpc E wire) f off sz s = (r, s')"
  shows "(r = Ok (take (unat sz) (drop (unat off) bs)) \<or> (\<exists>e. r = Err e) \<and> MAX_TRIES \<le> losses_in evs)
    \<and> reading E f bs (restarts_in (nt_events (fs_remote s'))) (nt_world (fs_remote s'))"
proof -
  have "behind (reading E f bs) (losses_in evs) (fs_remote s)" using assms(1,3) by (simp add: behind_def)
  note rule = read_net.fuse_read_rule [OF this assms(2,4)]
  show ?thesis using rule(2,1) by (cases rule: answers_cases) (auto simp: behind_def)
qed

lemma reading0: "reading env0 3 [10, 20, 30] 5 world0"
  using ready0 env0_documented fine0 target0
  by (auto simp: reading_def)

lemma read_through_failures_witness:
  "\<exists>r s'. fuse_read (server_rpc env0 id) 3 1 100 (mounted \<lparr>nt_world = world0, nt_events = [Cut 2, LoseReply]\<rparr>) = (r, s')
     \<and> r = Ok [20, 30]"
proof -
  let ?s = "mounted \<lparr>nt_world = world0, nt_events = [Cut 2, LoseReply]\<rparr>"
  obtain r s' where run: "fuse_read (server_rpc env0 id) 3 1 100 ?s = (r, s')"
    by (cases "fuse_read (server_rpc env0 id) 3 1 100 ?s")
  have "reading env0 3 [10, 20, 30] (restarts_in [Cut 2, LoseReply]) world0"
    using reading0 by (simp add: reading_def)
  from read_through_failures [OF this _ _ run] run show ?thesis
    by (auto simp: mounted_def MAX_TRIES_def)
qed

section \<open>Retries\<close>

text \<open>
  C31. Every call of the client sends its request until a reply arrives, \<^const>\<open>MAX_TRIES\<close> times at
  most, on a new connection each time, waiting 1, 2, 4, ... seconds in between, less than 32
  seconds in all; when a reply arrives its value or error number is returned, and if none does
  the error is \<^verbatim>\<open>EIO\<close>.
\<close>

theorem retries_bounded:
  "\<exists>k \<le> MAX_TRIES.
     fs_slept (snd (do_with_retry R rpc s)) = fs_slept s @ map (\<lambda>i. 2 ^ i) [0..<k]
   \<and> sum_list (map (\<lambda>i. 2 ^ i) [0..<k]) < (32 :: nat)
   \<and> list_all (\<lambda>i. cut_off (fst (rpc (after_failures R rpc i (fs_remote s))))) [0..<k]
   \<and> (let w = after_failures R rpc k (fs_remote s)
      in if k = MAX_TRIES then fst (do_with_retry R rpc s) = Err C_EIO \<and> fs_remote (snd (do_with_retry R rpc s)) = w
         else \<not> cut_off (fst (rpc w)) \<and> fst (do_with_retry R rpc s) = answer (fst (rpc w))
           \<and> fs_remote (snd (do_with_retry R rpc s)) = snd (rpc w))
   \<and> fs_epoch (snd (do_with_retry R rpc s)) = fs_epoch s \<and> fs_bufs (snd (do_with_retry R rpc s)) = fs_bufs s"
proof -
  obtain k where k: "retried R rpc MAX_TRIES 0 s k (do_with_retry R rpc s)"
    using retry_loop_spec unfolding do_with_retry_def by blast
  then have "k \<le> MAX_TRIES" by (simp add: retried_def Let_def)
  then show ?thesis
    using k total_wait [of k] by (intro exI [of _ k]) (auto simp: retried_def Let_def list_all_iff split: if_splits)
qed

text \<open>
  A time that the server reports, with less than a million microseconds, is the time the
  client would send back: the conversions between the two formats lose nothing.
\<close>

lemma fuse_times_roundtrip:
  "unat (tv_useconds t) < 1000000 \<Longrightarrow> to_zip_time (to_sys_time t) = t"
  by (rule fuse_time)

lemma fuse_times_roundtrip_witness:
  "to_zip_time (to_sys_time \<lparr>tv_seconds = 1500000000, tv_useconds = 999999\<rparr>)
     = \<lparr>tv_seconds = 1500000000, tv_useconds = 999999\<rparr>"
  using fuse_times_roundtrip [of "\<lparr>tv_seconds = 1500000000, tv_useconds = 999999\<rparr>"] by simp

section \<open>Where the protocol breaks\<close>

text \<open>
  C33. Acknowledged writes can be lost by a flush that reports success. The client keeps one
  epoch for all files: after a restart of the server, the flush of a file without buffered
  writes records the new epoch; the next flush, of a file whose writes the old server had in
  memory, then sees no change of epoch, reports success and throws the buffered writes away,
  and the store is as it was before.
\<close>

theorem flush_loses_writes:
  assumes "up E w" and "unat (ctr_disk (w_counter w)) + 1 < 2 ^ 64 - 4"
    and "is_file_fid (h_disk w) f" and "is_file_fid (h_disk w) g"
    and "fs_remote s = \<lparr>nt_world = w, nt_events = [Restart]\<rparr>" and "fs_epoch s = w_epoch w"
    and "map_of (fs_bufs s) f = None"
  shows "\<exists>s1 s2. fuse_flush (server_rpc E wire) (Suc (Suc n)) f s = (Ok (), s1)
    \<and> fuse_flush (server_rpc E wire) (Suc (Suc n)) g s1 = (Ok (), s2)
    \<and> view (h_disk (nt_world (fs_remote s2))) = view (h_disk w)
    \<and> pending (nt_world (fs_remote s2)) g = []
    \<and> map_of (fs_bufs s2) g = None"
  by (rule flush_two_files [where wire = wire and n = n, OF assms]) (simp add: delete_conv)

text \<open>A second file, FID 4, with a write to it that the server and the client hold in memory\<close>

definition disk1 :: disk where
  "disk1 = disk0 @ [([''1'', ''4''], RegFile stamps0 []), ([''1'', ''4.def''], RegFile stamps0 [])]"

definition world1 :: world where
  "world1 = world0\<lparr>h_disk := disk1, w_counter := \<lparr>ctr_mem = 5, ctr_disk = 5, ctr_poisoned = False\<rparr>,
     w_async_bufs := [(4, 0)], w_async_heap := (\<lambda>_. [])(0 := [(0, 1, [9])]), w_async_next := 1\<rparr>"

definition client1 :: "net fuse" where
  "client1 = \<lparr>fs_remote = \<lparr>nt_world = world1, nt_events = [Restart]\<rparr>, fs_epoch = 3,
     fs_bufs = [(4, [(0, 1, [9])])], fs_slept = []\<rparr>"

lemma entries1 [simp]: "entry_fid ''4'' = Some 4" "entry_fid ''4.def'' = Some 4"
  using entry_fid_show [of 4] entry_fid_named [of 4 "''def''"] by simp_all

lemma store1: "wf_store disk1" "fids_below 5 disk1"
  by (simp_all add: wf_store_def wf_disk_def names_ok_def fids_unique_def fids_below_def disk1_def disk0_def
      is_dir_at_def is_file_at_def under_root_def is_numbered_def)

lemma up1: "up env0 world1"
proof -
  have "ready world1"
    using store1 ready0 by (simp add: ready_def server_ok_def world1_def world0_def counter0_def ctr_synced_def)
  moreover have "no_tmp_dirs disk1" by (simp add: no_tmp_dirs_def disk1_def disk0_def tmp_entry_ok_def)
  ultimately show ?thesis using up0 by (simp add: up_def async_ok_def world1_def)
qed

lemma files1: "is_file_fid disk1 3" "is_file_fid disk1 4" "content_of disk1 4 = []"
proof -
  have "fid_path disk1 3 = Some [''1'', ''2'', ''3'']" "fid_path disk1 4 = Some [''1'', ''4'']"
    by (simp_all add: fid_path_def vpath_def vchild_def has_named_def is_numbered_def disk1_def disk0_simps upt_rec)
  then show "is_file_fid disk1 3" "is_file_fid disk1 4" "content_of disk1 4 = []"
    by (simp_all add: is_file_fid_def content_of_def view_def file_at_def) (simp_all add: disk1_def disk0_def)
qed

lemma flush_loses_writes_witness:
  "pending world1 4 = [(0, 1, [9])] \<and> (\<exists>s1 s2. fuse_flush (server_rpc env0 id) 2 3 client1 = (Ok (), s1)
    \<and> fuse_flush (server_rpc env0 id) 2 4 s1 = (Ok (), s2)
    \<and> content_of (h_disk (nt_world (fs_remote s2))) 4 = []
    \<and> pending (nt_world (fs_remote s2)) 4 = [] \<and> map_of (fs_bufs s2) 4 = None)"
proof -
  have w: "h_disk world1 = disk1" "unat (ctr_disk (w_counter world1)) = 5" "w_epoch world1 = 3" by (simp_all add: world1_def)
  have c: "fs_remote client1 = \<lparr>nt_world = world1, nt_events = [Restart]\<rparr>" "fs_epoch client1 = w_epoch world1"
      "map_of (fs_bufs client1) 3 = None"
    by (simp_all add: client1_def w)
  obtain s1 s2 where "fuse_flush (server_rpc env0 id) 2 3 client1 = (Ok (), s1)"
      "fuse_flush (server_rpc env0 id) 2 4 s1 = (Ok (), s2)"
      "view (h_disk (nt_world (fs_remote s2))) = view disk1" "pending (nt_world (fs_remote s2)) 4 = []"
      "map_of (fs_bufs s2) 4 = None"
    using flush_loses_writes [where f = 3 and g = 4 and s = client1 and E = env0 and wire = id and n = 0, OF up1 _ _ _ c, folded numeral_2_eq_2]
      files1 w by auto
  moreover have "content_of d 4 = []" if "view d = view disk1" for d
    using that files1(3) by (simp add: content_of_def)
  moreover have "pending world1 4 = [(0, 1, [9])]" by (simp add: pending_def world1_def)
  ultimately show ?thesis by blast
qed

end
