(* ===== verification/Directories.thy ===== *)
theory Directories
  imports Browse ClientGuarantees
begin

text \<open>
  Directories and attributes as clients get them: what READDIR lists, that the kernel reads a
  directory completely and without repetition through the client, and lookups over a network
  with failures.
\<close>

section \<open>READDIR\<close>

definition dir_list :: "disk \<Rightarrow> fid \<Rightarrow> zip_dir_entry list" where
  "dir_list d f = (case fid_path d f of Some p \<Rightarrow> listing d p | None \<Rightarrow> [])"

text \<open>
  C35. READDIR without faults: for a FID that does not exist and for a file it gives the NFS error;
  for a directory it gives a page of a list that does not depend on the offset, without
  repetitions, ordered by FID, with exactly one entry for each name of each child that the view
  shows. Nothing but the FID cache changes.
\<close>

theorem readdir_correct:
  assumes "regex_documented E" and "ready w"
  shows "\<exists>r c. handle_readdir E a w = (r, w\<lparr>w_fid_cache := c\<rparr>) \<and> ready (w\<lparr>w_fid_cache := c\<rparr>)
    \<and> (case view (h_disk w) (rd_dir a) of
         None \<Rightarrow> r = Err (nfs_error NFSERR_STALE)
       | Some v \<Rightarrow>
           if nf_body v \<noteq> DirBody then r = Err (nfs_error NFSERR_NOTDIR)
           else
             (let es = dir_list (h_disk w) (rd_dir a)
              in r = Ok (take (MAX_BUF_LEN div env_dirent_size E) (drop (unat (rd_offset a)) es))
               \<and> distinct es \<and> sorted (map (\<lambda>e. sint (de_fid e)) es)
               \<and> set es = Collect (entry_in (view (h_disk w)) (rd_dir a))))"
proof -
  let ?d = "h_disk w" and ?f = "rd_dir a"
  note wf = readyD(5) [OF assms(2)]
  obtain c where c: "handle_readdir E a w = (run (readdir_result E ?d a), w\<lparr>w_fid_cache := c\<rparr>)"
      "ready (w\<lparr>w_fid_cache := c\<rparr>)"
    using readdir_calm [OF assms] by blast
  show ?thesis
  proof (cases "fid_path ?d ?f")
    case None
    then show ?thesis using c by (auto simp: view_def readdir_result_def run_def)
  next
    case (Some p)
    then have v: "view ?d ?f = Some (file_at ?d p)" by (simp add: view_def)
    obtain ob where ob: "map_of ?d p = Some ob" using Some fid_path_Some [OF wf] vpath_exists by blast
    have "nf_body (file_at ?d p) = DirBody \<longleftrightarrow> is_dir_at ?d p"
      using ob by (cases ob) (auto simp: file_at_def is_dir_at_def)
    moreover have "set (listing ?d p) = Collect (entry_in (view ?d) ?f)"
      using in_listing [OF wf Some] by blast
    ultimately show ?thesis
      using c v Some listing_sorted [of ?d p] listing_distinct [of ?d p]
      by (auto simp: readdir_result_def run_def dir_list_def page_size_def)
  qed
qed

lemma listing0: "listing disk0 [''1'', ''2''] = [\<lparr>de_fid = 3, de_fname = ''abc'', de_type = NFREG\<rparr>]"
proof -
  have "named_entry disk0 [''1'', ''2''] ''3.abc'' = ([''1'', ''2'', ''3''], 3, ''abc'', NFREG)"
    using named_entry_named [of disk0 "[''1'', ''2'']" 3 "''abc''"] by (simp add: ftype_at_def)
  then show ?thesis
    by (simp add: listing_def contents_def dir_entry_def disk0_simps is_numbered_def)
qed

lemma disk0_body: "map_of disk0 [''1'', ''2''] = Some (DirObj stamps0)"
  by (simp add: disk0_def)

lemma readdir_correct_witness:
  "\<exists>c. handle_readdir env0 \<lparr>rd_dir = 2, rd_offset = 0\<rparr> world0
     = (Ok [\<lparr>de_fid = 3, de_fname = ''abc'', de_type = NFREG\<rparr>], world0\<lparr>w_fid_cache := c\<rparr>)"
  using readdir_correct [OF env0_documented ready0, of "\<lparr>rd_dir = 2, rd_offset = 0\<rparr>"] listing0
  by (auto simp: view_def file_at_def dir_list_def env0_def MAX_BUF_LEN_def disk0_body)




section \<open>Lookups\<close>



end
