(* ===== verification/Cli.thy ===== *)
theory Cli
  imports Fuse
begin

text \<open>
  The command line client (\<^verbatim>\<open>client/src/bin/client_cli.rs\<close>): the command of its argument, the
  request it stands for, and the exit status. The text of a command is ASCII; what the program
  prints of a reply (\<^verbatim>\<open>{:?}\<close>) is left out, the line it prints before a request is kept.
\<close>

section \<open>Commands\<close>

datatype nfs_command =
    Null
  | MkDir u64 string
  | Remove u64 string
  | RmDir u64 string
  | Lookup u64 string
  | ReadDir u64 u64
  | GetAttr u64
  | SetAttr u64 u64 u64 u64
  | Read u64 u64 u64
  | Write u64 u64 u64 bool string
  | Create u64 string
  | Rename u64 string u64 string
  | StatFs
  | Commit u64 u64 u64

section \<open>Reading a command\<close>

text \<open>\<^verbatim>\<open>char::is_whitespace\<close> on ASCII\<close>

definition is_space :: "char \<Rightarrow> bool" where
  "is_space c \<longleftrightarrow> c \<in> {CHR '' '', CHR 0x09, CHR 0x0A, CHR 0x0B, CHR 0x0C, CHR 0x0D}"

definition trim :: "string \<Rightarrow> string" where
  "trim s = rev (dropWhile is_space (rev (dropWhile is_space s)))"

function split_whitespace :: "string \<Rightarrow> string list" where
  "split_whitespace s =
     (let t = dropWhile is_space s
      in if t = [] then []
         else takeWhile (\<lambda>c. \<not> is_space c) t # split_whitespace (dropWhile (\<lambda>c. \<not> is_space c) t))"
  by pat_completeness auto
termination
proof (relation "measure length")
  fix s t :: string
  assume t: "t = dropWhile is_space s" "t \<noteq> []"
  then have "\<not> is_space (hd t)" using hd_dropWhile [of is_space s] by simp
  then have "length (dropWhile (\<lambda>c. \<not> is_space c) t) < length t"
    using t(2) length_dropWhile_le [of "\<lambda>c. \<not> is_space c" "tl t"] by (cases t) simp_all
  moreover have "length t \<le> length s" unfolding t(1) by (rule length_dropWhile_le)
  ultimately show "(dropWhile (\<lambda>c. \<not> is_space c) t, s) \<in> measure length" by simp
qed simp

declare split_whitespace.simps [simp del]

text \<open>\<^verbatim>\<open>?\<close> on a \<^verbatim>\<open>Result\<close>\<close>

fun try_res :: "'e + 'a \<Rightarrow> ('a \<Rightarrow> 'e + 'b) \<Rightarrow> 'e + 'b" where
  "try_res (Inl e) f = Inl e"
| "try_res (Inr x) f = f x"

text \<open>\<^verbatim>\<open>u64::from_str\<close> with the texts of its errors\<close>

fun parse_digits :: "nat \<Rightarrow> string \<Rightarrow> string + nat" where
  "parse_digits acc [] = Inr acc"
| "parse_digits acc (c # cs) =
     (case digit_val c of
        None \<Rightarrow> Inl ''invalid digit found in string''
      | Some d \<Rightarrow>
          if 2 ^ 64 \<le> 10 * acc + d then Inl ''number too large to fit in target type''
          else parse_digits (10 * acc + d) cs)"

definition u64_from_str :: "string \<Rightarrow> string + u64" where
  "u64_from_str s =
     (let ds = (if s \<noteq> [] \<and> hd s = CHR ''+'' then tl s else s)
      in if ds = [] then Inl ''cannot parse integer from empty string''
         else try_res (parse_digits 0 ds) (\<lambda>n. Inr (of_nat n)))"

definition bool_from_str :: "string \<Rightarrow> string + bool" where
  "bool_from_str s =
     (if s = ''true'' then Inr True
      else if s = ''false'' then Inr False
      else Inl ''provided string was not `true` or `false`'')"

definition try_from :: "string \<Rightarrow> string + nfs_command" where
  "try_from text =
     (let parts = split_whitespace (trim text)
      in if length parts < 1 then Inl ''No command given''
      else if parts ! 0 = ''NULL'' then Inr Null
      else if parts ! 0 = ''MKDIR'' then
        (if length parts < 3 then Inl ''Mkdir without new dir name or parent dir name''
         else try_res (u64_from_str (parts ! 1)) (\<lambda>did. Inr (MkDir did (parts ! 2))))
      else if parts ! 0 = ''RMDIR'' then
        (if length parts < 3 then Inl ''Rmdir without new dir name or parent dir name''
         else try_res (u64_from_str (parts ! 1)) (\<lambda>did. Inr (RmDir did (parts ! 2))))
      else if parts ! 0 = ''REMOVE'' then
        (if length parts < 3 then Inl ''Remove without new dir name or parent dir name''
         else try_res (u64_from_str (parts ! 1)) (\<lambda>did. Inr (Remove did (parts ! 2))))
      else if parts ! 0 = ''LOOKUP'' then
        (if length parts < 3 then Inl ''Lookup without parent dir name or lookup name''
         else try_res (u64_from_str (parts ! 1)) (\<lambda>did. Inr (Lookup did (parts ! 2))))
      else if parts ! 0 = ''READDIR'' then
        (if length parts < 3 then Inl ''Readdir without dir name''
         else try_res (u64_from_str (parts ! 1)) (\<lambda>did.
              try_res (u64_from_str (parts ! 2)) (\<lambda>offset. Inr (ReadDir did offset))))
      else if parts ! 0 = ''GETATTR'' then
        (if length parts < 2 then Inl ''GetAttr without fid''
         else try_res (u64_from_str (parts ! 1)) (\<lambda>fid. Inr (GetAttr fid)))
      else if parts ! 0 = ''SETATTR'' then
        (if length parts < 5 then Inl ''SetAttr without fid, size, atime, mtime''
         else try_res (u64_from_str (parts ! 1)) (\<lambda>fid.
              try_res (u64_from_str (parts ! 2)) (\<lambda>sz.
              try_res (u64_from_str (parts ! 3)) (\<lambda>atime.
              try_res (u64_from_str (parts ! 4)) (\<lambda>mtime. Inr (SetAttr fid sz atime mtime))))))
      else if parts ! 0 = ''READ'' then
        (if length parts < 4 then Inl ''Read without fid, offset, count''
         else try_res (u64_from_str (parts ! 1)) (\<lambda>fid.
              try_res (u64_from_str (parts ! 2)) (\<lambda>offset.
              try_res (u64_from_str (parts ! 3)) (\<lambda>count. Inr (Read fid offset count)))))
      else if parts ! 0 = ''WRITE'' then
        (if length parts < 6 then Inl ''Write without fid, offset, count, stable, data''
         else try_res (u64_from_str (parts ! 1)) (\<lambda>fid.
              try_res (u64_from_str (parts ! 2)) (\<lambda>offset.
              try_res (u64_from_str (parts ! 3)) (\<lambda>count.
              try_res (bool_from_str (parts ! 4)) (\<lambda>sync. Inr (Write fid offset count sync (parts ! 5)))))))
      else if parts ! 0 = ''CREATE'' then
        (if length parts < 3 then Inl ''Create without did, fname''
         else try_res (u64_from_str (parts ! 1)) (\<lambda>did. Inr (Create did (parts ! 2))))
      else if parts ! 0 = ''RENAME'' then
        (if length parts < 5 then Inl ''Rename without fromdid, fromfname, todid, tofname''
         else try_res (u64_from_str (parts ! 1)) (\<lambda>from_did.
              try_res (u64_from_str (parts ! 3)) (\<lambda>to_did.
              Inr (Rename from_did (parts ! 2) to_did (parts ! 4)))))
      else if parts ! 0 = ''STATFS'' then Inr StatFs
      else if parts ! 0 = ''COMMIT'' then
        (if length parts < 4 then Inl ''Commit without fid, offset, count''
         else try_res (u64_from_str (parts ! 1)) (\<lambda>fid.
              try_res (u64_from_str (parts ! 2)) (\<lambda>offset.
              try_res (u64_from_str (parts ! 3)) (\<lambda>count. Inr (Commit fid offset count)))))
      else Inl (''Unknown command: '' @ text))"

section \<open>Executing a command\<close>

text \<open>The server behind the connection and the lines printed so far\<close>

record 'w cli =
  cl_remote :: 'w
  cl_printed :: "string list"

definition printM :: "string \<Rightarrow> ('w cli, 'e, unit) M" where
  "printM line = modifyM (\<lambda>s. s\<lparr>cl_printed := cl_printed s @ [line]\<rparr>)"

text \<open>A request; its error becomes a \<^verbatim>\<open>ZipError\<close>, and only success is looked at.\<close>

definition sendM :: "('w, thrift_error, 'a) M \<Rightarrow> ('w cli, zip_error, 'a) M" where
  "sendM m s = (case m (cl_remote s) of (r, w) \<Rightarrow> (map_err_out zip_error_from r, s\<lparr>cl_remote := w\<rparr>))"

definition show_bool :: "bool \<Rightarrow> string" where
  "show_bool b = (if b then ''true'' else ''false'')"

text \<open>Words with a space between them\<close>

fun spaced :: "string list \<Rightarrow> string" where
  "spaced [] = []"
| "spaced [w] = w"
| "spaced (w # ws) = w @ CHR '' '' # spaced ws"

definition no_sattr :: zip_sattr where
  "no_sattr = \<lparr>sa_mode = None, sa_uid = None, sa_gid = None, sa_size = None, sa_atime = None, sa_mtime = None\<rparr>"

definition sent :: "('w, thrift_error, 'a) M \<Rightarrow> ('w cli, zip_error, unit) M" where
  "sent m = thenM (sendM m) (retM ())"

text \<open>The bytes of a string (\<^verbatim>\<open>data.into()\<close>)\<close>

definition bytes_of :: "string \<Rightarrow> bytes" where
  "bytes_of s = map of_char s"

definition cli_setattr :: "'w rpc \<Rightarrow> u64 \<Rightarrow> u64 \<Rightarrow> u64 \<Rightarrow> u64 \<Rightarrow> ('w cli, zip_error, unit) M" where
  "cli_setattr R fid sz atime mtime =
     thenM (printM (spaced [''Executing SetAttr'', show_u64 fid, show_u64 sz, show_u64 atime, show_u64 mtime]))
       (sent (rpc_setattr R \<lparr>ss_file = fid,
          ss_attributes = \<lparr>sa_mode = None, sa_uid = None, sa_gid = None, sa_size = Some sz,
            sa_atime = Some \<lparr>tv_seconds = atime, tv_useconds = 0\<rparr>,
            sa_mtime = Some \<lparr>tv_seconds = mtime, tv_useconds = 0\<rparr>\<rparr>\<rparr>))"

definition cli_read :: "'w rpc \<Rightarrow> u64 \<Rightarrow> u64 \<Rightarrow> u64 \<Rightarrow> ('w cli, zip_error, unit) M" where
  "cli_read R fid offset count =
     thenM (printM (spaced [''Executing Read'', show_u64 fid, show_u64 offset, show_u64 count]))
       (sent (rpc_read R \<lparr>ra_file = fid, ra_offset = offset, ra_count = count\<rparr>))"

definition cli_write :: "'w rpc \<Rightarrow> u64 \<Rightarrow> u64 \<Rightarrow> u64 \<Rightarrow> bool \<Rightarrow> string \<Rightarrow> ('w cli, zip_error, unit) M" where
  "cli_write R fid offset count sync data =
     thenM (printM (spaced [''Executing Write'', show_u64 fid, show_u64 offset, show_u64 count, show_bool sync, data]))
       (sent (rpc_write R \<lparr>wa_file = fid, wa_offset = offset, wa_count = count, wa_data = bytes_of data,
          wa_stable = (if sync then FILE_SYNC else UNSTABLE)\<rparr>))"

definition cli_create :: "'w rpc \<Rightarrow> u64 \<Rightarrow> string \<Rightarrow> ('w cli, zip_error, unit) M" where
  "cli_create R did fname =
     thenM (printM (spaced [''Executing Create'', show_u64 did, fname]))
       (sent (rpc_create R \<lparr>ca_where = \<lparr>da_dir = did, da_filename = fname\<rparr>, ca_attributes = no_sattr\<rparr>))"

definition cli_rename :: "'w rpc \<Rightarrow> u64 \<Rightarrow> string \<Rightarrow> u64 \<Rightarrow> string \<Rightarrow> ('w cli, zip_error, unit) M" where
  "cli_rename R fdid ffname tdid tfname =
     thenM (printM (spaced [''Executing Rename'', show_u64 fdid, ffname, show_u64 tdid, tfname]))
       (sent (rpc_rename R \<lparr>rn_old_loc = \<lparr>da_dir = fdid, da_filename = ffname\<rparr>,
          rn_new_loc = \<lparr>da_dir = tdid, da_filename = tfname\<rparr>\<rparr>))"

text \<open>
  \<^verbatim>\<open>ZipCommitArgs::new\<close> takes the file, the count and the offset; the code passes offset and count.
\<close>

definition cli_commit :: "'w rpc \<Rightarrow> u64 \<Rightarrow> u64 \<Rightarrow> u64 \<Rightarrow> ('w cli, zip_error, unit) M" where
  "cli_commit R fid offset count =
     thenM (printM (spaced [''Executing Rename'', show_u64 fid, show_u64 offset, show_u64 count]))
       (sent (rpc_commit R \<lparr>cm_file = fid, cm_count = offset, cm_offset = count\<rparr>))"

fun run_command :: "'w rpc \<Rightarrow> nfs_command \<Rightarrow> ('w cli, zip_error, unit) M" where
  "run_command R Null = thenM (printM ''Executing NULL'') (sent (rpc_null R))"
| "run_command R StatFs = thenM (printM ''Executing STATFS'') (sent (rpc_statfs R 1))"
| "run_command R (MkDir did new_dir) =
     thenM (printM (spaced [''Executing Mkdir'', show_u64 did, new_dir]))
       (sent (rpc_mkdir R \<lparr>ca_where = \<lparr>da_dir = did, da_filename = new_dir\<rparr>, ca_attributes = no_sattr\<rparr>))"
| "run_command R (Lookup did fname) =
     thenM (printM (spaced [''Executing Lookup'', show_u64 did, fname]))
       (sent (rpc_lookup R \<lparr>da_dir = did, da_filename = fname\<rparr>))"
| "run_command R (Remove did fname) =
     thenM (printM (spaced [''Executing Remove'', show_u64 did, fname]))
       (sent (rpc_remove R \<lparr>da_dir = did, da_filename = fname\<rparr>))"
| "run_command R (RmDir did fname) =
     thenM (printM (spaced [''Executing RmDir'', show_u64 did, fname]))
       (sent (rpc_rmdir R \<lparr>da_dir = did, da_filename = fname\<rparr>))"
| "run_command R (ReadDir did offset) =
     thenM (printM (spaced [''Executing ReadDir'', show_u64 did, show_u64 offset]))
       (sent (rpc_readdir R \<lparr>rd_dir = did, rd_offset = offset\<rparr>))"
| "run_command R (GetAttr fid) =
     thenM (printM (spaced [''Executing GetAttr'', show_u64 fid])) (sent (rpc_getattr R fid))"
| "run_command R (SetAttr fid sz atime mtime) = cli_setattr R fid sz atime mtime"
| "run_command R (Read fid offset count) = cli_read R fid offset count"
| "run_command R (Write fid offset count sync data) = cli_write R fid offset count sync data"
| "run_command R (Create did fname) = cli_create R did fname"
| "run_command R (Rename fdid ffname tdid tfname) = cli_rename R fdid ffname tdid tfname"
| "run_command R (Commit fid offset count) = cli_commit R fid offset count"

text \<open>\<open>connect\<close> is \<^verbatim>\<open>new_client(server_addr)\<close>.\<close>

definition cli_run :: "('w, thrift_error, unit) M \<Rightarrow> 'w rpc \<Rightarrow> nfs_command \<Rightarrow> ('w cli, zip_error, unit) M" where
  "cli_run connect R command = thenM (sendM connect) (run_command R command)"

text \<open>
  The exit of the program; \<open>Usage\<close> is clap's, with the error of the validator of the
  \<^verbatim>\<open>command\<close> argument, before \<^verbatim>\<open>main\<close> goes on.
\<close>

datatype exit_status = Usage string | Success | Failure zip_error

definition cli_main :: "('w, thrift_error, unit) M \<Rightarrow> 'w rpc \<Rightarrow> string \<Rightarrow> ('w cli, zip_error, exit_status) M" where
  "cli_main connect R text =
     (case try_from text of
        Inl e \<Rightarrow> retM (Usage e)
      | Inr _ \<Rightarrow>
          bindM (unwrap_optM (case try_from text of Inl _ \<Rightarrow> None | Inr c \<Rightarrow> Some c)) (\<lambda>command.
          bindM (attemptM (cli_run connect R command)) (\<lambda>res.
          case res of Inl e \<Rightarrow> retM (Failure e) | Inr _ \<Rightarrow> retM Success)))"

end
