(* ===== verification/Commands.thy ===== *)
theory Commands
  imports Cli Guarantees Network
begin

text \<open>
  What the command line client accepts, word by word, and a command carried out by the server.
\<close>

section \<open>Numbers\<close>

lemma digits_val_grow: "digits_val a s = Some n \<Longrightarrow> a \<le> n"
proof (induction s arbitrary: a)
  case (Cons c cs)
  then obtain d where "digits_val (10 * a + d) cs = Some n" by (auto split: option.splits)
  from Cons.IH [OF this] show ?case by simp
qed simp

lemma parse_digits_val:
  "parse_digits acc s = Inr n \<longleftrightarrow> digits_val acc s = Some n \<and> (s = [] \<or> n < 2 ^ 64)"
proof (induction s arbitrary: acc)
  case (Cons c cs)
  show ?case
  proof (cases "digit_val c")
    case (Some d)
    show ?thesis
    proof (cases "2 ^ 64 \<le> 10 * acc + d")
      case True
      then have "\<not> n < 2 ^ 64" if "digits_val (10 * acc + d) cs = Some n" using digits_val_grow [OF that] by linarith
      then show ?thesis using True Some by auto
    next
      case False
      then have "n < 2 ^ 64" if "digits_val (10 * acc + d) cs = Some n" "cs = []" using that by simp
      then show ?thesis using False Some Cons.IH [of "10 * acc + d"] by auto
    qed
  qed simp
qed auto

lemma u64_from_str_parse: "u64_from_str s = Inr n \<longleftrightarrow> parse_u64 s = Some n"
proof -
  let ?ds = "if s \<noteq> [] \<and> hd s = CHR ''+'' then tl s else s"
  have res: "try_res r (\<lambda>k. Inr (of_nat k)) = Inr n \<longleftrightarrow> (\<exists>k. r = Inr k \<and> of_nat k = n)" for r :: "string + nat"
    by (cases r) auto
  show ?thesis
    by (cases "?ds = []") (auto simp: u64_from_str_def parse_u64_def Let_def res parse_digits_val split: option.splits)
qed

lemma u64_from_show [simp]: "u64_from_str (show_u64 n) = Inr n"
  by (simp add: u64_from_str_parse)

lemma bool_from_show [simp]: "bool_from_str (show_bool b) = Inr b"
  by (simp add: bool_from_str_def show_bool_def)

section \<open>Words\<close>

definition is_word :: "string \<Rightarrow> bool" where
  "is_word w \<longleftrightarrow> w \<noteq> [] \<and> list_all (\<lambda>c. \<not> is_space c) w"

lemma split_blank: "dropWhile is_space s = [] \<Longrightarrow> split_whitespace s = []"
  by (subst split_whitespace.simps) simp

lemma split_step:
  "dropWhile is_space s = t \<Longrightarrow> t \<noteq> [] \<Longrightarrow>
    split_whitespace s = takeWhile (\<lambda>c. \<not> is_space c) t # split_whitespace (dropWhile (\<lambda>c. \<not> is_space c) t)"
  by (subst split_whitespace.simps) simp

lemma split_word:
  assumes w: "is_word w" and s: "s = [] \<or> is_space (hd s)"
  shows "split_whitespace (w @ s) = w # split_whitespace s"
proof -
  have no: "\<not> is_space c" if "c \<in> set w" for c using w that by (auto simp: is_word_def list_all_iff)
  have "dropWhile is_space (w @ s) = w @ s" using w no by (cases w) (auto simp: is_word_def)
  moreover have "takeWhile (\<lambda>c. \<not> is_space c) (w @ s) = w" "dropWhile (\<lambda>c. \<not> is_space c) (w @ s) = s"
    using no s by (cases s; simp)+
  moreover have "w \<noteq> []" using w by (simp add: is_word_def)
  ultimately show ?thesis by (subst split_whitespace.simps) simp
qed

lemma split_space: "is_space c \<Longrightarrow> split_whitespace (c # s) = split_whitespace s"
  by (subst (1 2) split_whitespace.simps) simp

lemma split_spaced: "list_all is_word ws \<Longrightarrow> split_whitespace (spaced ws) = ws"
proof (induction ws rule: spaced.induct)
  case (2 w)
  then show ?case using split_word [of w "[]"] by (simp add: split_blank)
next
  case (3 w v ws)
  then show ?case using split_word [of w "CHR '' '' # spaced (v # ws)"] by (simp add: split_space is_space_def)
qed (simp add: split_blank)

lemma split_drop: "split_whitespace (dropWhile is_space s) = split_whitespace s"
  by (subst (1 2) split_whitespace.simps) simp

lemma split_append_space:
  "list_all is_space t \<Longrightarrow> split_whitespace (s @ t) = split_whitespace s"
proof (induction s rule: split_whitespace.induct)
  case (1 s)
  have t: "is_space c" if "c \<in> set t" for c using "1.prems" that by (simp add: list_all_iff)
  show ?case
  proof (cases "dropWhile is_space s = []")
    case True
    then have "dropWhile is_space (s @ t) = []" using t by auto
    then show ?thesis using True by (simp add: split_blank)
  next
    case False
    let ?u = "dropWhile is_space s"
    have "\<exists>c \<in> set s. \<not> is_space c" using False by auto
    then have d: "dropWhile is_space (s @ t) = ?u @ t" by auto
    have tk: "takeWhile (\<lambda>c. \<not> is_space c) (?u @ t) = takeWhile (\<lambda>c. \<not> is_space c) ?u
        \<and> dropWhile (\<lambda>c. \<not> is_space c) (?u @ t) = dropWhile (\<lambda>c. \<not> is_space c) ?u @ t"
    proof (cases "\<exists>c \<in> set ?u. is_space c")
      case True
      then show ?thesis by auto
    next
      case no: False
      then have all: "\<not> is_space c" if "c \<in> set ?u" for c using that by blast
      have "takeWhile (\<lambda>c. \<not> is_space c) t = []" "dropWhile (\<lambda>c. \<not> is_space c) t = t"
        using t by (cases t; simp)+
      moreover have u: "takeWhile (\<lambda>c. \<not> is_space c) ?u = ?u" "dropWhile (\<lambda>c. \<not> is_space c) ?u = []" using all by auto
      ultimately show ?thesis
        using all unfolding u by simp
    qed
    show ?thesis
      using tk "1.IH" [OF refl False "1.prems"] split_step [OF d] split_step [OF refl False] False by simp
  qed
qed

lemma split_trim [simp]: "split_whitespace (trim s) = split_whitespace s"
proof -
  let ?u = "dropWhile is_space s"
  have "?u = trim s @ rev (takeWhile is_space (rev ?u))"
    by (simp add: trim_def flip: rev_append)
  moreover have "list_all is_space (rev (takeWhile is_space (rev ?u)))"
    by (auto simp: list_all_iff dest: set_takeWhileD)
  ultimately show ?thesis by (metis split_append_space split_drop)
qed

section \<open>Commands\<close>

text \<open>The words of a command: a keyword or a name, a number, or a flag\<close>

datatype field = Word string | Num u64 | Flag bool

fun fields_of :: "nfs_command \<Rightarrow> field list" where
  "fields_of Null = [Word ''NULL'']"
| "fields_of (MkDir did nm) = [Word ''MKDIR'', Num did, Word nm]"
| "fields_of (Remove did nm) = [Word ''REMOVE'', Num did, Word nm]"
| "fields_of (RmDir did nm) = [Word ''RMDIR'', Num did, Word nm]"
| "fields_of (Lookup did nm) = [Word ''LOOKUP'', Num did, Word nm]"
| "fields_of (ReadDir did off) = [Word ''READDIR'', Num did, Num off]"
| "fields_of (GetAttr f) = [Word ''GETATTR'', Num f]"
| "fields_of (SetAttr f sz at mt) = [Word ''SETATTR'', Num f, Num sz, Num at, Num mt]"
| "fields_of (Read f off n) = [Word ''READ'', Num f, Num off, Num n]"
| "fields_of (Write f off n b data) = [Word ''WRITE'', Num f, Num off, Num n, Flag b, Word data]"
| "fields_of (Create did nm) = [Word ''CREATE'', Num did, Word nm]"
| "fields_of (Rename fd fnm td tnm) = [Word ''RENAME'', Num fd, Word fnm, Num td, Word tnm]"
| "fields_of StatFs = [Word ''STATFS'']"
| "fields_of (Commit f off n) = [Word ''COMMIT'', Num f, Num off, Num n]"

fun spells :: "field \<Rightarrow> string \<Rightarrow> bool" where
  "spells (Word w) v \<longleftrightarrow> v = w"
| "spells (Num n) v \<longleftrightarrow> u64_from_str v = Inr n"
| "spells (Flag b) v \<longleftrightarrow> bool_from_str v = Inr b"

fun show_field :: "field \<Rightarrow> string" where
  "show_field (Word w) = w"
| "show_field (Num n) = show_u64 n"
| "show_field (Flag b) = show_bool b"

lemma spells_show: "list_all2 spells fs (map show_field fs)"
proof -
  have "spells f (show_field f)" for f by (cases f) simp_all
  then show ?thesis by (simp add: list.rel_map list_all2_same)
qed

text \<open>Its first words, whatever follows\<close>

definition means :: "string list \<Rightarrow> nfs_command \<Rightarrow> bool" where
  "means ws c \<longleftrightarrow> list_all2 spells (fields_of c) (take (length (fields_of c)) ws)"

lemma take_nths: "k \<le> length ws \<Longrightarrow> take k ws = map ((!) ws) [0..<k]"
  by (rule nth_equalityI) simp_all

lemma try_res_Inr: "try_res r f = Inr y \<longleftrightarrow> (\<exists>x. r = Inr x \<and> f x = Inr y)"
  by (cases r) auto

lemma try_from_sound: "try_from s = Inr c \<Longrightarrow> means (split_whitespace s) c"
  unfolding try_from_def Let_def split_trim
  by (auto split: if_split_asm simp: try_res_Inr means_def take_nths upt_rec numeral_eq_Suc)
     (cases "split_whitespace s"; simp)+

lemma try_from_complete:
  assumes "means (split_whitespace s) c"
  shows "try_from s = Inr c"
proof -
  have len: "length (fields_of c) \<le> length (split_whitespace s)"
    using assms list_all2_lengthD unfolding means_def by fastforce
  then have "list_all2 spells (fields_of c) (map ((!) (split_whitespace s)) [0..<length (fields_of c)])"
    using assms by (simp add: means_def take_nths)
  then show ?thesis
    using len by (cases c) (auto simp: try_from_def Let_def upt_rec numeral_eq_Suc)
qed

text \<open>
  C38. The command line client accepts a text exactly when its words, however they are separated,
  start with a command: its keyword, and every argument in its place, numbers in any spelling that fits 64
  bits, flags as \<^verbatim>\<open>true\<close> or \<^verbatim>\<open>false\<close>, names and data as they are. No text stands for two commands.
\<close>

theorem cli_accepts: "try_from s = Inr c \<longleftrightarrow> means (split_whitespace s) c"
  using try_from_sound try_from_complete by blast

text \<open>What follows the last argument is dropped, so data with blanks is cut at the first one.\<close>

lemma means_append:
  assumes "means ws c"
  shows "means (ws @ rest) c"
proof -
  let ?n = "length (fields_of c)"
  have "length (take ?n ws) = ?n" using assms by (metis means_def list_all2_lengthD)
  then have "take ?n (ws @ rest) = take ?n ws" by simp
  then show ?thesis using assms unfolding means_def by metis
qed

lemma cli_drops_rest:
  assumes "try_from s = Inr c" and "split_whitespace t = split_whitespace s @ rest"
  shows "try_from t = Inr c"
  using means_append [OF try_from_sound [OF assms(1)]] assms(2) by (simp add: try_from_complete)

definition show_command :: "nfs_command \<Rightarrow> string" where
  "show_command c = spaced (map show_field (fields_of c))"

definition blank :: "string \<Rightarrow> bool" where
  "blank s = list_all is_space s"

lemma show_field_word:
  "is_word (show_u64 n)" "is_word (show_bool b)"
proof -
  have "\<not> is_space c" if "is_digit c" for c
    using that by (auto simp: is_space_def is_digit_def digit_val_def upt_rec split: if_splits)
  then show "is_word (show_u64 n)" using show_u64_digit_set by (auto simp: is_word_def list_all_iff)
  show "is_word (show_bool b)" by (simp add: is_word_def show_bool_def is_space_def)
qed

text \<open>The names and the data in a command are words.\<close>

definition texts_ok :: "nfs_command \<Rightarrow> bool" where
  "texts_ok c = list_all (\<lambda>f. case f of Word w \<Rightarrow> is_word w | _ \<Rightarrow> True) (fields_of c)"

lemma split_prefix_space: "list_all is_space t \<Longrightarrow> split_whitespace (t @ s) = split_whitespace s"
  by (induction t) (simp_all add: split_space)

text \<open>
  C39. Every command whose names and data are words can be given to the client: its text, with any blanks
  before and after, is read as that command.
\<close>

theorem cli_roundtrip:
  assumes "texts_ok c" and "blank pre" and "blank post"
  shows "try_from (pre @ show_command c @ post) = Inr c"
proof -
  have "list_all is_word (map show_field (fields_of c))"
    using assms(1) show_field_word unfolding texts_ok_def list_all_iff by (auto split: field.splits) (metis field.exhaust show_field.simps)
  then have "split_whitespace (pre @ show_command c @ post) = map show_field (fields_of c)"
    using assms(2,3) by (simp add: blank_def split_prefix_space split_append_space show_command_def split_spaced)
  moreover have "means (map show_field (fields_of c)) c"
    using spells_show [of "fields_of c"] by (simp add: means_def)
  ultimately show ?thesis by (simp add: try_from_complete)
qed

lemma cli_roundtrip_witness:
  "try_from ('' '' @ show_command (Rename 1 ''a.txt'' 2 ''b'') @ ''  '') = Inr (Rename 1 ''a.txt'' 2 ''b'')"
  by (rule cli_roundtrip) (simp_all add: texts_ok_def is_word_def is_space_def blank_def)

section \<open>A command carried out\<close>

text \<open>The connection to a server that answers\<close>

definition terminal :: "world \<Rightarrow> net cli" where
  "terminal w = \<lparr>cl_remote = \<lparr>nt_world = w, nt_events = []\<rparr>, cl_printed = []\<rparr>"

text \<open>
  C40. The command \<^verbatim>\<open>CREATE\<close> from the text to the disk: on a server that is up and a name that is
  free, the program prints what it does, exits with success, and the store has one new file
  under the next FID with that name, empty.
\<close>

theorem cli_creates_file:
  assumes "regex_documented E" and "ready w"
    and "means (split_whitespace text) (Create did fname)"
    and "fid_path (h_disk w) did = Some dp" and "is_dir_at (h_disk w) dp"
    and "plain_name fname" and "name_fits (ctr_disk (w_counter w)) fname"
    and "(dp, fname) \<notin> w_name_lock w" and "find_name (h_disk w) dp fname = None"
    and "unat (ctr_disk (w_counter w)) < 2 ^ 64 - 2"
    and "create_attrs_ok E (h_clock w) True no_sattr"
  shows "\<exists>s. cli_main (retM ()) (server_rpc E wire) text (terminal w) = (Ok Success, s)
    \<and> cl_printed s = [''Executing Create '' @ show_u64 did @ '' '' @ fname]
    \<and> view (h_disk (nt_world (cl_remote s))) =
        (view (h_disk w))(ctr_disk (w_counter w) \<mapsto> new_file dp fname (FileBody []))"
proof -
  let ?a = "\<lparr>ca_where = \<lparr>da_dir = did, da_filename = fname\<rparr>, ca_attributes = no_sattr\<rparr>"
  obtain res w' where made: "create_object E ?a True w = (Ok res, w')"
      "view (h_disk w') = (view (h_disk w))(ctr_disk (w_counter w) \<mapsto> new_file dp fname (FileBody []))"
    using create_calm [of E w ?a dp True] assms by (auto simp: initial_body_def empty_body_def no_sattr_def)
  have "rpc_create (server_rpc E wire) ?a \<lparr>nt_world = w, nt_events = []\<rparr> = (Ok res, \<lparr>nt_world = w', nt_events = []\<rparr>)"
    using made(1) by (simp add: server_rpc_def netM_def handle_create_def)
  then have "cli_main (retM ()) (server_rpc E wire) text (terminal w)
      = (Ok Success, \<lparr>cl_remote = \<lparr>nt_world = w', nt_events = []\<rparr>,
           cl_printed = [''Executing Create '' @ show_u64 did @ '' '' @ fname]\<rparr>)"
    by (simp add: cli_main_def try_from_complete [OF assms(3)] cli_run_def cli_create_def terminal_def bindM_apply thenM_apply
        attemptM_apply sendM_def retM_apply printM_def modifyM_apply sent_def)
  then show ?thesis using made(2) by simp
qed

lemma cli_creates_file_witness:
  "\<exists>s. cli_main (retM ()) (server_rpc env0 id) ''CREATE 2 new'' (terminal world0) = (Ok Success, s)
    \<and> view (h_disk (nt_world (cl_remote s))) = (view disk0)(4 \<mapsto> \<lparr>nf_parent = ''2'', nf_names = {''new''}, nf_body = FileBody []\<rparr>)"
proof -
  have fields: "map show_field (fields_of (Create 2 ''new'')) = [''CREATE'', ''2'', ''new'']" by simp
  have "split_whitespace (spaced [''CREATE'', ''2'', ''new'']) = [''CREATE'', ''2'', ''new'']"
    by (rule split_spaced) (simp add: is_word_def is_space_def)
  then have words: "means (split_whitespace ''CREATE 2 new'') (Create 2 ''new'')"
    using spells_show [of "fields_of (Create 2 ''new'')"] unfolding fields by (simp add: means_def)
  have "create_attrs_ok env0 (200, 0) True no_sattr"
    by (simp add: create_attrs_ok_def no_sattr_def times_given_ok_def new_obj_def times_ok_def
        fresh_stamps_def env0_def)
  then show ?thesis
    using cli_creates_file [OF env0_documented ready0 words, of "[''1'', ''2'']" id]
    by (auto simp: name_fits_def NAME_MAX_def new_file_def)
qed

end
