(* ===== verification/AtomicAttr.thy ===== *)
theory AtomicAttr
  imports Atomic
begin

text \<open>
  SETATTR under faults: a client sees the old content of the file or the whole change.
\<close>

section \<open>SETATTR\<close>

definition setattr_done :: "disk \<Rightarrow> zip_sattr_args \<Rightarrow> disk \<Rightarrow> bool" where
  "setattr_done d a d' \<longleftrightarrow> (\<exists>p. fid_path d (ss_file a) = Some p
     \<and> (case sa_size (ss_attributes a) of None \<Rightarrow> view d' = view d
        | Some n \<Rightarrow> \<exists>st bs. map_of d p = Some (RegFile st bs)
            \<and> view d' = (view d)(ss_file a \<mapsto> (file_at d p)\<lparr>nf_body := FileBody (resize_bytes (unat n) bs)\<rparr>)))"

lemma attrs_set_done:
  assumes ok: "durable_ok d c" and p: "fid_path d (ss_file a) = Some p"
    and s: "attrs_set d p (sa_size (ss_attributes a)) d'"
  shows "durable_ok d' c" "setattr_done d a d'"
proof -
  have wf: "wf_store d" using ok by (simp add: durable_ok_def)
  note o = attrs_set_ok [OF wf p s]
  show "durable_ok d' c" using ok o(1,2) by (simp add: durable_ok_def)
  show "setattr_done d a d'" using o(3) p by (auto simp: setattr_done_def)
qed

lemma setattr_survives:
  assumes doc: "regex_documented E" and ok: "server_ok w"
  shows "survives (handle_setattr E a)
    (\<lambda>_ d' c'. durable_ok d' c' \<and> setattr_done (h_disk w) a d')
    (\<lambda>d' c'. durable_ok d' c' \<and> (view d' = view (h_disk w) \<or> setattr_done (h_disk w) a d')) w"
    (is "survives _ ?Q ?C w")
proof -
  let ?d = "h_disk w" and ?c = "w_counter w" and ?k = "\<lambda>p. thenM (fs_set_attr E p (sa_atime (ss_attributes a))
      (sa_mtime (ss_attributes a)) (sa_size (ss_attributes a))) (fs_get_attr E p (ss_file a))"
  have wf: "wf_store ?d" and cache: "cache_ok ?d (w_fid_cache w)" using ok by (simp_all add: server_ok_def)
  note dur = server_ok_durable [OF ok]
  have body: "chl ?d ?c (?k p) ?Q ?C" if p: "fid_path ?d (ss_file a) = Some p" for p
  proof (rule chl_thenM)
    show "chl ?d ?c (fs_set_attr E p (sa_atime (ss_attributes a)) (sa_mtime (ss_attributes a))
        (sa_size (ss_attributes a))) (\<lambda>_ d' c'. durable_ok d' c' \<and> setattr_done ?d a d') ?C"
      by (rule chl_mono [OF chl_set_attr]) (use attrs_set_done [OF dur p] dur in auto)
    show "chl d' c' (fs_get_attr E p (ss_file a)) ?Q ?C" if "durable_ok d' c' \<and> setattr_done ?d a d'" for d' c'
      by (rule chl_still, rule still_rules) (use that in auto)
  qed
  have swap: "handle_setattr E a = bindM (strM (fs_find_by_fid E (ss_file a)))
      (\<lambda>p. case p of None \<Rightarrow> nfsM NFSERR_STALE | Some p \<Rightarrow> ?k p)"
    by (simp add: handle_setattr_def)
  show ?thesis
    unfolding swap by (rule survives_resolve [OF doc wf cache]) (use dur body in auto)
qed

end
