(* ===== verification/Service.thy ===== *)
theory Service
  imports AtomicRename AtomicAttr Frames SetAttrs Listing
begin

text \<open>
  The service as a whole: one type of requests and one of replies, the dispatch to the
  handlers, what every request guarantees under faults, and what it does without.
\<close>

section \<open>Requests and replies\<close>

datatype request =
    ReqNull
  | ReqGetattr fid
  | ReqSetattr zip_sattr_args
  | ReqLookup zip_dir_op_args
  | ReqRead zip_read_args
  | ReqWrite zip_write_args
  | ReqCreate zip_create_args
  | ReqRemove zip_dir_op_args
  | ReqRename zip_rename_args
  | ReqMkdir zip_create_args
  | ReqRmdir zip_dir_op_args
  | ReqReaddir zip_read_dir_args
  | ReqStatfs fid
  | ReqCommit zip_commit_args

datatype reply_value =
    RepEpoch u64
  | RepAttr zip_fattr
  | RepEntry zip_dir_op_res
  | RepData zip_read_res
  | RepWritten zip_write_res
  | RepDone
  | RepEntries "zip_dir_entry list"
  | RepStat zip_stat_fs_res

definition sendM :: "('a \<Rightarrow> reply_value) \<Rightarrow> (world, thrift_error, 'a) M \<Rightarrow> (world, thrift_error, reply_value) M" where
  "sendM g m = bindM m (\<lambda>x. retM (g x))"

fun serve :: "env \<Rightarrow> request \<Rightarrow> (world, thrift_error, reply_value) M" where
  "serve E ReqNull = sendM RepEpoch handle_null"
| "serve E (ReqGetattr f) = sendM RepAttr (handle_getattr E f)"
| "serve E (ReqSetattr a) = sendM RepAttr (handle_setattr E a)"
| "serve E (ReqLookup a) = sendM RepEntry (handle_lookup E a)"
| "serve E (ReqRead a) = sendM RepData (handle_read E a)"
| "serve E (ReqWrite a) = sendM RepWritten (handle_write E a)"
| "serve E (ReqCreate a) = sendM RepEntry (handle_create E a)"
| "serve E (ReqRemove a) = sendM (\<lambda>_. RepDone) (handle_remove E a)"
| "serve E (ReqRename a) = sendM (\<lambda>_. RepDone) (handle_rename E a)"
| "serve E (ReqMkdir a) = sendM RepEntry (handle_mkdir E a)"
| "serve E (ReqRmdir a) = sendM (\<lambda>_. RepDone) (handle_rmdir E a)"
| "serve E (ReqReaddir a) = sendM RepEntries (handle_readdir E a)"
| "serve E (ReqStatfs f) = sendM RepStat (handle_statfs f)"
| "serve E (ReqCommit a) = sendM RepEpoch (handle_commit E a)"

text \<open>Requests that create, delete and move, and those that touch the buffers\<close>

fun is_creation :: "request \<Rightarrow> bool" where
  "is_creation (ReqCreate a) = True"
| "is_creation (ReqMkdir a) = True"
| "is_creation _ = False"

fun is_deletion :: "request \<Rightarrow> bool" where
  "is_deletion (ReqRemove a) = True"
| "is_deletion (ReqRmdir a) = True"
| "is_deletion _ = False"

fun is_move :: "request \<Rightarrow> bool" where
  "is_move (ReqRename a) = True"
| "is_move _ = False"

fun is_unstable :: "request \<Rightarrow> bool" where
  "is_unstable (ReqWrite a) = (wa_stable a = UNSTABLE)"
| "is_unstable _ = False"

fun is_commit :: "request \<Rightarrow> bool" where
  "is_commit (ReqCommit a) = True"
| "is_commit _ = False"

text \<open>Requests that leave the disk and the counter alone\<close>

fun is_quiet :: "request \<Rightarrow> bool" where
  "is_quiet (ReqSetattr a) = False"
| "is_quiet (ReqWrite a) = (wa_stable a = UNSTABLE)"
| "is_quiet (ReqCreate a) = False"
| "is_quiet (ReqRemove a) = False"
| "is_quiet (ReqRename a) = False"
| "is_quiet (ReqMkdir a) = False"
| "is_quiet (ReqRmdir a) = False"
| "is_quiet (ReqCommit a) = False"
| "is_quiet _ = True"

lemma sendM_apply:
  "sendM g m w = (case m w of (Ok x, w') \<Rightarrow> (Ok (g x), w') | (Err e, w') \<Rightarrow> (Err e, w')
     | (Panic p, w') \<Rightarrow> (Panic p, w') | (Crash, w') \<Rightarrow> (Crash, w') | (Hang, w') \<Rightarrow> (Hang, w'))"
  by (simp add: sendM_def bindM_apply retM_apply split: prod.split outcome.split)

lemma sendM_snd: "snd (sendM g m w) = snd (m w)"
  by (simp add: sendM_apply split: prod.split outcome.split)

lemma keeps_sendM [kp]: "keeps I (sendM g m) \<longleftrightarrow> keeps I m"
  by (simp add: keeps_def sendM_snd)

lemma survives_sendM:
  assumes "survives m Q C w" "\<And>x d c. Q x d c \<Longrightarrow> R (g x) d c"
  shows "survives (sendM g m) R C w"
  using assms unfolding survives_def wp_def sendM_apply by (auto split: prod.splits outcome.splits)

section \<open>What a request leaves alone under any faults\<close>

lemma serve_quiet:
  assumes "is_quiet r"
  shows "h_disk (snd (serve E r w)) = h_disk w" "w_counter (snd (serve E r w)) = w_counter w"
    "w_epoch (snd (serve E r w)) = w_epoch w"
proof -
  have "keeps (\<lambda>u. h_disk u = h_disk w \<and> w_counter u = w_counter w \<and> w_epoch u = w_epoch w) (serve E r)"
    using assms by (cases r) (auto simp: keeps_sendM intro: same_memory.kp_reading same_memory.kp_unstable)
  from keeps_snd [OF this] show "h_disk (snd (serve E r w)) = h_disk w" "w_counter (snd (serve E r w)) = w_counter w"
    "w_epoch (snd (serve E r w)) = w_epoch w" by simp_all
qed

lemma serve_epoch: "w_epoch (snd (serve E r w)) = w_epoch w"
proof -
  have "keeps (\<lambda>u. w_epoch u = w_epoch w) (serve E r)"
    by (cases r) (simp_all add: keeps_sendM fixed_epoch.kp_reading fixed_epoch.kp_data fixed_epoch.kp_changing
        fixed_epoch.kp_creating)
  from keeps_snd [OF this] show ?thesis by simp
qed

lemma serve_async_ok: "async_ok w \<Longrightarrow> async_ok (snd (serve E r w))"
proof -
  have "keeps async_ok (serve E r)"
    by (cases r) (simp_all add: keeps_sendM buffers.kp_reading buffers.kp_data buffers.kp_changing
        buffers.kp_creating)
  then show "async_ok w \<Longrightarrow> async_ok (snd (serve E r w))" by (rule keeps_snd)
qed

lemma serve_counter:
  assumes "\<not> is_creation r"
  shows "w_counter (snd (serve E r w)) = w_counter w"
proof -
  have "keeps (\<lambda>u. w_counter u = w_counter w \<and> w_epoch u = w_epoch w) (serve E r)"
    using assms by (cases r) (simp_all add: keeps_sendM fixed_counter.kp_reading fixed_counter.kp_data
        fixed_counter.kp_changing)
  from keeps_snd [OF this] show ?thesis by simp
qed

lemma serve_bufs:
  assumes "\<not> is_unstable r" "\<not> is_commit r"
  shows "pending (snd (serve E r w)) = pending w"
proof -
  have "keeps (\<lambda>u. w_async_bufs u = w_async_bufs w \<and> w_async_heap u = w_async_heap w) (serve E r)"
    using assms by (cases r) (simp_all add: keeps_sendM fixed_bufs.kp_reading fixed_bufs.kp_changing
        fixed_bufs.kp_creating fixed_bufs.kp_write_stable)
  from keeps_snd [OF this, of w]
  have "w_async_bufs (snd (serve E r w)) = w_async_bufs w" "w_async_heap (snd (serve E r w)) = w_async_heap w" by simp_all
  then show ?thesis by (simp add: pending_def fun_eq_iff split: option.split)
qed

end
