(* ===== verification/Promise.thy ===== *)
theory Promise
  imports Service
begin

text \<open>
  What the server promises its clients, with nothing of how it keeps the promise: a map from
  FIDs to files, the writes that are acknowledged but not yet committed, the epoch, and the
  numbers still to be given out. A request is carried out whole or not at all, except for a
  RENAME within a directory; a server that dies forgets its epoch and the pending writes.
\<close>

section \<open>The state\<close>

type_synonym files = "fid \<Rightarrow> nfs_file option"

record promise =
  pr_files :: files
  pr_pending :: "fid \<Rightarrow> pending_write list"
  pr_epoch :: "u64 option"
  pr_next :: nat

text \<open>The file \<open>f\<close> is in the directory \<open>dir\<close> under a name that \<open>nm\<close> matches as a pattern.\<close>

definition entry :: "files \<Rightarrow> fid \<Rightarrow> string \<Rightarrow> fid \<Rightarrow> nfs_file \<Rightarrow> bool" where
  "entry V dir nm f v \<longleftrightarrow> V f = Some v \<and> nf_parent v = show_u64 dir \<and> (\<exists>n\<in>nf_names v. dot_match nm n)"

section \<open>What the requests do\<close>

definition creates :: "body \<Rightarrow> zip_create_args \<Rightarrow> promise \<Rightarrow> files \<Rightarrow> bool" where
  "creates b a s V' \<longleftrightarrow> (\<exists>v f. pr_files s (da_dir (ca_where a)) = Some v \<and> nf_body v = DirBody
     \<and> (\<forall>g u. \<not> entry (pr_files s) (da_dir (ca_where a)) (da_filename (ca_where a)) g u)
     \<and> unat f = pr_next s
     \<and> V' = (pr_files s)(f \<mapsto> \<lparr>nf_parent = show_u64 (da_dir (ca_where a)),
                nf_names = {da_filename (ca_where a)}, nf_body = b\<rparr>))"

definition deletes_entry :: "zip_dir_op_args \<Rightarrow> promise \<Rightarrow> files \<Rightarrow> bool" where
  "deletes_entry a s V' \<longleftrightarrow> (\<exists>f v. entry (pr_files s) (da_dir a) (da_filename a) f v \<and> V' = (pr_files s)(f := None))"

definition overwrites :: "fid \<Rightarrow> (bytes \<Rightarrow> bytes) \<Rightarrow> promise \<Rightarrow> files \<Rightarrow> bool" where
  "overwrites f g s V' \<longleftrightarrow> (\<exists>v bs. pr_files s f = Some v \<and> nf_body v = FileBody bs
     \<and> V' = (pr_files s)(f \<mapsto> v\<lparr>nf_body := FileBody (g bs)\<rparr>))"

definition moves_entry :: "zip_rename_args \<Rightarrow> promise \<Rightarrow> files \<Rightarrow> bool" where
  "moves_entry a s V' \<longleftrightarrow> (\<exists>f v ns.
     entry (pr_files s) (da_dir (rn_old_loc a)) (da_filename (rn_old_loc a)) f v
     \<and> pr_files s (da_dir (rn_new_loc a)) \<noteq> None
     \<and> (\<forall>g u. \<not> entry (pr_files s) (da_dir (rn_new_loc a)) (da_filename (rn_new_loc a)) g u)
     \<and> (da_dir (rn_old_loc a) = da_dir (rn_new_loc a) \<longrightarrow> ns = nf_names v - {da_filename (rn_old_loc a)})
     \<and> V' = (pr_files s)(f \<mapsto> v\<lparr>nf_parent := show_u64 (da_dir (rn_new_loc a)),
                nf_names := insert (da_filename (rn_new_loc a)) ns\<rparr>))"

fun effect :: "request \<Rightarrow> promise \<Rightarrow> files \<Rightarrow> bool" where
  "effect (ReqSetattr a) s V' =
     (case sa_size (ss_attributes a) of
        None \<Rightarrow> pr_files s (ss_file a) \<noteq> None \<and> V' = pr_files s
      | Some n \<Rightarrow> overwrites (ss_file a) (resize_bytes (unat n)) s V')"
| "effect (ReqWrite a) s V' =
     (if wa_stable a = UNSTABLE then V' = pr_files s
      else overwrites (wa_file a) (write_at (unat (wa_offset a)) (wa_data a)) s V')"
| "effect (ReqCommit a) s V' =
     (if pr_pending s (cm_file a) = [] then V' = pr_files s
      else overwrites (cm_file a) (apply_writes (pr_pending s (cm_file a))) s V')"
| "effect (ReqCreate a) s V' = creates (initial_body True (sa_size (ca_attributes a))) a s V'"
| "effect (ReqMkdir a) s V' = creates (initial_body False (sa_size (ca_attributes a))) a s V'"
| "effect (ReqRemove a) s V' = deletes_entry a s V'"
| "effect (ReqRmdir a) s V' = deletes_entry a s V'"
| "effect (ReqRename a) s V' = moves_entry a s V'"
| "effect _ s V' = (V' = pr_files s)"

text \<open>
  What a request that is cut may leave, besides all and nothing: a RENAME the file under both
  names, a creation a file that has not got its size yet.
\<close>

fun half_effect :: "request \<Rightarrow> promise \<Rightarrow> files \<Rightarrow> bool" where
  "half_effect (ReqRename a) s V' \<longleftrightarrow> da_dir (rn_old_loc a) = da_dir (rn_new_loc a)
     \<and> (\<exists>f v. entry (pr_files s) (da_dir (rn_old_loc a)) (da_filename (rn_old_loc a)) f v
          \<and> V' = (pr_files s)(f \<mapsto> v\<lparr>nf_names := insert (da_filename (rn_new_loc a)) (nf_names v)\<rparr>))"
| "half_effect (ReqCreate a) s V' \<longleftrightarrow> creates (empty_body True) a s V'"
| "half_effect (ReqMkdir a) s V' \<longleftrightarrow> creates (empty_body False) a s V'"
| "half_effect _ s V' \<longleftrightarrow> False"

fun pending_after :: "request \<Rightarrow> promise \<Rightarrow> fid \<Rightarrow> pending_write list" where
  "pending_after (ReqWrite a) s =
     (if wa_stable a = UNSTABLE
      then (pr_pending s)(wa_file a := pr_pending s (wa_file a) @ [(wa_offset a, wa_count a, wa_data a)])
      else pr_pending s)"
| "pending_after (ReqCommit a) s = (pr_pending s)(cm_file a := [])"
| "pending_after _ s = pr_pending s"

text \<open>
  A creation replies with the number it gave the file, and uses it up; other requests use no
  number.
\<close>

definition numbered :: "request \<Rightarrow> promise \<Rightarrow> reply_value \<Rightarrow> promise \<Rightarrow> bool" where
  "numbered r s x s' \<longleftrightarrow> (if is_creation r
     then pr_next s' = Suc (pr_next s) \<and> (\<exists>res. x = RepEntry res \<and> unat (dr_file res) = pr_next s)
     else pr_next s' = pr_next s)"

text \<open>What the other replies say\<close>

fun tells :: "request \<Rightarrow> promise \<Rightarrow> reply_value \<Rightarrow> bool" where
  "tells ReqNull s x \<longleftrightarrow> (\<exists>e. x = RepEpoch e \<and> pr_epoch s = Some e)"
| "tells (ReqCommit a) s x \<longleftrightarrow> (\<exists>e. x = RepEpoch e \<and> pr_epoch s = Some e)"
| "tells (ReqWrite a) s x \<longleftrightarrow> (\<exists>y. x = RepWritten y \<and> pr_epoch s = Some (wr_verf y)
     \<and> wr_count y = wa_count a \<and> (wr_committed y = UNSTABLE \<longleftrightarrow> wa_stable a = UNSTABLE))"
| "tells (ReqLookup a) s x \<longleftrightarrow> (\<exists>y v. x = RepEntry y
     \<and> entry (pr_files s) (da_dir a) (da_filename a) (dr_file y) v)"
| "tells (ReqRead a) s x \<longleftrightarrow> (\<exists>y v bs. x = RepData y \<and> pr_files s (ra_file a) = Some v
     \<and> nf_body v = FileBody bs
     \<and> rr_data y = take (min (unat (ra_count a)) 4000) (drop (unat (ra_offset a)) bs))"
| "tells (ReqGetattr f) s x \<longleftrightarrow> (\<exists>y v. x = RepAttr y \<and> pr_files s f = Some v
     \<and> fa_type y = (case nf_body v of DirBody \<Rightarrow> NFDIR | FileBody bs \<Rightarrow> NFREG))"
| "tells (ReqReaddir a) s x \<longleftrightarrow> (\<exists>ys. x = RepEntries ys
     \<and> (\<forall>y\<in>set ys. entry_in (pr_files s) (rd_dir a) y))"
| "tells _ s x \<longleftrightarrow> True"

section \<open>The steps\<close>

datatype event =
    Replied request reply_value
  | Refused request thrift_error
  | Died request "reply_value option"
  | Killed
  | Booted u64
  | Ticked

inductive promise_step :: "promise \<Rightarrow> event \<Rightarrow> promise \<Rightarrow> bool" where
  replied: "promise_step s (Replied r x) s'"
    if "pr_epoch s \<noteq> None" "effect r s (pr_files s')" "tells r s x" "numbered r s x s'"
      "pr_pending s' = pending_after r s" "pr_epoch s' = pr_epoch s"
| refused: "promise_step s (Refused r e) s'"
    if "pr_epoch s \<noteq> None" "pr_files s' = pr_files s \<or> (is_deletion r \<and> effect r s (pr_files s'))"
      "pr_next s' = pr_next s" "pr_pending s' = pr_pending s" "pr_epoch s' = pr_epoch s"
| died_done: "promise_step s (Died r (Some x)) s'"
    if "pr_epoch s \<noteq> None" "effect r s (pr_files s')" "numbered r s x s'"
      "pr_pending s' = (\<lambda>_. [])" "pr_epoch s' = None"
| died: "promise_step s (Died r None) s'"
    if "pr_epoch s \<noteq> None" "pr_files s' = pr_files s \<or> effect r s (pr_files s') \<or> half_effect r s (pr_files s')"
      "pr_next s \<le> pr_next s'" "\<forall>f. pr_files s' f \<noteq> None \<longrightarrow> unat f < pr_next s'"
      "pr_pending s' = (\<lambda>_. [])" "pr_epoch s' = None"
| killed: "promise_step s Killed s'"
    if "pr_epoch s \<noteq> None" "s' = s\<lparr>pr_pending := (\<lambda>_. []), pr_epoch := None\<rparr>"
| booted: "promise_step s (Booted e) s'"
    if "pr_epoch s = None" "unat e = pr_next s" "s' = s\<lparr>pr_epoch := Some e, pr_next := Suc (pr_next s)\<rparr>"
| ticked: "promise_step s Ticked s"

inductive promise_run :: "promise \<Rightarrow> event list \<Rightarrow> promise \<Rightarrow> bool" where
  nil: "promise_run s [] s"
| cons: "promise_step s e s' \<Longrightarrow> promise_run s' es s'' \<Longrightarrow> promise_run s (e # es) s''"

inductive_cases promise_stepE: "promise_step s e s'"
inductive_cases promise_consE: "promise_run s (e # es) s''"
inductive_simps promise_nil_iff: "promise_run s [] s'"

section \<open>Numbers\<close>

text \<open>The numbers a step hands out: the epoch of a new server process, the FID of a new file\<close>

fun new_fid :: "request \<Rightarrow> reply_value \<Rightarrow> u64 list" where
  "new_fid r (RepEntry y) = (if is_creation r then [dr_file y] else [])"
| "new_fid r x = []"

fun handed_out :: "event \<Rightarrow> u64 list" where
  "handed_out (Replied r x) = new_fid r x"
| "handed_out (Died r (Some x)) = new_fid r x"
| "handed_out (Booted e) = [e]"
| "handed_out _ = []"

lemma numbered_new_fid:
  "numbered r s x s' \<Longrightarrow> pr_next s \<le> pr_next s'
     \<and> (new_fid r x = [] \<or> (\<exists>f. new_fid r x = [f] \<and> unat f = pr_next s \<and> pr_next s' = Suc (pr_next s)))"
  by (cases x) (auto simp: numbered_def split: if_splits)

lemma promise_step_next:
  "promise_step s e s' \<Longrightarrow> pr_next s \<le> pr_next s'
     \<and> (handed_out e = [] \<or> (\<exists>f. handed_out e = [f] \<and> unat f = pr_next s \<and> pr_next s' = Suc (pr_next s)))"
  by (erule promise_stepE) (use numbered_new_fid in auto)

lemma promise_run_numbers:
  "promise_run s es s' \<Longrightarrow> pr_next s \<le> pr_next s'
     \<and> sorted_wrt (<) (map unat (concat (map handed_out es)))
     \<and> (\<forall>f\<in>set (concat (map handed_out es)). pr_next s \<le> unat f)"
proof (induction rule: promise_run.induct)
  case (cons s e s' es s'')
  then show ?case using promise_step_next [OF cons.hyps(1)] by fastforce
qed simp

section \<open>Files that are left alone\<close>

fun request_of :: "event \<Rightarrow> request option" where
  "request_of (Replied r x) = Some r"
| "request_of (Refused r e) = Some r"
| "request_of (Died r x) = Some r"
| "request_of _ = None"

text \<open>Requests that may change the file \<open>f\<close>: any deletion or move, and what is sent for \<open>f\<close> itself\<close>

fun target :: "request \<Rightarrow> fid option" where
  "target (ReqSetattr a) = Some (ss_file a)"
| "target (ReqWrite a) = Some (wa_file a)"
| "target (ReqCommit a) = Some (cm_file a)"
| "target _ = None"

definition concerns :: "fid \<Rightarrow> event \<Rightarrow> bool" where
  "concerns f e = (case request_of e of None \<Rightarrow> False
     | Some r \<Rightarrow> is_deletion r \<or> is_move r \<or> target r = Some f)"

lemma effect_keeps:
  assumes "effect r s V'" "\<not> is_deletion r" "\<not> is_move r" "target r \<noteq> Some f" "unat f < pr_next s"
  shows "V' f = pr_files s f"
  using assms
  by (cases r) (auto simp: creates_def overwrites_def split: option.splits if_splits)

lemma half_effect_keeps:
  assumes "half_effect r s V'" "\<not> is_move r" "unat f < pr_next s"
  shows "V' f = pr_files s f"
  using assms by (cases r) (auto simp: creates_def)

lemma promise_step_keeps:
  assumes "promise_step s e s'" "\<not> concerns f e" "unat f < pr_next s"
  shows "pr_files s' f = pr_files s f"
  using assms(1)
  by (cases rule: promise_step.cases)
    (use assms(2,3) in \<open>auto simp: concerns_def dest: effect_keeps half_effect_keeps\<close>)

lemma promise_run_keeps:
  "promise_run s es s' \<Longrightarrow> list_all (\<lambda>e. \<not> concerns f e) es \<Longrightarrow> unat f < pr_next s \<Longrightarrow>
    pr_files s' f = pr_files s f"
proof (induction rule: promise_run.induct)
  case (cons s e s' es s'')
  then show ?case
    using promise_step_keeps [OF cons.hyps(1), of f] promise_step_next [OF cons.hyps(1)] by simp
qed simp

end
