(* ===== verification/Kept.thy ===== *)
theory Kept
  imports Promise
begin

text \<open>
  What a client sees of a server's state, and why the server keeps its promise under any
  schedule of faults: after a reply the effect of the request is on disk, and after a failure
  it is there or not, as a whole.
\<close>

section \<open>What a client sees of a server\<close>

definition promise_of :: "world \<Rightarrow> promise" where
  "promise_of w = \<lparr>pr_files = view (h_disk w), pr_pending = pending w, pr_epoch = Some (w_epoch w),
     pr_next = unat (ctr_disk (w_counter w))\<rparr>"

lemma promise_of_simps [simp]:
  "pr_files (promise_of w) = view (h_disk w)" "pr_pending (promise_of w) = pending w"
  "pr_epoch (promise_of w) = Some (w_epoch w)" "pr_next (promise_of w) = unat (ctr_disk (w_counter w))"
  by (simp_all add: promise_of_def)

lemma view_below:
  assumes "p \<noteq> []"
  shows "nf_parent (file_at d (p @ [c])) = last p" "nf_names (file_at d (p @ [c])) = names_at d p c"
  using assms by (simp_all add: file_at_def)

lemma durable_below:
  assumes "durable_ok d c" "view d f \<noteq> None"
  shows "unat f < unat (ctr_disk c)"
proof -
  have d: "wf_store d" "fids_below (unat (ctr_disk c)) d" using assms(1) by (simp_all add: durable_ok_def)
  obtain p where "fid_path d f = Some p" using assms(2) by (auto simp: view_def)
  then have vp: "vpath d p" "last p = show_u64 f" using fid_path_Some [OF d(1)] by auto
  have "exists_at d p" using vpath_exists [OF vp(1)] by (simp add: exists_at_def)
  then show ?thesis
    using d(2) vp vpath_under_root [OF vp(1)] entry_fid_show [of f] unfolding fids_below_iff by metis
qed

lemma found_entry:
  assumes wf: "wf_store d" and p: "fid_path d dir = Some p" and f: "find_name d p nm = Some f"
  shows "entry (view d) dir nm f (file_at d (p @ [show_u64 f]))"
    "view d f = Some (file_at d (p @ [show_u64 f]))"
proof -
  have vp: "vpath d p" "last p = show_u64 dir" "p \<noteq> []" using p fid_path_Some [OF wf] by auto
  have "vpath d (p @ [show_u64 f])"
    using vpath_snoc [OF vp(3)] vp(1) find_name_vchild [OF wf vp(1) f] by simp
  then have fp: "fid_path d f = Some (p @ [show_u64 f])" using fid_path_Some [OF wf] by simp
  then show v: "view d f = Some (file_at d (p @ [show_u64 f]))" by (simp add: view_def)
  obtain n where "named_in d p f n" "dot_match nm n"
    using find_name_SomeD [OF _ vpath_under_root [OF vp(1)] f] wf by (auto simp: wf_store_def)
  then have "n \<in> names_at d p (show_u64 f)" "dot_match nm n"
    by (auto simp: named_in_def in_names_at exists_at_def)
  then show "entry (view d) dir nm f (file_at d (p @ [show_u64 f]))"
    using v vp(2) view_below [OF vp(3)] by (auto simp: entry_def)
qed

lemma no_entry:
  assumes wf: "wf_store d" and p: "fid_path d dir = Some p" and f: "find_name d p nm = None"
  shows "\<not> entry (view d) dir nm g u"
proof
  assume "entry (view d) dir nm g u"
  then obtain n where g: "view d g = Some u" "nf_parent u = show_u64 dir" "n \<in> nf_names u" "dot_match nm n"
    by (auto simp: entry_def)
  then obtain q where q: "fid_path d g = Some q" "u = file_at d q" by (auto simp: view_def)
  have vq: "vpath d q" "last q = show_u64 g" using q(1) fid_path_Some [OF wf] by auto
  have vp: "vpath d p" "last p = show_u64 dir" "p \<noteq> []" using p fid_path_Some [OF wf] by auto
  have b: "butlast q \<noteq> []" using g(3) q(2) by (auto simp: file_at_def split: if_splits)
  then have qs: "q = butlast q @ [show_u64 g]" using vq by (metis append_butlast_last_id butlast.simps(1))
  have par: "last (butlast q) = show_u64 dir" using g(2) q(2) b by (simp add: file_at_def)
  have vb: "vpath d (butlast q)" using vq(1) vpath_snoc [OF b] qs by metis
  have "butlast q = p"
    using fid_path_Some [OF wf, of dir "butlast q"] vb par p by simp
  then have "named_in d p g n"
    using g(3) q(2) b vq(2) vpath_exists [OF vq(1)] qs
    by (auto simp: named_in_def exists_at_def file_at_def in_names_at)
  then show False
    using find_name_None [where fname = nm, OF _ vpath_under_root [OF vp(1)]] wf f g(4) by (auto simp: wf_store_def)
qed

section \<open>What the requests guarantee, in these terms\<close>

lemma create_effect:
  assumes wf: "wf_store (h_disk w)" and plain: "plain_name (da_filename (ca_where a))"
    and c: "create_sees w a b d'"
  shows "creates b a (promise_of w) (view d')"
proof -
  obtain dp where h: "fid_path (h_disk w) (da_dir (ca_where a)) = Some dp" "is_dir_at (h_disk w) dp"
      "find_name (h_disk w) dp (da_filename (ca_where a)) = None"
      "view d' = (view (h_disk w))(ctr_disk (w_counter w) \<mapsto> new_file dp (da_filename (ca_where a)) b)"
    using c plain by (auto simp: create_sees_def)
  have par: "last dp = show_u64 (da_dir (ca_where a))" using h(1) fid_path_Some [OF wf] by simp
  obtain st where "map_of (h_disk w) dp = Some (DirObj st)" using h(2) by (auto simp: is_dir_at_iff)
  then have dir: "view (h_disk w) (da_dir (ca_where a)) = Some (file_at (h_disk w) dp)"
      "nf_body (file_at (h_disk w) dp) = DirBody"
    using h(1) by (simp_all add: view_def file_at_def)
  show ?thesis
    unfolding creates_def promise_of_simps
    by (rule exI [of _ "file_at (h_disk w) dp"], rule exI [of _ "ctr_disk (w_counter w)"])
      (use dir h(4) par no_entry [OF wf h(1,3)] in \<open>simp add: new_file_def\<close>)
qed

lemma remove_effect:
  assumes "wf_store (h_disk w)" "remove_sees (h_disk w) a d'"
  shows "deletes_entry a (promise_of w) (view d')"
  using assms(2) found_entry(1) [OF assms(1)] unfolding remove_sees_def deletes_entry_def promise_of_simps by blast

lemma content_body:
  "fid_path d f = Some p \<Longrightarrow> map_of d p = Some (RegFile st bs) \<Longrightarrow>
    view d f = Some (file_at d p) \<and> nf_body (file_at d p) = FileBody bs"
  by (simp add: view_def file_at_def)

lemma write_effect:
  assumes "write_done (h_disk w) f g d'"
  shows "overwrites f g (promise_of w) (view d')"
proof -
  obtain p st bs where h: "fid_path (h_disk w) f = Some p" "map_of (h_disk w) p = Some (RegFile st bs)"
      "view d' = (view (h_disk w))(f \<mapsto> (file_at (h_disk w) p)\<lparr>nf_body := FileBody (g bs)\<rparr>)"
    using assms by (auto simp: write_done_def)
  show ?thesis using content_body [OF h(1,2)] h(3) unfolding overwrites_def promise_of_simps by blast
qed

lemma commit_effect: "commit_done w (cm_file a) d' \<Longrightarrow> effect (ReqCommit a) (promise_of w) (view d')"
  by (auto simp: commit_done_def intro: write_effect split: if_splits)

lemma setattr_effect:
  assumes "setattr_done (h_disk w) a d'"
  shows "effect (ReqSetattr a) (promise_of w) (view d')"
proof -
  obtain p where p: "fid_path (h_disk w) (ss_file a) = Some p"
    "case sa_size (ss_attributes a) of None \<Rightarrow> view d' = view (h_disk w)
        | Some n \<Rightarrow> \<exists>st bs. map_of (h_disk w) p = Some (RegFile st bs)
            \<and> view d' = (view (h_disk w))(ss_file a \<mapsto> (file_at (h_disk w) p)\<lparr>nf_body := FileBody (resize_bytes (unat n) bs)\<rparr>)"
    using assms by (auto simp: setattr_done_def)
  show ?thesis
  proof (cases "sa_size (ss_attributes a)")
    case None
    then show ?thesis using p by (simp add: view_def)
  next
    case (Some n)
    then have "write_done (h_disk w) (ss_file a) (resize_bytes (unat n)) d'"
      using p by (auto simp: write_done_def)
    then show ?thesis using Some by (simp add: write_effect)
  qed
qed

lemma rename_effect:
  assumes wf: "wf_store (h_disk w)" and r: "rename_sees (h_disk w) a P"
  obtains od nd f where "P od nd f"
    "\<And>d'. view d' = rename_done (h_disk w) od nd f (da_filename (rn_old_loc a)) (da_filename (rn_new_loc a))
        \<Longrightarrow> moves_entry a (promise_of w) (view d')"
    "\<And>d'. od = nd \<Longrightarrow> view d' = rename_mid (h_disk w) od f (da_filename (rn_new_loc a))
        \<Longrightarrow> half_effect (ReqRename a) (promise_of w) (view d')"
proof -
  let ?d = "h_disk w" and ?old = "da_filename (rn_old_loc a)" and ?new = "da_filename (rn_new_loc a)"
  obtain od nd f where h: "fid_path ?d (da_dir (rn_old_loc a)) = Some od"
      "fid_path ?d (da_dir (rn_new_loc a)) = Some nd" "find_name ?d od ?old = Some f"
      "find_name ?d nd ?new = None" "P od nd f"
    using r by (auto simp: rename_sees_def)
  let ?v = "file_at ?d (od @ [show_u64 f])"
  have o: "od \<noteq> []" "last od = show_u64 (da_dir (rn_old_loc a))" "last nd = show_u64 (da_dir (rn_new_loc a))"
    using h(1,2) fid_path_Some [OF wf] by auto
  note e = found_entry [OF wf h(1,3)]
  note v = view_below [OF o(1), of ?d "show_u64 f"]
  have same: "od = nd \<longleftrightarrow> da_dir (rn_old_loc a) = da_dir (rn_new_loc a)"
    using h(1,2) o(2,3) by auto
  have ex: "view ?d (da_dir (rn_new_loc a)) \<noteq> None" using h(2) by (simp add: view_def)
  show thesis
  proof (rule that [OF h(5)])
    fix d' assume d': "view d' = rename_done ?d od nd f ?old ?new"
    define ns where "ns = (if od = nd then nf_names ?v - {?old} else names_at ?d nd (show_u64 f))"
    have "view d' = (view ?d)(f \<mapsto> ?v\<lparr>nf_parent := show_u64 (da_dir (rn_new_loc a)), nf_names := insert ?new ns\<rparr>)"
      using d' v o by (auto simp: rename_done_def ns_def fun_eq_iff)
    moreover have "da_dir (rn_old_loc a) = da_dir (rn_new_loc a) \<longrightarrow> ns = nf_names ?v - {?old}"
      using same by (simp add: ns_def)
    ultimately show "moves_entry a (promise_of w) (view d')"
      using e(1) ex no_entry [OF wf h(2,4)] unfolding moves_entry_def promise_of_simps by blast
  next
    fix d' assume "od = nd" "view d' = rename_mid ?d od f ?new"
    then show "half_effect (ReqRename a) (promise_of w) (view d')"
      using e(1) v same unfolding half_effect.simps promise_of_simps rename_mid_def by metis
  qed
qed

text \<open>Requests whose names are free of the special characters of regular expressions, except dots\<close>

fun polite :: "request \<Rightarrow> bool" where
  "polite (ReqLookup a) = plain_name (da_filename a)"
| "polite (ReqCreate a) = plain_name (da_filename (ca_where a))"
| "polite (ReqMkdir a) = plain_name (da_filename (ca_where a))"
| "polite (ReqRemove a) = plain_name (da_filename a)"
| "polite (ReqRmdir a) = plain_name (da_filename a)"
| "polite (ReqRename a) = (plain_name (da_filename (rn_old_loc a)) \<and> plain_name (da_filename (rn_new_loc a)))"
| "polite _ = True"

lemma survives_bindM:
  assumes "survives m Q C w" "\<And>x d c. Q x d c \<Longrightarrow> chl d c (f x) R C"
  shows "survives (bindM m f) R C w"
proof -
  obtain r w1 where m: "m w = (r, w1)" by (cases "m w")
  have r: "case r of Ok x \<Rightarrow> Q x (h_disk w1) (w_counter w1) | Hang \<Rightarrow> False | _ \<Rightarrow> C (h_disk w1) (w_counter w1)"
    using assms(1) m by (simp add: survives_def wp_def)
  show ?thesis
  proof (cases r)
    case (Ok x)
    then have "chl (h_disk w1) (w_counter w1) (f x) R C" using r assms(2) by simp
    then show ?thesis using Ok m by (simp add: chl_def survives_def wp_def bindM_apply)
  qed (use r m in \<open>auto simp: survives_def wp_def bindM_apply\<close>)
qed

lemma write_survives:
  assumes ok: "regex_documented E" "server_ok w" and st: "wa_stable a \<noteq> UNSTABLE"
  defines "done \<equiv> write_done (h_disk w) (wa_file a) (write_at (unat (wa_offset a)) (wa_data a))"
  shows "survives (handle_write E a) (\<lambda>_ d' c'. durable_ok d' c' \<and> done d')
    (\<lambda>d' c'. durable_ok d' c' \<and> (view d' = view (h_disk w) \<or> done d')) w"
proof -
  have h: "handle_write E a = bindM (fs_stable_write E (wa_file a) (wa_offset a) (wa_count a) (wa_data a)) (\<lambda>bytes.
      thenM (assertM (unat bytes = length (wa_data a)) ''assertion failed'') (
      bindM (getsM w_epoch) (\<lambda>epoch. retM \<lparr>wr_count = bytes, wr_committed = FILE_SYNC, wr_verf = epoch\<rparr>)))"
    using st by (cases "wa_stable a") (simp_all add: handle_write_def)
  show ?thesis
    unfolding h
  proof (rule survives_bindM [OF survives_mono [OF stable_write_survives [OF ok]]])
    show "durable_ok d c \<and> done d \<Longrightarrow> chl d c (thenM (assertM (unat n = length (wa_data a)) ''assertion failed'') (
      bindM (getsM w_epoch) (\<lambda>epoch. retM \<lparr>wr_count = n, wr_committed = FILE_SYNC, wr_verf = epoch\<rparr>)))
      (\<lambda>_ d' c'. durable_ok d' c' \<and> done d') (\<lambda>d' c'. durable_ok d' c' \<and> (view d' = view (h_disk w) \<or> done d'))" for n d c
      by (intro chl_still_then chl_still_bind still_rules chl_basic) simp_all
  qed (auto simp: done_def)
qed

text \<open>What the disk and the counter are after a reply, and after a failure\<close>

definition settles :: "request \<Rightarrow> promise \<Rightarrow> reply_value \<Rightarrow> disk \<Rightarrow> apu \<Rightarrow> bool" where
  "settles r s x d c \<longleftrightarrow> durable_ok d c \<and> effect r s (view d)
     \<and> (is_creation r \<longrightarrow> unat (ctr_disk c) = Suc (pr_next s) \<and> (\<exists>res. x = RepEntry res \<and> unat (dr_file res) = pr_next s))"

definition breaks_off :: "request \<Rightarrow> promise \<Rightarrow> disk \<Rightarrow> apu \<Rightarrow> bool" where
  "breaks_off r s d c \<longleftrightarrow> durable_ok d c \<and> (view d = pr_files s \<or> effect r s (view d) \<or> half_effect r s (view d))
     \<and> (is_creation r \<longrightarrow> pr_next s \<le> unat (ctr_disk c))"

lemma settle_rule:
  assumes "survives m Q C w" "\<And>x d c. Q x d c \<Longrightarrow> settles r s (g x) d c" "\<And>d c. C d c \<Longrightarrow> breaks_off r s d c"
  shows "survives (sendM g m) (settles r s) (breaks_off r s) w"
  by (rule survives_sendM [OF survives_mono [OF assms(1), of Q]]) (use assms(2,3) in auto)

lemma serve_survives:
  assumes E: "regex_documented E" and w: "server_ok w" and r: "polite r" "\<not> is_quiet r"
  shows "survives (serve E r) (settles r (promise_of w)) (breaks_off r (promise_of w)) w"
proof -
  have wf: "wf_store (h_disk w)" using w by (simp add: server_ok_def)
  note defs = settles_def breaks_off_def
  have cr: "survives (sendM RepEntry (create_object E a b)) (settles q (promise_of w)) (breaks_off q (promise_of w)) w"
    if "q = (if b then ReqCreate a else ReqMkdir a)" "plain_name (da_filename (ca_where a))" for q a b
    by (rule settle_rule [OF create_survives_counter [OF E w]])
      (use that create_effect [OF wf that(2)] in \<open>auto simp: defs\<close>)
  show ?thesis
  proof (cases r)
    case (ReqSetattr a)
    show ?thesis unfolding ReqSetattr serve.simps
      by (rule settle_rule [OF setattr_survives [OF E w]])
        (auto simp: defs simp del: effect.simps dest: setattr_effect)
  next
    case (ReqWrite a)
    then have "wa_stable a \<noteq> UNSTABLE" using r(2) by simp
    then show ?thesis unfolding ReqWrite serve.simps
      by (intro settle_rule [OF write_survives [OF E w]]) (auto simp: defs dest: write_effect)
  next
    case (ReqCreate a)
    then show ?thesis using cr [of r True a] r by (simp add: handle_create_def)
  next
    case (ReqMkdir a)
    then show ?thesis using cr [of r False a] r by (simp add: handle_mkdir_def)
  next
    case (ReqRemove a)
    then have p: "plain_name (da_filename a)" using r by simp
    show ?thesis unfolding ReqRemove serve.simps
      by (rule settle_rule [OF remove_survives(1) [OF E w p]]) (auto simp: defs dest: remove_effect [OF wf])
  next
    case (ReqRmdir a)
    then have p: "plain_name (da_filename a)" using r by simp
    show ?thesis unfolding ReqRmdir serve.simps
      by (rule settle_rule [OF remove_survives(2) [OF E w p]]) (auto simp: defs dest: remove_effect [OF wf])
  next
    case (ReqCommit a)
    show ?thesis unfolding ReqCommit serve.simps
      by (rule settle_rule [OF commit_survives [OF E w]])
        (auto simp: defs simp del: effect.simps dest: commit_effect)
  next
    case (ReqRename a)
    let ?old = "da_filename (rn_old_loc a)" and ?new = "da_filename (rn_new_loc a)"
    have p: "plain_name ?old" "plain_name ?new" using r ReqRename by simp_all
    have full: "effect r (promise_of w) (view d')"
      if "rename_sees (h_disk w) a (\<lambda>od nd f. view d' = rename_done (h_disk w) od nd f ?old ?new)" for d'
      by (rule rename_effect [OF wf that]) (simp add: ReqRename)
    have half: "view d' = view (h_disk w) \<or> effect r (promise_of w) (view d') \<or> half_effect r (promise_of w) (view d')"
      if "rename_sees (h_disk w) a (\<lambda>od nd f. rename_states (h_disk w) od nd f ?old ?new d')" for d'
      by (rule rename_effect [OF wf that]) (auto simp: ReqRename rename_states_def simp del: half_effect.simps)
    show ?thesis unfolding ReqRename serve.simps
      by (rule settle_rule [OF rename_survives [OF E w p]])
        (use full half ReqRename in \<open>auto simp: defs simp del: effect.simps half_effect.simps\<close>)
  qed (use r in simp_all)
qed

end
