(* ===== verification/Answers.thy ===== *)
theory Answers
  imports Kept
begin

text \<open>
  What the server does with a request when nothing fails: it answers, its reply tells the
  truth about the state a client sees, and it is ready for the next request.
\<close>

section \<open>Requests the server can carry out\<close>

text \<open>
  The host takes the names and sizes, the temporary file of a write is free, and the
  attributes that have to be reported can be: the conditions under which no \<^verbatim>\<open>unwrap\<close> of the code
  panics.
\<close>

definition write_fine :: "env \<Rightarrow> disk \<Rightarrow> fid \<Rightarrow> string \<Rightarrow> bool" where
  "write_fine E d f tmp_text =
     (case fid_path d f of
        None \<Rightarrow> True
      | Some p \<Rightarrow> (case map_of d p of Some (RegFile st bs) \<Rightarrow> tmp_ok E d tmp_text | _ \<Rightarrow> False))"

definition setattr_fine :: "env \<Rightarrow> disk \<Rightarrow> tspec \<Rightarrow> zip_sattr_args \<Rightarrow> bool" where
  "setattr_fine E d now a =
     (case fid_path d (ss_file a) of
        None \<Rightarrow> True
      | Some p \<Rightarrow> (sa_size (ss_attributes a) \<noteq> None \<and> is_dir_at d p)
          \<or> (case map_of d p of None \<Rightarrow> False | Some ob \<Rightarrow> change_ok E d p now (ss_attributes a) ob))"

definition create_fine :: "env \<Rightarrow> world \<Rightarrow> bool \<Rightarrow> zip_create_args \<Rightarrow> bool" where
  "create_fine E w is_file a \<longleftrightarrow> unat (ctr_disk (w_counter w)) < 2 ^ 64 - 2
     \<and> (create_error w a = None \<longrightarrow> name_fits (ctr_disk (w_counter w)) (da_filename (ca_where a))
          \<and> create_attrs_ok E (h_clock w) is_file (ca_attributes a))"

definition is_dir_fid :: "disk \<Rightarrow> fid \<Rightarrow> bool" where
  "is_dir_fid d f = (case fid_path d f of None \<Rightarrow> True | Some p \<Rightarrow> is_dir_at d p)"

definition rename_fine :: "world \<Rightarrow> zip_rename_args \<Rightarrow> bool" where
  "rename_fine w a \<longleftrightarrow> is_dir_fid (h_disk w) (da_dir (rn_old_loc a)) \<and> is_dir_fid (h_disk w) (da_dir (rn_new_loc a))
     \<and> (case (fid_path (h_disk w) (da_dir (rn_old_loc a)), fid_path (h_disk w) (da_dir (rn_new_loc a))) of
          (Some od, Some nd) \<Rightarrow>
            (case find_name (h_disk w) od (da_filename (rn_old_loc a)) of
               Some f \<Rightarrow> rename_error w a = None \<longrightarrow>
                 can_move (h_disk w) od nd f (da_filename (rn_old_loc a)) (da_filename (rn_new_loc a))
             | None \<Rightarrow> True)
        | _ \<Rightarrow> True)"

fun sane :: "env \<Rightarrow> world \<Rightarrow> request \<Rightarrow> bool" where
  "sane E w (ReqGetattr f) = attrs_fine E (h_disk w)"
| "sane E w (ReqSetattr a) = setattr_fine E (h_disk w) (h_clock w) a"
| "sane E w (ReqLookup a) = attrs_fine E (h_disk w)"
| "sane E w (ReqRead a) = (attrs_fine E (h_disk w) \<and> unat (ra_offset a) < 2 ^ 63)"
| "sane E w (ReqWrite a) = (length (wa_data a) = unat (wa_count a)
     \<and> (wa_stable a = UNSTABLE
        \<or> (write_fine E (h_disk w) (wa_file a) (show_u64 (wa_file a)) \<and> unat (wa_offset a) < 2 ^ 63)))"
| "sane E w (ReqCommit a) = (write_fine E (h_disk w) (cm_file a) (show_i64 (cm_file a))
     \<and> writes_ok (pending w (cm_file a)))"
| "sane E w (ReqCreate a) = create_fine E w True a"
| "sane E w (ReqMkdir a) = create_fine E w False a"
| "sane E w (ReqRename a) = rename_fine w a"
| "sane E w r = True"

text \<open>What is to be shown of an answer, beyond what holds under all faults\<close>

definition answers_well :: "request \<Rightarrow> world \<Rightarrow> (thrift_error, reply_value) outcome \<times> world \<Rightarrow> bool" where
  "answers_well r w z \<longleftrightarrow> ready (snd z) \<and>
     (case fst z of
        Ok x \<Rightarrow> tells r (promise_of w) x
          \<and> (is_unstable r \<or> is_commit r \<longrightarrow> pending (snd z) = pending_after r (promise_of w))
      | Err e \<Rightarrow> (view (h_disk (snd z)) = view (h_disk w) \<or> (is_deletion r \<and> effect r (promise_of w) (view (h_disk (snd z)))))
          \<and> (is_commit r \<or> is_unstable r \<longrightarrow> pending (snd z) = pending w)
          \<and> (is_creation r \<longrightarrow> w_counter (snd z) = w_counter w)
      | _ \<Rightarrow> False)"

lemma answers_Ok: "m w = (Ok x, w') \<Longrightarrow> ready w' \<Longrightarrow> tells r (promise_of w) (g x) \<Longrightarrow>
    (is_unstable r \<or> is_commit r \<Longrightarrow> pending w' = pending_after r (promise_of w)) \<Longrightarrow> answers_well r w (sendM g m w)"
  by (simp add: answers_well_def sendM_apply)

lemma answers_Err: "m w = (Err e, w') \<Longrightarrow> ready w' \<Longrightarrow>
    view (h_disk w') = view (h_disk w) \<or> (is_deletion r \<and> effect r (promise_of w) (view (h_disk w'))) \<Longrightarrow>
    (is_commit r \<or> is_unstable r \<Longrightarrow> pending w' = pending w) \<Longrightarrow>
    (is_creation r \<Longrightarrow> w_counter w' = w_counter w) \<Longrightarrow> answers_well r w (sendM g m w)"
  by (simp add: answers_well_def sendM_apply)

text \<open>Requests that look: the reply is computed from the store, and only the cache changes\<close>

lemma answers_run:
  assumes "\<exists>c. m w = (run res, w\<lparr>w_fid_cache := c\<rparr>) \<and> ready (w\<lparr>w_fid_cache := c\<rparr>)"
    and "\<And>x. res = Inr x \<Longrightarrow> tells r (promise_of w) (g x)" and "\<not> is_unstable r" "\<not> is_commit r"
  shows "answers_well r w (sendM g m w)"
proof -
  obtain c where c: "m w = (run res, w\<lparr>w_fid_cache := c\<rparr>)" "ready (w\<lparr>w_fid_cache := c\<rparr>)"
    using assms(1) by blast
  show ?thesis
    using c assms(2-4) by (cases res) (auto simp: run_def intro: answers_Ok answers_Err)
qed

lemma pending_cache [simp]: "pending (w\<lparr>w_fid_cache := c\<rparr>) = pending w"
  by (simp add: pending_def fun_eq_iff split: option.split)

lemma answers_refused:
  assumes "\<exists>c. m w = (Err e, w\<lparr>w_fid_cache := c\<rparr>) \<and> ready (w\<lparr>w_fid_cache := c\<rparr>)"
  shows "answers_well r w (sendM g m w)"
  using assms by (auto intro!: answers_Err)

lemma stale_calm:
  assumes "regex_documented E" "ready w" "fid_path (h_disk w) f = None"
  shows "\<exists>c. bindM (strM (fs_find_by_fid E f)) (\<lambda>p. case p of None \<Rightarrow> nfsM NFSERR_STALE | Some p \<Rightarrow> k p) w
    = (Err (nfs_error NFSERR_STALE), w\<lparr>w_fid_cache := c\<rparr>) \<and> ready (w\<lparr>w_fid_cache := c\<rparr>)"
proof -
  let ?k = "\<lambda>p. case p of None \<Rightarrow> nfsM NFSERR_STALE | Some p \<Rightarrow> k p"
  obtain c where "ready (w\<lparr>w_fid_cache := c\<rparr>)"
      "bindM (strM (fs_find_by_fid E f)) ?k w = ?k (fid_path (h_disk w) f) (w\<lparr>w_fid_cache := c\<rparr>)"
    by (rule resolve_calm [OF assms(1,2)])
  then show ?thesis using assms(3) by (auto simp: nfsM_apply)
qed

section \<open>Every request\<close>

lemma looks_answered:
  assumes E: "regex_documented E" and w: "ready w" and p: "polite r" and s: "sane E w r"
    and r: "is_quiet r" "\<not> is_unstable r"
  shows "answers_well r w (serve E r w)"
proof -
  note wf = readyD(5) [OF w]
  show ?thesis
  proof (cases r)
    case ReqNull
    have n: "handle_null w = (Ok (w_epoch w), w)" by (simp add: handle_null_def getsM_apply)
    show ?thesis unfolding ReqNull serve.simps
      by (rule answers_Ok [where m = handle_null, OF n w]) simp_all
  next
    case (ReqStatfs f)
    show ?thesis unfolding ReqStatfs serve.simps handle_statfs_def
      by (simp add: answers_well_def sendM_apply retM_apply w)
  next
    case (ReqGetattr f)
    have fine: "attrs_fine E (h_disk w)" using s ReqGetattr by simp
    show ?thesis unfolding ReqGetattr serve.simps
    proof (rule answers_run [where m = "handle_getattr E f", OF getattr_calm [OF E w fine]])
      fix x assume x: "getattr_result E (h_disk w) f = Inr x"
      then obtain q where q: "fid_path (h_disk w) f = Some q" "x = attrs_at E (h_disk w) q f"
        by (auto simp: getattr_result_def split: option.splits)
      then obtain ob where "map_of (h_disk w) q = Some ob"
        using fid_path_Some [OF wf] vpath_exists by blast
      then show "tells (ReqGetattr f) (promise_of w) (RepAttr x)"
        using q by (cases ob) (simp_all add: view_def file_at_def attrs_at_def attr_of_def)
    qed simp_all
  next
    case (ReqLookup a)
    have fine: "attrs_fine E (h_disk w)" "plain_name (da_filename a)" using s p ReqLookup by simp_all
    show ?thesis unfolding ReqLookup serve.simps
    proof (rule answers_run [where m = "handle_lookup E a", OF lookup_calm [OF E w fine]])
      fix x assume x: "lookup_result E (h_disk w) a = Inr x"
      then obtain dp f where e: "entry_of (h_disk w) (da_dir a) (da_filename a) = Inr (dp, f)" "dr_file x = f"
        by (auto simp: lookup_result_def split: sum.splits)
      show "tells (ReqLookup a) (promise_of w) (RepEntry x)"
        using found_entry(1) [OF wf entry_ofD(1,4) [OF wf e(1)]] e(2) by auto
    qed simp_all
  next
    case (ReqRead a)
    have fine: "attrs_fine E (h_disk w)" "unat (ra_offset a) < 2 ^ 63" using s ReqRead by simp_all
    show ?thesis unfolding ReqRead serve.simps
      by (rule answers_run [where m = "handle_read E a", OF read_calm [OF E w fine]])
        (auto simp: read_result_def content_body split: option.splits obj.splits)
  next
    case (ReqReaddir a)
    show ?thesis unfolding ReqReaddir serve.simps
    proof (rule answers_run [where m = "handle_readdir E a", OF readdir_calm [OF E w]])
      fix x assume "readdir_result E (h_disk w) a = Inr x"
      then obtain q where "fid_path (h_disk w) (rd_dir a) = Some q" "set x \<subseteq> set (listing (h_disk w) q)"
        by (auto simp: readdir_result_def split: option.splits if_splits dest!: in_set_takeD in_set_dropD)
      then show "tells (ReqReaddir a) (promise_of w) (RepEntries x)"
        using in_listing [OF wf] by auto
    qed simp_all
  qed (use r in simp_all)
qed

lemma setattr_answered:
  assumes E: "regex_documented E" and w: "ready w" and s: "sane E w (ReqSetattr a)"
  shows "answers_well (ReqSetattr a) w (serve E (ReqSetattr a) w)"
proof (cases "fid_path (h_disk w) (ss_file a)")
  case None
  have h: "handle_setattr E a = bindM (strM (fs_find_by_fid E (ss_file a)))
      (\<lambda>p. case p of None \<Rightarrow> nfsM NFSERR_STALE | Some p \<Rightarrow> thenM (fs_set_attr E p (sa_atime (ss_attributes a))
      (sa_mtime (ss_attributes a)) (sa_size (ss_attributes a))) (fs_get_attr E p (ss_file a)))"
    by (simp add: handle_setattr_def)
  show ?thesis unfolding serve.simps h by (rule answers_refused, rule stale_calm [OF E w None])
next
  case (Some q)
  show ?thesis
  proof (cases "sa_size (ss_attributes a) \<noteq> None \<and> is_dir_at (h_disk w) q")
    case True
    then obtain n where n: "sa_size (ss_attributes a) = Some n" by auto
    let ?k = "\<lambda>p. case p of Some p \<Rightarrow> thenM (fs_set_attr E p (sa_atime (ss_attributes a))
      (sa_mtime (ss_attributes a)) (sa_size (ss_attributes a))) (fs_get_attr E p (ss_file a)) | None \<Rightarrow> nfsM NFSERR_STALE"
    obtain c where c: "ready (w\<lparr>w_fid_cache := c\<rparr>)"
      "bindM (strM (fs_find_by_fid E (ss_file a))) ?k w = ?k (fid_path (h_disk w) (ss_file a)) (w\<lparr>w_fid_cache := c\<rparr>)"
      by (rule resolve_calm [OF E w])
    have "handle_setattr E a w = (Err (nfs_error NFSERR_ISDIR), w\<lparr>w_fid_cache := c\<rparr>)"
      using c(2) Some n set_attr_dir_size [of "w\<lparr>w_fid_cache := c\<rparr>" q] True readyD(2) [OF w]
      by (simp add: handle_setattr_def thenM_apply)
    then show ?thesis unfolding serve.simps using c(1) by (intro answers_refused) blast
  next
    case False
    then obtain ob where ob: "map_of (h_disk w) q = Some ob" "change_ok E (h_disk w) q (h_clock w) (ss_attributes a) ob"
      using s Some by (auto simp: setattr_fine_def split: option.splits)
    obtain x w' where "handle_setattr E a w = (Ok x, w')" "ready w'"
      using setattr_calm [OF E w Some ob] by blast
    then show ?thesis unfolding serve.simps by (rule answers_Ok) simp_all
  qed
qed

lemma write_fineD:
  assumes "write_fine E d f t" "fid_path d f = Some p"
  obtains bs where "write_target d f p bs" "tmp_ok E d t"
  using assms by (auto simp: write_fine_def write_target_def content_at_def split: option.splits obj.splits)

lemma write_answered:
  assumes E: "regex_documented E" and w: "ready w" "async_ok w" and s: "sane E w (ReqWrite a)"
  shows "answers_well (ReqWrite a) w (serve E (ReqWrite a) w)"
proof (cases "wa_stable a = UNSTABLE")
  case True
  then obtain x w' where x: "handle_write E a w = (Ok x, w')"
      "w' = w\<lparr>w_async_bufs := w_async_bufs w', w_async_heap := w_async_heap w', w_async_next := w_async_next w'\<rparr>"
      "x = \<lparr>wr_count = wa_count a, wr_committed = UNSTABLE, wr_verf = w_epoch w\<rparr>"
      "pending w' = (pending w)(wa_file a := pending w (wa_file a) @ [(wa_offset a, wa_count a, wa_data a)])"
    using write_unstable_calm [OF True w(2), of E] s by auto
  have "ready (w\<lparr>w_async_bufs := b, w_async_heap := h, w_async_next := n\<rparr>)" for b h n
    using w(1) by (simp add: ready_def server_ok_def)
  then have "ready w'" using x(2) by metis
  then show ?thesis unfolding serve.simps using x True by (intro answers_Ok) auto
next
  case False
  show ?thesis
  proof (cases "fid_path (h_disk w) (wa_file a)")
    case None
    let ?k = "\<lambda>p. let tmp_fpath = tmp_path E (show_u64 (wa_file a)) in
         thenM (ioM (copy_sys p tmp_fpath)) (thenM (ioM (open_write_sys tmp_fpath)) (thenM (ioM sync_sys) (
         thenM (ioM (seek_sys (wa_offset a))) (thenM (assertM (length (wa_data a) = unat (wa_count a)) ''assertion failed: buf.len() == count'') (
         thenM (ioM (write_all_sys tmp_fpath (wa_offset a) (wa_data a))) (thenM (ioM sync_sys) (
         thenM (ioM (rename_sys tmp_fpath p)) (retM (of_nat (length (wa_data a)))))))))))"
    obtain c where "fs_stable_write E (wa_file a) (wa_offset a) (wa_count a) (wa_data a) w
        = (Err (nfs_error NFSERR_STALE), w\<lparr>w_fid_cache := c\<rparr>)" "ready (w\<lparr>w_fid_cache := c\<rparr>)"
      using stale_calm [where k = ?k, OF E w(1) None] unfolding fs_stable_write_def by blast
    then have "handle_write E a w = (Err (nfs_error NFSERR_STALE), w\<lparr>w_fid_cache := c\<rparr>) \<and> ready (w\<lparr>w_fid_cache := c\<rparr>)"
      using False by (cases "wa_stable a") (simp_all add: handle_write_def bindM_apply)
    then show ?thesis unfolding serve.simps by (intro answers_refused exI)
  next
    case (Some q)
    obtain bs where t: "write_target (h_disk w) (wa_file a) q bs" "tmp_ok E (h_disk w) (show_u64 (wa_file a))"
      by (rule write_fineD [OF _ Some]) (use s False in auto)
    have r: "unat (wa_offset a) < 2 ^ 63" "length (wa_data a) = unat (wa_count a)" using s False by auto
    obtain x w' where x: "handle_write E a w = (Ok x, w')" "ready w'"
        "x = \<lparr>wr_count = wa_count a, wr_committed = FILE_SYNC, wr_verf = w_epoch w\<rparr>"
      using write_stable_calm [OF E w(1) False t r] by (auto simp: rewritten_def)
    show ?thesis unfolding serve.simps by (rule answers_Ok [where m = "handle_write E a", OF x(1,2)]) (use x(3) False in simp_all)
  qed
qed

lemma commit_answered:
  assumes E: "regex_documented E" and w: "ready w" "async_ok w" and s: "sane E w (ReqCommit a)"
  shows "answers_well (ReqCommit a) w (serve E (ReqCommit a) w)"
proof (cases "fid_path (h_disk w) (cm_file a)")
  case None
  show ?thesis unfolding serve.simps handle_commit_def
    by (rule answers_refused, rule stale_calm [OF E w(1) None])
next
  case (Some q)
  obtain bs where t: "write_target (h_disk w) (cm_file a) q bs" "tmp_ok E (h_disk w) (show_i64 (cm_file a))"
    by (rule write_fineD [OF _ Some]) (use s in auto)
  obtain w' where x: "handle_commit E a w = (Ok (w_epoch w), w')" "ready w'"
      "pending w' = (pending w)(cm_file a := [])"
    using commit_calm [OF E w t] s by (auto simp: rewritten_def)
  show ?thesis unfolding serve.simps by (rule answers_Ok [where m = "handle_commit E a", OF x(1,2)]) (use x(3) in simp_all)
qed

lemma create_answered:
  assumes E: "regex_documented E" and w: "ready w" and plain: "plain_name (da_filename (ca_where a))"
    and s: "create_fine E w b a" and r: "r = (if b then ReqCreate a else ReqMkdir a)"
  shows "answers_well r w (serve E r w)"
proof -
  have eq: "serve E r = sendM RepEntry (create_object E a b)"
    using r by (simp add: handle_create_def handle_mkdir_def)
  show ?thesis
  proof (cases "create_error w a")
    case None
    obtain dp where h: "fid_path (h_disk w) (da_dir (ca_where a)) = Some dp" "is_dir_at (h_disk w) dp"
        "(dp, da_filename (ca_where a)) \<notin> w_name_lock w" "find_name (h_disk w) dp (da_filename (ca_where a)) = None"
      using None by (auto simp: create_error_def split: option.splits if_splits)
    have f: "name_fits (ctr_disk (w_counter w)) (da_filename (ca_where a))" "unat (ctr_disk (w_counter w)) < 2 ^ 64 - 2"
        "create_attrs_ok E (h_clock w) b (ca_attributes a)"
      using s None by (simp_all add: create_fine_def)
    obtain x w' where "create_object E a b w = (Ok x, w')" "ready w'"
      using create_calm [OF E w h(1,2) plain f(1) h(3,4) f(2,3)] by blast
    then show ?thesis unfolding eq by (rule answers_Ok) (use r in \<open>auto split: if_splits\<close>)
  next
    case (Some t)
    show ?thesis unfolding eq by (rule answers_refused, rule create_refused [OF E w plain Some])
  qed
qed

lemma deletes_answered:
  assumes w: "ready w" and d: "deletes w a z w'" and m: "m w = (z, w')"
    and r: "r = ReqRemove a \<or> r = ReqRmdir a"
  shows "answers_well r w (sendM (\<lambda>_. RepDone) m w)"
proof -
  obtain dp f where h: "entry_of (h_disk w) (da_dir a) (da_filename a) = Inr (dp, f)" "ready w'"
      "view (h_disk w') = (view (h_disk w))(f := None)" "z = Ok () \<or> (\<exists>e. z = Err e)"
    using d by (auto simp: deletes_def split: if_splits)
  have "deletes_entry a (promise_of w) (view (h_disk w'))"
    using h(3) found_entry(1) [OF readyD(5) [OF w] entry_ofD(1,4) [OF readyD(5) [OF w] h(1)]]
    unfolding deletes_entry_def promise_of_simps by blast
  then show ?thesis
    using h(2,4) m r by (auto simp: answers_well_def sendM_apply)
qed

lemma remove_answered:
  assumes E: "regex_documented E" and w: "ready w" and plain: "plain_name (da_filename a)"
  shows "answers_well (ReqRemove a) w (serve E (ReqRemove a) w)" "answers_well (ReqRmdir a) w (serve E (ReqRmdir a) w)"
proof -
  show "answers_well (ReqRemove a) w (serve E (ReqRemove a) w)"
    using remove_calm [OF E w plain] unfolding serve.simps
    by (cases "remove_error (h_disk w) a") (auto intro: answers_refused deletes_answered [OF w])
  show "answers_well (ReqRmdir a) w (serve E (ReqRmdir a) w)"
    using rmdir_calm [OF E w plain] unfolding serve.simps
    by (cases "rmdir_error (h_disk w) a") (auto intro: answers_refused deletes_answered [OF w])
qed

lemma rename_answered:
  assumes E: "regex_documented E" and w: "ready w" and plain: "polite (ReqRename a)" and s: "rename_fine w a"
  shows "answers_well (ReqRename a) w (serve E (ReqRename a) w)"
proof -
  have p: "plain_name (da_filename (rn_old_loc a))" "plain_name (da_filename (rn_new_loc a))" using plain by simp_all
  have d: "is_dir_at (h_disk w) q" if "fid_path (h_disk w) (da_dir (rn_old_loc a)) = Some q" for q
    using s that by (simp add: rename_fine_def is_dir_fid_def)
  have d2: "is_dir_at (h_disk w) q" if "fid_path (h_disk w) (da_dir (rn_new_loc a)) = Some q" for q
    using s that by (simp add: rename_fine_def is_dir_fid_def)
  note c = rename_calm [OF E w p d d2]
  show ?thesis
  proof (cases "rename_error w a")
    case None
    then have "\<exists>w'. handle_rename E a w = (Ok (), w') \<and> ready w'"
      using c s by (auto simp: rename_fine_def split: option.splits)
    then show ?thesis unfolding serve.simps by (auto intro: answers_Ok)
  next
    case (Some t)
    then show ?thesis using c unfolding serve.simps by (auto intro!: answers_Err)
  qed
qed

lemma serve_answers:
  assumes "regex_documented E" "ready w" "async_ok w" "polite r" "sane E w r"
  shows "answers_well r w (serve E r w)"
proof (cases "is_quiet r \<and> \<not> is_unstable r")
  case True
  then show ?thesis using looks_answered assms by blast
next
  case False
  then show ?thesis
    using assms setattr_answered write_answered commit_answered remove_answered rename_answered
      create_answered [where b = True, OF _ _ _ _ refl] create_answered [where b = False, OF _ _ _ _ refl]
    by (cases r) auto
qed

end
