(* ===== verification/Node.thy ===== *)
theory Node
  imports Answers Network
begin

text \<open>
  A server over its whole life: it serves requests, is killed between them, loses power or hits
  an I/O error in the middle of one, and is started again on the same directory. The theory
  shows, step by step, that it keeps the promise of theory Promise.
\<close>

section \<open>The machine\<close>

text \<open>A process with its memory, or what it left on the host\<close>

datatype node = Up world | Down world

fun reply_of :: "('e, 'a) outcome \<Rightarrow> 'a option" where
  "reply_of (Ok x) = Some x"
| "reply_of _ = None"

text \<open>
  A request is served without faults, or with any schedule of I/O errors and power cuts; in the
  second case the process does not go on, whether the request was answered or not, as an error
  leaves its cache and its locks behind in no useful state.
\<close>

inductive node_step :: "env \<Rightarrow> node \<Rightarrow> event \<Rightarrow> node \<Rightarrow> bool" for E where
  replied: "polite r \<Longrightarrow> sane E w r \<Longrightarrow> serve E r w = (Ok x, w') \<Longrightarrow> node_step E (Up w) (Replied r x) (Up w')"
| refused: "polite r \<Longrightarrow> sane E w r \<Longrightarrow> serve E r w = (Err e, w') \<Longrightarrow> node_step E (Up w) (Refused r e) (Up w')"
| died: "polite r \<Longrightarrow> serve E r (w\<lparr>h_faults := fs\<rparr>) = (z, w') \<Longrightarrow> node_step E (Up w) (Died r (reply_of z)) (Down w')"
| killed: "node_step E (Up w) Killed (Down w)"
| booted: "unat (ctr_disk (w_counter w)) + 1 < 2 ^ 64 - 2 \<Longrightarrow>
     new_server (host_of w) (Some (ctr_disk (w_counter w))) = Ok w' \<Longrightarrow>
     node_step E (Down w) (Booted (w_epoch w')) (Up w')"
| ticked: "node_step E (Up w) Ticked (Up (w\<lparr>h_clock := t\<rparr>))"

inductive node_run :: "env \<Rightarrow> node \<Rightarrow> event list \<Rightarrow> node \<Rightarrow> bool" for E where
  nil: "node_run E n [] n"
| cons: "node_step E n e n' \<Longrightarrow> node_run E n' es n'' \<Longrightarrow> node_run E n (e # es) n''"

inductive_cases node_stepE: "node_step E n e n'"
inductive_cases node_consE: "node_run E n (e # es) n''"
inductive_simps node_nil_iff: "node_run E n [] n'"

fun node_world :: "node \<Rightarrow> world" where
  "node_world (Up w) = w"
| "node_world (Down w) = w"

text \<open>The invariant: a running server is ready, a dead one has left a store that can be used.\<close>

fun node_ok :: "node \<Rightarrow> bool" where
  "node_ok (Up w) \<longleftrightarrow> ready w \<and> async_ok w \<and> unat (w_epoch w) < unat (ctr_disk (w_counter w))"
| "node_ok (Down w) \<longleftrightarrow> durable_ok (h_disk w) (w_counter w) \<and> unat (w_epoch w) < unat (ctr_disk (w_counter w))"

fun node_promise :: "node \<Rightarrow> promise" where
  "node_promise (Up w) = promise_of w"
| "node_promise (Down w) = (promise_of w)\<lparr>pr_pending := (\<lambda>_. []), pr_epoch := None\<rparr>"

section \<open>Every step keeps the invariant and the promise\<close>

lemma promise_of_faults [simp]: "promise_of (w\<lparr>h_faults := fs\<rparr>) = promise_of w"
  by (simp add: promise_of_def pending_def fun_eq_iff split: option.split)

lemma serve_settles:
  assumes E: "regex_documented E" and w: "server_ok w" and r: "polite r" and run: "serve E r w = (Ok x, w')"
  shows "durable_ok (h_disk w') (w_counter w')" "effect r (promise_of w) (view (h_disk w'))"
    "numbered r (promise_of w) x (promise_of w')"
proof -
  have "settles r (promise_of w) x (h_disk w') (w_counter w')"
  proof (cases "is_quiet r")
    case True
    then show ?thesis
      using serve_quiet [OF True, of E w] run server_ok_durable [OF w] by (cases r) (auto simp: settles_def)
  next
    case False
    from serve_survives [OF E w r False] show ?thesis using run by (simp add: survives_def wp_def)
  qed
  then show "durable_ok (h_disk w') (w_counter w')" "effect r (promise_of w) (view (h_disk w'))"
    "numbered r (promise_of w) x (promise_of w')"
    using serve_counter [of r E w] run by (auto simp: settles_def numbered_def)
qed

lemma serve_breaks_off:
  assumes E: "regex_documented E" and w: "server_ok w" and r: "polite r" and run: "serve E r w = (z, w')"
    and z: "reply_of z = None"
  shows "durable_ok (h_disk w') (w_counter w')"
    "view (h_disk w') = view (h_disk w) \<or> effect r (promise_of w) (view (h_disk w')) \<or> half_effect r (promise_of w) (view (h_disk w'))"
    "unat (ctr_disk (w_counter w)) \<le> unat (ctr_disk (w_counter w'))"
proof -
  have "breaks_off r (promise_of w) (h_disk w') (w_counter w')"
  proof (cases "is_quiet r")
    case True
    then show ?thesis
      using serve_quiet [OF True, of E w] run server_ok_durable [OF w] by (cases r) (auto simp: breaks_off_def)
  next
    case False
    from serve_survives [OF E w r False] show ?thesis
      using run z by (cases z) (simp_all add: survives_def wp_def)
  qed
  then show "durable_ok (h_disk w') (w_counter w')"
    "view (h_disk w') = view (h_disk w) \<or> effect r (promise_of w) (view (h_disk w')) \<or> half_effect r (promise_of w) (view (h_disk w'))"
    "unat (ctr_disk (w_counter w)) \<le> unat (ctr_disk (w_counter w'))"
    using serve_counter [of r E w] run by (auto simp: breaks_off_def)
qed

lemma step_replied:
  assumes E: "regex_documented E" and w: "node_ok (Up w)" and r: "polite r" "sane E w r"
    and run: "serve E r w = (Ok x, w')"
  shows "node_ok (Up w') \<and> promise_step (promise_of w) (Replied r x) (promise_of w')"
proof -
  have ok: "ready w" "async_ok w" "server_ok w" using w readyD(1) by auto
  note a = serve_answers [OF E ok(1,2) r, unfolded run answers_well_def, simplified]
  note s = serve_settles [OF E ok(3) r(1) run]
  have pend: "pending w' = pending_after r (promise_of w)"
    using a serve_bufs [of r E w] run by (cases "is_unstable r \<or> is_commit r") (auto, cases r, auto)
  have mem: "w_epoch w' = w_epoch w" "async_ok w'"
    using serve_epoch [of E r w] serve_async_ok [OF ok(2), of E r] run by simp_all
  have "unat (w_epoch w') < unat (ctr_disk (w_counter w'))"
    using w s(3) mem(1) by (auto simp: numbered_def split: if_splits)
  then show ?thesis
    using a s(2,3) pend mem by (auto intro: promise_step.replied)
qed

lemma step_refused:
  assumes E: "regex_documented E" and w: "node_ok (Up w)" and r: "polite r" "sane E w r"
    and run: "serve E r w = (Err e, w')"
  shows "node_ok (Up w') \<and> promise_step (promise_of w) (Refused r e) (promise_of w')"
proof -
  have ok: "ready w" "async_ok w" "server_ok w" using w readyD(1) by auto
  note a = serve_answers [OF E ok(1,2) r, unfolded run answers_well_def, simplified]
  have pend: "pending w' = pending w"
    using a serve_bufs [of r E w] run by auto
  have mem: "w_epoch w' = w_epoch w" "async_ok w'" "w_counter w' = w_counter w"
    using serve_epoch [of E r w] serve_async_ok [OF ok(2), of E r] serve_counter [of r E w] a run by auto
  then show ?thesis
    using a pend w by (auto intro!: promise_step.refused)
qed

lemma step_died:
  assumes E: "regex_documented E" and w: "node_ok (Up w)" and r: "polite r"
    and run: "serve E r (w\<lparr>h_faults := fs\<rparr>) = (z, w')"
  shows "node_ok (Down w') \<and> promise_step (promise_of w) (Died r (reply_of z)) (node_promise (Down w'))"
proof -
  have ok: "server_ok (w\<lparr>h_faults := fs\<rparr>)" using w readyD(1) [of w] by (simp add: server_ok_def)
  have ep: "w_epoch w' = w_epoch w" using serve_epoch [of E r "w\<lparr>h_faults := fs\<rparr>"] run by simp
  show ?thesis
  proof (cases "reply_of z")
    case None
    note b = serve_breaks_off [OF E ok r run None, simplified]
    then show ?thesis using None w ep durable_below [OF b(1)] by (auto intro!: promise_step.died)
  next
    case (Some x)
    then have "serve E r (w\<lparr>h_faults := fs\<rparr>) = (Ok x, w')" using run by (cases z) auto
    note s = serve_settles [OF E ok r this, simplified]
    have "numbered r (promise_of w) x (node_promise (Down w'))" "unat (ctr_disk (w_counter w)) \<le> unat (ctr_disk (w_counter w'))"
      using s(3) by (auto simp: numbered_def split: if_splits)
    then show ?thesis using Some w ep s(1,2) by (auto intro!: promise_step.died_done)
  qed
qed

lemma step_booted:
  assumes w: "node_ok (Down w)" and room: "unat (ctr_disk (w_counter w)) + 1 < 2 ^ 64 - 2"
    and new: "new_server (host_of w) (Some (ctr_disk (w_counter w))) = Ok w'"
  shows "node_ok (Up w') \<and> promise_step (node_promise (Down w)) (Booted (w_epoch w')) (promise_of w')"
proof -
  have eq: "w' = reboot w" using new by (simp add: reboot_def)
  have d: "durable_ok (h_disk w) (w_counter w)" "unat (w_epoch w) < unat (ctr_disk (w_counter w))" using w by simp_all
  note b = reboot_state [where w = w and k = 1, OF d(1) refl d(2) room zero_less_one, folded eq]
  have ep: "unat (w_epoch w') = unat (ctr_disk (w_counter w))" using b(5) by simp
  have "node_ok (Up w')" using b(1,3,6) ep by simp
  moreover have "promise_of w' = (node_promise (Down w))\<lparr>pr_epoch := Some (w_epoch w'), pr_next := Suc (pr_next (node_promise (Down w)))\<rparr>"
    using b(2,4,6) by (simp add: promise_of_def)
  moreover have "pr_epoch (node_promise (Down w)) = None" "unat (w_epoch w') = pr_next (node_promise (Down w))"
    using ep by simp_all
  ultimately show ?thesis by (blast intro: promise_step.booted)
qed

lemma node_step_keeps:
  assumes "regex_documented E" "node_ok n" "node_step E n e n'"
  shows "node_ok n' \<and> promise_step (node_promise n) e (node_promise n')"
  using assms(3)
proof (cases rule: node_step.cases)
  case (replied r w x w')
  have "node_ok (Up w)" using assms(2) replied(1) by simp
  from step_replied [OF assms(1) this replied(4-6)] show ?thesis unfolding replied(1-3) node_promise.simps(1) .
next
  case (refused r w e w')
  have "node_ok (Up w)" using assms(2) refused(1) by simp
  from step_refused [OF assms(1) this refused(4-6)] show ?thesis unfolding refused(1-3) node_promise.simps(1) .
next
  case (died r fs w z w')
  have "node_ok (Up w)" using assms(2) died(1) by simp
  from step_died [OF assms(1) this died(4,5)] show ?thesis unfolding died(1-3) node_promise.simps(1) .
next
  case (killed w)
  have "durable_ok (h_disk w) (w_counter w)" using assms(2) killed readyD(1) server_ok_durable by auto
  moreover have "promise_step (promise_of w) Killed (node_promise (Down w))"
    by (rule promise_step.killed) simp_all
  ultimately show ?thesis using assms(2) killed by simp
next
  case (booted w w')
  have "node_ok (Down w)" using assms(2) booted(1) by simp
  from step_booted [OF this booted(4,5)] show ?thesis unfolding booted(1-3) node_promise.simps(1) .
next
  case (ticked w t)
  have "ready (w\<lparr>h_clock := t\<rparr>)" "async_ok (w\<lparr>h_clock := t\<rparr>)" "promise_of (w\<lparr>h_clock := t\<rparr>) = promise_of w"
    using assms(2) ticked
    by (simp_all add: ready_def server_ok_def async_ok_def promise_of_def pending_def fun_eq_iff split: option.split)
  then show ?thesis using assms(2) ticked by (auto intro: promise_step.ticked)
qed

lemma node_run_keeps:
  assumes "regex_documented E"
  shows "node_run E n es n' \<Longrightarrow> node_ok n \<Longrightarrow> node_ok n' \<and> promise_run (node_promise n) es (node_promise n')"
proof (induction rule: node_run.induct)
  case (nil n)
  then show ?case by (auto intro: promise_run.nil)
next
  case (cons n e n' es n'')
  then show ?case using node_step_keeps [OF assms] by (blast intro: promise_run.cons)
qed

end
