(* ===== verification/Lifetime.thy ===== *)
theory Lifetime
  imports Node ClientGuarantees
begin

text \<open>
  What clients can rely on over the whole life of a server, with any number of requests, faults,
  crashes and restarts.
\<close>

section \<open>A sample run\<close>

lemma boot_step:
  assumes "unat (ctr_disk (w_counter w)) + 1 < 2 ^ 64 - 2"
  shows "\<exists>w'. node_step E (Down w) (Booted (ctr_disk (w_counter w))) (Up w')"
proof -
  obtain w' where w': "new_server (host_of w) (Some (ctr_disk (w_counter w))) = Ok w'" "w_epoch w' = ctr_disk (w_counter w)"
    by (simp add: new_server_def from_file_def fetch_incM_def blank_world_def host_of_def
        next_fault_def drop_fault_def fetch_inc_def fetch_add_def flush_ok_def)
  from node_step.booted [where E = E, OF assms w'(1)] w'(2) show ?thesis by auto
qed

lemma node0: "node_ok (Up world0)"
  using ready0 by (simp add: async_ok_def)

text \<open>A file is created, the server is killed and started again.\<close>

lemma run0:
  obtains res w n where "node_step env0 (Up world0) (Replied (ReqCreate create0) (RepEntry res)) (Up w)"
    "node_run env0 (Up w) [Killed, Booted 5] n" "dr_file res = 4"
    "view (h_disk w) 4 = Some \<lparr>nf_parent = ''2'', nf_names = {''new''}, nf_body = FileBody []\<rparr>"
proof -
  have at: "create_attrs_ok env0 (200, 0) True no_attrs"
    by (simp add: create_attrs_ok_def no_attrs_def times_given_ok_def new_obj_def times_ok_def
        fresh_stamps_def env0_def)
  have fits: "name_fits 4 ''new''" by (simp add: name_fits_def NAME_MAX_def)
  obtain res w where c: "create_object env0 create0 True world0 = (Ok res, w)" "dr_file res = 4"
      "ctr_disk (w_counter w) = 5"
      "view (h_disk w) = (view disk0)(4 \<mapsto> \<lparr>nf_parent = ''2'', nf_names = {''new''}, nf_body = FileBody []\<rparr>)"
    using create_calm [OF env0_documented ready0, of create0 "[''1'', ''2'']" True] at fits
    by (auto simp: create0_def no_attrs_def new_file_def initial_body_def empty_body_def)
  have s: "serve env0 (ReqCreate create0) world0 = (Ok (RepEntry res), w)"
    using c(1) by (simp add: handle_create_def sendM_apply)
  have "create_fine env0 world0 True create0"
    using at fits by (simp add: create_fine_def create0_def)
  then have "node_step env0 (Up world0) (Replied (ReqCreate create0) (RepEntry res)) (Up w)"
    by (intro node_step.replied [OF _ _ s]) (simp_all add: create0_def)
  moreover obtain w' where "node_step env0 (Down w) (Booted 5) (Up w')"
    using boot_step [of w env0] c(3) by auto
  then have "node_run env0 (Up w) [Killed, Booted 5] (Up w')"
    by (rule node_run.cons [OF node_step.killed node_run.cons [OF _ node_run.nil]])
  ultimately show thesis using that c(2,4) by simp
qed

section \<open>The promise is kept\<close>



text \<open>
  C3. No number is used twice over the whole life of a server: the FIDs in the replies to
  CREATE and MKDIR and the epochs of its processes form a strictly increasing sequence, across
  faults, crashes and restarts.
\<close>

theorem numbers_never_reused:
  assumes "regex_documented E" and "node_ok n" and "node_run E n es n'"
  shows "sorted_wrt (<) (map unat (concat (map handed_out es))) \<and> distinct (concat (map handed_out es))"
proof -
  have s: "sorted_wrt (<) (map unat (concat (map handed_out es)))"
    using node_run_keeps [OF assms(1,3,2)] promise_run_numbers by blast
  then have "distinct (map unat (concat (map handed_out es)))" by (metis strict_sorted_iff)
  with s show ?thesis by (simp only: distinct_map)
qed

lemma numbers_never_reused_witness:
  "\<exists>res :: zip_dir_op_res. node_ok (Up world0) \<and> sorted_wrt (<) (map unat [dr_file res, 5]) \<and> dr_file res = 4"
proof (rule run0)
  fix res w n
  assume r: "node_step env0 (Up world0) (Replied (ReqCreate create0) (RepEntry res)) (Up w)"
    "node_run env0 (Up w) [Killed, Booted 5] n" "dr_file res = 4"
  have "node_run env0 (Up world0) [Replied (ReqCreate create0) (RepEntry res), Killed, Booted 5] n"
    by (rule node_run.cons [OF r(1,2)])
  from numbers_never_reused [OF env0_documented node0 this] r(3) node0 show ?thesis
    by (intro exI [of _ res]) simp
qed




end
