(* ===== verification/Threads.thy ===== *)
theory Threads
  imports Guarantees "HOL-Library.Multiset"
begin

text \<open>
  Unstable writes that run at the same time, in different threads of the server. The table of
  buffers is under a lock that is taken twice, once to look for the buffer of the file and
  once to insert a new one, and each buffer has a lock of its own: a thread moves in
  three steps, and the steps of several threads interleave.
\<close>

section \<open>The steps of a thread\<close>

text \<open>Where a thread is in \<^verbatim>\<open>handle_write\<close>: before the look-up, after a miss, with a buffer, or done\<close>

datatype stage = Looking | Missing | Holding nat | Written

type_synonym thread = "zip_write_args \<times> stage"

definition pending_of :: "zip_write_args \<Rightarrow> pending_write" where
  "pending_of a = (wa_offset a, wa_count a, wa_data a)"

inductive thread_step :: "world \<Rightarrow> thread \<Rightarrow> world \<Rightarrow> thread \<Rightarrow> bool" where
  hit: "async_lookup (wa_file a) w = (Ok (Some ad) :: (thrift_error, nat option) outcome, w') \<Longrightarrow>
     thread_step w (a, Looking) w' (a, Holding ad)"
| miss: "async_lookup (wa_file a) w = (Ok None :: (thrift_error, nat option) outcome, w') \<Longrightarrow>
     thread_step w (a, Looking) w' (a, Missing)"
| insert_buffer: "async_insert_new (wa_file a) w = (Ok ad :: (thrift_error, nat) outcome, w') \<Longrightarrow>
     thread_step w (a, Missing) w' (a, Holding ad)"
| push: "async_push ad (pending_of a) w = (Ok () :: (thrift_error, unit) outcome, w') \<Longrightarrow>
     thread_step w (a, Holding ad) w' (a, Written)"

inductive threads_run :: "world \<Rightarrow> thread list \<Rightarrow> world \<Rightarrow> thread list \<Rightarrow> bool" where
  refl: "threads_run w ts w ts"
| step: "thread_step w t w' t' \<Longrightarrow> threads_run w' (xs @ t' # ys) w'' ts \<Longrightarrow> threads_run w (xs @ t # ys) w'' ts"

inductive_cases thread_stepE: "thread_step w t w' t'"

definition fresh_threads :: "zip_write_args list \<Rightarrow> thread list" where
  "fresh_threads as = map (\<lambda>a. (a, Looking)) as"

text \<open>A thread that runs alone does what \<^const>\<open>handle_write\<close> does.\<close>

lemma thread_alone:
  assumes "wa_stable a = UNSTABLE" "length (wa_data a) = unat (wa_count a)" "handle_write E a w = (z, w')"
  shows "threads_run w (fresh_threads [a]) w' [(a, Written)]"
proof -
  define ad where "ad = (case map_of (w_async_bufs w) (wa_file a) of Some ad \<Rightarrow> ad | None \<Rightarrow> w_async_next w)"
  define w1 where "w1 = (case map_of (w_async_bufs w) (wa_file a) of Some ad \<Rightarrow> w
    | None \<Rightarrow> snd (async_insert_new (wa_file a) w :: (thrift_error, nat) outcome \<times> world))"
  have get: "(get_or_create_async_bufs (wa_file a) :: (world, thrift_error, nat) M) w = (Ok ad, w1)"
    by (simp add: get_or_create_async_bufs_def async_lookup_def monad_simps ad_def w1_def async_insert_new_def
        split: option.split)
  have w': "(async_push ad (pending_of a) :: (world, thrift_error, unit) M) w1 = (Ok (), w')"
    using assms get by (simp add: handle_write_def Let_def monad_simps async_push_def pending_of_def)
  have last: "threads_run w1 [(a, Holding ad)] w' [(a, Written)]"
    using threads_run.step [where xs = "[]" and ys = "[]", OF thread_step.push [OF w']] threads_run.refl by simp
  show ?thesis
  proof (cases "map_of (w_async_bufs w) (wa_file a)")
    case None
    have "threads_run w [(a, Missing)] w' [(a, Written)]"
      using threads_run.step [where xs = "[]" and ys = "[]", OF thread_step.insert_buffer [of a w ad w1]] last None
      by (simp add: ad_def w1_def async_insert_new_def)
    then show ?thesis
      using threads_run.step [where xs = "[]" and ys = "[]", OF thread_step.miss [of a w w]] None
      by (simp add: fresh_threads_def async_lookup_def getsM_apply)
  next
    case (Some ad')
    then show ?thesis
      using threads_run.step [where xs = "[]" and ys = "[]", OF thread_step.hit [of a w ad w]] last
      by (simp add: fresh_threads_def async_lookup_def getsM_apply ad_def w1_def)
  qed
qed

section \<open>When every file has its buffer\<close>

text \<open>The writes of the threads that have replied, for a file\<close>

definition acknowledged :: "fid \<Rightarrow> thread list \<Rightarrow> pending_write multiset" where
  "acknowledged f ts = mset (map (\<lambda>t. pending_of (fst t)) (filter (\<lambda>t. snd t = Written \<and> wa_file (fst t) = f) ts))"

definition buffered_thread :: "world \<Rightarrow> thread \<Rightarrow> bool" where
  "buffered_thread w t \<longleftrightarrow> (case snd t of Missing \<Rightarrow> False | Written \<Rightarrow> True
     | Looking \<Rightarrow> map_of (w_async_bufs w) (wa_file (fst t)) \<noteq> None
     | Holding ad \<Rightarrow> map_of (w_async_bufs w) (wa_file (fst t)) = Some ad)"

lemma acknowledged_simps [simp]:
  "acknowledged f [] = {#}"
  "acknowledged f (t # ts) = (if snd t = Written \<and> wa_file (fst t) = f then {#pending_of (fst t)#} else {#}) + acknowledged f ts"
  "acknowledged f (xs @ ys) = acknowledged f xs + acknowledged f ys"
  by (simp_all add: acknowledged_def)

lemma push_pending:
  assumes ok: "async_ok w" and ad: "map_of (w_async_bufs w) g = Some ad"
  shows "pending (w\<lparr>w_async_heap := (w_async_heap w)(ad := w_async_heap w ad @ [x])\<rparr>) f
    = (if f = g then pending w f @ [x] else pending w f)"
proof (cases "map_of (w_async_bufs w) f")
  case (Some b)
  then have "b = ad \<longleftrightarrow> f = g" using ad async_okD(2) [OF ok ad, of f] by auto
  then show ?thesis using Some ad by (simp add: pending_def)
qed (use ad in \<open>auto simp: pending_def\<close>)

lemma buffered_step:
  assumes s: "thread_step w t w' t'" and b: "buffered_thread w t" and ok: "async_ok w"
  shows "w_async_bufs w' = w_async_bufs w \<and> async_ok w' \<and> buffered_thread w' t'
    \<and> mset (pending w' f) + acknowledged f [t] = mset (pending w f) + acknowledged f [t']"
  using s
proof (cases rule: thread_step.cases)
  case (hit a ad)
  then show ?thesis using b ok by (auto simp: buffered_thread_def async_lookup_def getsM_apply)
next
  case (push ad a)
  then have w': "w' = w\<lparr>w_async_heap := (w_async_heap w)(ad := w_async_heap w ad @ [pending_of a])\<rparr>"
    by (simp add: async_push_def modifyM_apply)
  have ad: "map_of (w_async_bufs w) (wa_file a) = Some ad" using b push by (simp add: buffered_thread_def)
  have "async_ok w'" using ok by (simp add: w' async_ok_def)
  then show ?thesis
    using push push_pending [OF ok ad, of "pending_of a" f] by (simp add: w' buffered_thread_def)
qed (use b in \<open>auto simp: buffered_thread_def async_lookup_def getsM_apply\<close>)

lemma buffered_same: "w_async_bufs w' = w_async_bufs w \<Longrightarrow> buffered_thread w' t = buffered_thread w t"
  by (simp add: buffered_thread_def split: stage.split)

lemma buffered_run:
  "threads_run w ts w' ts' \<Longrightarrow> async_ok w \<Longrightarrow> list_all (buffered_thread w) ts \<Longrightarrow>
    mset (pending w' f) + acknowledged f ts = mset (pending w f) + acknowledged f ts'"
proof (induction rule: threads_run.induct)
  case (step w t w' t' xs ys w'' ts)
  have t: "buffered_thread w t" using step.prems(2) by simp
  note s = buffered_step [OF step.hyps(1) t step.prems(1), of f]
  have "list_all (buffered_thread w') (xs @ t' # ys)"
    using step.prems(2) s buffered_same [OF s [THEN conjunct1]] by (simp add: list_all_iff)
  then have ih: "mset (pending w'' f) + acknowledged f (xs @ t' # ys) = mset (pending w' f) + acknowledged f ts"
    by (rule step.IH [OF s [THEN conjunct2, THEN conjunct1]])
  have split: "acknowledged f (xs @ u # ys) = acknowledged f [u] + (acknowledged f xs + acknowledged f ys)" for u
    by simp
  have arith: "P'' + (A + R) = P + B" if "P'' + (A' + R) = P' + B" "P' + A = P + A'"
    for P P' P'' A A' R B :: "pending_write multiset"
  proof -
    have "P'' + (A + R) + A' = (P'' + (A' + R)) + A" by (simp only: ac_simps)
    also have "\<dots> = (P' + A) + B" unfolding that(1) by (simp only: ac_simps)
    also have "\<dots> = (P + B) + A'" unfolding that(2) by (simp only: ac_simps)
    finally show ?thesis by (rule add_right_imp_eq)
  qed
  show ?case unfolding split by (rule arith [OF ih [unfolded split] s [THEN conjunct2, THEN conjunct2, THEN conjunct2]])
qed simp

section \<open>When two threads make the buffer\<close>

text \<open>Both look, both miss; the second insertion takes the first buffer away, with what is in it.\<close>

lemma race_run:
  assumes none: "map_of (w_async_bufs w) (wa_file a) = None" and same: "wa_file b = wa_file a"
  shows "\<exists>w'. threads_run w (fresh_threads [a, b]) w' [(a, Written), (b, Written)]
    \<and> pending w' (wa_file a) = [pending_of b]"
proof -
  let ?f = "wa_file a" and ?n = "w_async_next w"
  define w1 where "w1 = w\<lparr>w_async_bufs := AList.update ?f ?n (w_async_bufs w),
      w_async_heap := (w_async_heap w)(?n := []), w_async_next := Suc ?n\<rparr>"
  define w2 where "w2 = w1\<lparr>w_async_heap := (w_async_heap w1)(?n := [pending_of a])\<rparr>"
  define w3 where "w3 = w2\<lparr>w_async_bufs := AList.update ?f (Suc ?n) (w_async_bufs w2),
      w_async_heap := (w_async_heap w2)(Suc ?n := []), w_async_next := Suc (Suc ?n)\<rparr>"
  define w4 where "w4 = w3\<lparr>w_async_heap := (w_async_heap w3)(Suc ?n := [pending_of b])\<rparr>"
  note mem = async_lookup_def async_insert_new_def async_push_def modifyM_apply getsM_apply
  have s: "thread_step w (a, Looking) w (a, Missing)" "thread_step w (b, Looking) w (b, Missing)"
    using none same by (auto intro!: thread_step.miss simp: mem)
  have s1: "thread_step w (a, Missing) w1 (a, Holding ?n)"
    by (rule thread_step.insert_buffer) (simp add: mem w1_def)
  have s2: "thread_step w1 (a, Holding ?n) w2 (a, Written)"
    by (rule thread_step.push) (simp add: mem w2_def w1_def)
  have s3: "thread_step w2 (b, Missing) w3 (b, Holding (Suc ?n))"
    by (rule thread_step.insert_buffer) (simp add: mem w3_def w2_def w1_def same)
  have s4: "thread_step w3 (b, Holding (Suc ?n)) w4 (b, Written)"
    by (rule thread_step.push) (simp add: mem w4_def w3_def)
  have "threads_run w [(a, Missing), (b, Missing)] w4 [(a, Written), (b, Written)]"
    using threads_run.step [where xs = "[]", OF s1] threads_run.step [where xs = "[]", OF s2]
      threads_run.step [where xs = "[(a, Written)]" and ys = "[]", OF s3]
      threads_run.step [where xs = "[(a, Written)]" and ys = "[]", OF s4] threads_run.refl by simp
  then have "threads_run w (fresh_threads [a, b]) w4 [(a, Written), (b, Written)]"
    using threads_run.step [where xs = "[]", OF s(1)]
      threads_run.step [where xs = "[(a, Missing)]" and ys = "[]", OF s(2)] by (simp add: fresh_threads_def)
  moreover have "pending w4 ?f = [pending_of b]"
    by (simp add: pending_def w4_def w3_def)
  ultimately show ?thesis by blast
qed

text \<open>
  C34. Concurrent unstable writes. When the files have their buffers, every interleaving of the
  threads keeps exactly the writes that are acknowledged. When a file has none yet, there is
  an interleaving of two threads in which both are acknowledged and the first one is lost: the
  table is not looked at again before the insertion.
\<close>

theorem concurrent_unstable_writes:
  assumes "async_ok w"
  shows "(list_all (\<lambda>a. map_of (w_async_bufs w) (wa_file a) \<noteq> None) as \<and> threads_run w (fresh_threads as) w' ts
      \<longrightarrow> mset (pending w' f) = mset (pending w f) + acknowledged f ts)
    \<and> (map_of (w_async_bufs w) (wa_file a) = None \<and> wa_file b = wa_file a
      \<longrightarrow> (\<exists>w''. threads_run w (fresh_threads [a, b]) w'' [(a, Written), (b, Written)]
           \<and> pending w'' (wa_file a) = [pending_of b]))"
proof (intro conjI impI)
  assume h: "list_all (\<lambda>a. map_of (w_async_bufs w) (wa_file a) \<noteq> None) as \<and> threads_run w (fresh_threads as) w' ts"
  have "acknowledged f (fresh_threads as) = {#}" by (induction as) (simp_all add: fresh_threads_def)
  moreover have "list_all (buffered_thread w) (fresh_threads as)"
    using h by (simp add: fresh_threads_def list_all_iff buffered_thread_def)
  ultimately show "mset (pending w' f) = mset (pending w f) + acknowledged f ts"
    using buffered_run [OF conjunct2 [OF h] assms, of f] by simp
qed (use race_run in blast)

definition unstable0 :: "fid \<Rightarrow> zip_write_args" where
  "unstable0 f = \<lparr>wa_file = f, wa_offset = 5, wa_count = 2, wa_data = [7, 8], wa_stable = UNSTABLE\<rparr>"

lemma concurrent_unstable_writes_witness:
  "(\<exists>w'. threads_run buffered0 (fresh_threads [unstable0 3]) w' [(unstable0 3, Written)]
      \<and> mset (pending w' 3) = {#(0, 1, [9]), (2, 2, [5, 6]), (5, 2, [7, 8])#})
    \<and> (\<exists>w''. threads_run buffered0 (fresh_threads [unstable0 4, (unstable0 4)\<lparr>wa_offset := 9\<rparr>]) w''
          [(unstable0 4, Written), ((unstable0 4)\<lparr>wa_offset := 9\<rparr>, Written)]
      \<and> pending w'' 4 = [(9, 2, [7, 8])])"
proof -
  have ok: "async_ok buffered0" by (simp add: async_ok_def buffered0_def)
  have b: "map_of (w_async_bufs buffered0) 3 = Some 0" "map_of (w_async_bufs buffered0) 4 = None"
    "pending buffered0 3 = [(0, 1, [9]), (2, 2, [5, 6])]"
    by (simp_all add: buffered0_def pending_def)
  note law = concurrent_unstable_writes [OF ok]
  obtain z w' where z: "handle_write env0 (unstable0 3) buffered0 = (z, w')" by (cases "handle_write env0 (unstable0 3) buffered0")
  have r: "threads_run buffered0 (fresh_threads [unstable0 3]) w' [(unstable0 3, Written)]"
    by (rule thread_alone [OF _ _ z]) (simp_all add: unstable0_def)
  have "mset (pending w' 3) = {#(0, 1, [9]), (2, 2, [5, 6]), (5, 2, [7, 8])#}"
    using law [of "[unstable0 3]" w' "[(unstable0 3, Written)]" 3] r b
    by (simp add: unstable0_def pending_of_def)
  moreover have "\<exists>w''. threads_run buffered0 (fresh_threads [unstable0 4, (unstable0 4)\<lparr>wa_offset := 9\<rparr>]) w''
      [(unstable0 4, Written), ((unstable0 4)\<lparr>wa_offset := 9\<rparr>, Written)] \<and> pending w'' 4 = [(9, 2, [7, 8])]"
    using law [of "[]" _ _ _ "unstable0 4" "(unstable0 4)\<lparr>wa_offset := 9\<rparr>"] b
    by (simp add: unstable0_def pending_of_def)
  ultimately show ?thesis using r by blast
qed

end
