(* ===== verification/Failures.thy ===== *)
theory Failures
  imports ClientGuarantees Kept
begin

text \<open>
  What single failures lead to, in the server and in the client: a creation that is reported as
  failed although it happened, a COMMIT that throws the writes away before they are on the
  disk, a flush that fails once and then succeeds without the writes, a RENAME that leaves the
  cache of FIDs wrong or an old name behind, and the size of a large file.
\<close>

section \<open>A creation sent twice\<close>

lemma created_entry:
  assumes wf: "wf_store d'" and v: "view d' g = Some (new_file dp nm b)" and p: "fid_path d' dir = Some p"
    and last: "last dp = show_u64 dir" and line: "CHR 0x0A \<notin> set nm"
  shows "find_name d' p nm \<noteq> None"
proof
  assume "find_name d' p nm = None"
  from no_entry [OF wf p this] have "\<not> entry (view d') dir nm g (new_file dp nm b)" .
  then show False using v last dot_match_refl [OF line] by (simp add: entry_def new_file_def)
qed

text \<open>The second of two equal CREATEs is refused.\<close>

lemma create_twice:
  assumes doc: "regex_documented E" and w: "ready w"
    and p: "fid_path (h_disk w) (da_dir (ca_where a)) = Some dp" and dir: "is_dir_at (h_disk w) dp"
    and plain: "plain_name (da_filename (ca_where a))"
    and fits: "name_fits (ctr_disk (w_counter w)) (da_filename (ca_where a))"
    and unlocked: "(dp, da_filename (ca_where a)) \<notin> w_name_lock w"
    and free: "find_name (h_disk w) dp (da_filename (ca_where a)) = None"
    and ctr: "unat (ctr_disk (w_counter w)) < 2 ^ 64 - 2"
    and attrs: "create_attrs_ok E (h_clock w) is_file (ca_attributes a)"
    and line: "CHR 0x0A \<notin> set (da_filename (ca_where a))"
  obtains res w1 c where "create_object E a is_file w = (Ok res, w1)"
    "view (h_disk w1) = (view (h_disk w))(ctr_disk (w_counter w) \<mapsto>
        new_file dp (da_filename (ca_where a)) (initial_body is_file (sa_size (ca_attributes a))))"
    "create_object E a is_file w1 = (Err (nfs_error NFSERR_EXIST), w1\<lparr>w_fid_cache := c\<rparr>)"
proof -
  let ?dir = "da_dir (ca_where a)" and ?nm = "da_filename (ca_where a)" and ?f = "ctr_disk (w_counter w)"
  note wf = readyD(5) [OF w]
  obtain res w1 where w1: "create_object E a is_file w = (Ok res, w1)" "ready w1"
      "view (h_disk w1) = (view (h_disk w))(?f \<mapsto> new_file dp ?nm (initial_body is_file (sa_size (ca_attributes a))))"
    using create_calm [OF doc w p dir plain fits unlocked free ctr attrs] by blast
  note wf1 = readyD(5) [OF w1(2)]
  obtain st where ob: "map_of (h_disk w) dp = Some (DirObj st)" using dir by (auto simp: is_dir_at_iff)
  have last: "last dp = show_u64 ?dir" using p fid_path_Some [OF wf] by simp
  have vd: "view (h_disk w) ?dir = Some (file_at (h_disk w) dp)" "nf_body (file_at (h_disk w) dp) = DirBody"
    using p ob by (simp_all add: view_def file_at_def)
  have "view (h_disk w) ?f = None"
    using durable_below [OF server_ok_durable [OF readyD(1) [OF w]]] by blast
  then have "?f \<noteq> ?dir" using vd(1) by auto
  then have v1: "view (h_disk w1) ?dir = Some (file_at (h_disk w) dp)" using w1(3) vd(1) by simp
  then obtain p1 where p1: "fid_path (h_disk w1) ?dir = Some p1" "file_at (h_disk w1) p1 = file_at (h_disk w) dp"
    by (auto simp: view_def)
  obtain ob1 where ob1: "map_of (h_disk w1) p1 = Some ob1"
    using vpath_exists p1(1) fid_path_Some [OF wf1, of ?dir p1] by (metis not_None_eq)
  have "nf_body (file_at (h_disk w1) p1) = DirBody" using p1(2) vd(2) by simp
  then have "is_dir_at (h_disk w1) p1" using ob1 by (cases ob1) (simp_all add: file_at_def is_dir_at_iff)
  moreover have "find_name (h_disk w1) p1 ?nm \<noteq> None"
    using created_entry [where g = ?f, OF wf1 _ p1(1) last line] unfolding w1(3) by (simp add: fun_upd_same)
  ultimately have "create_error w1 a = Some NFSERR_EXIST" using p1(1) by (simp add: create_error_def)
  then obtain c where "create_object E a is_file w1 = (Err (nfs_error NFSERR_EXIST), w1\<lparr>w_fid_cache := c\<rparr>)"
    using create_refused [OF doc w1(2) plain] by blast
  with w1 show thesis by (intro that)
qed

text \<open>
  C32. Requests are sent again although they are not idempotent: when the reply to a CREATE is
  lost, the client waits a second, sends it again and reports \<^verbatim>\<open>EEXIST\<close> to the application, although the
  file was made for it and is in the store, empty and under the next FID.
\<close>

theorem create_reported_as_existing:
  assumes "regex_documented E" and "ready w"
    and "fid_path (h_disk w) parent = Some dp" and "is_dir_at (h_disk w) dp"
    and "plain_name name" and "CHR 0x0A \<notin> set name" and "name_fits (ctr_disk (w_counter w)) name"
    and "(dp, name) \<notin> w_name_lock w" and "find_name (h_disk w) dp name = None"
    and "unat (ctr_disk (w_counter w)) < 2 ^ 64 - 2"
    and "create_attrs_ok E (h_clock w) True (new_attrs mode uid gid now)"
    and s: "fs_remote s = \<lparr>nt_world = w, nt_events = [LoseReply]\<rparr>"
    and wire: "wire (nfs_error NFSERR_EXIST) = nfs_error NFSERR_EXIST"
  shows "\<exists>s'. fuse_create (server_rpc E wire) now uid gid parent name mode flags s = (Err C_EEXIST, s')
    \<and> view (h_disk (nt_world (fs_remote s'))) =
        (view (h_disk w))(ctr_disk (w_counter w) \<mapsto> new_file dp name (FileBody []))
    \<and> fs_slept s' = fs_slept s @ [1]"
proof -
  let ?a = "\<lparr>ca_where = \<lparr>da_dir = parent, da_filename = name\<rparr>, ca_attributes = new_attrs mode uid gid now\<rparr>"
  let ?rpc = "rpc_create (server_rpc E wire) ?a"
  obtain res w1 c where t: "create_object E ?a True w = (Ok res, w1)"
      "view (h_disk w1) = (view (h_disk w))(ctr_disk (w_counter w) \<mapsto> new_file dp name (FileBody []))"
      "create_object E ?a True w1 = (Err (nfs_error NFSERR_EXIST), w1\<lparr>w_fid_cache := c\<rparr>)"
    using create_twice [of E w ?a dp True] assms by (auto simp: initial_body_def empty_body_def new_attrs_def)
  have first: "?rpc (fs_remote s) = (lost, \<lparr>nt_world = w1, nt_events = []\<rparr>)"
    using t(1) s by (simp add: server_rpc_def netM_def handle_create_def)
  let ?s1 = "s\<lparr>fs_remote := \<lparr>nt_world = w1, nt_events = []\<rparr>, fs_slept := fs_slept s @ [1]\<rparr>"
  let ?s2 = "?s1\<lparr>fs_remote := \<lparr>nt_world = w1\<lparr>w_fid_cache := c\<rparr>, nt_events = []\<rparr>\<rparr>"
  have second: "?rpc (fs_remote ?s1) = (Err (nfs_error NFSERR_EXIST), \<lparr>nt_world = w1\<lparr>w_fid_cache := c\<rparr>, nt_events = []\<rparr>)"
    using t(3) wire by (simp add: server_rpc_def netM_def handle_create_def)
  have "do_with_retry (server_rpc E wire) ?rpc s = (Err C_EEXIST, ?s2)"
    unfolding do_with_retry_def MAX_TRIES_def numeral_eq_Suc
    using retry_step [where R = "server_rpc E wire" and n = 4 and tries = 0 and s = s and rpc = ?rpc, OF first]
      retry_step [where R = "server_rpc E wire" and n = 3 and tries = 1 and s = ?s1 and rpc = ?rpc, OF second]
    by (simp add: lost_def cut_off_def nfs_error_def server_rpc_def numeral_eq_Suc)
  then show ?thesis using t(2) by (simp add: fuse_create_def Let_def bindM_apply)
qed

lemma create_reported_as_existing_witness:
  "\<exists>s'. fuse_create (server_rpc env0 id) \<lparr>ts_sec = 300, ts_nsec = 0\<rparr> 0 0 2 ''new'' 420 0
      \<lparr>fs_remote = \<lparr>nt_world = world0, nt_events = [LoseReply]\<rparr>, fs_epoch = 3, fs_bufs = [], fs_slept = []\<rparr> = (Err C_EEXIST, s')
    \<and> view (h_disk (nt_world (fs_remote s'))) = (view disk0)(4 \<mapsto> new_file [''1'', ''2''] ''new'' (FileBody []))"
proof -
  have "create_attrs_ok env0 (200, 0) True (new_attrs 420 0 0 \<lparr>ts_sec = 300, ts_nsec = 0\<rparr>)"
    by (simp add: create_attrs_ok_def new_attrs_def to_zip_time_def times_given_ok_def new_obj_def times_ok_def
        fresh_stamps_def env0_def usec_ok_def to_tspec_def)
  moreover have "name_fits 4 ''new''" by (simp add: name_fits_def NAME_MAX_def)
  ultimately show ?thesis
    using create_reported_as_existing [where w = world0 and wire = id and parent = 2 and dp = "[''1'', ''2'']" and name = "''new''"
        and mode = 420 and uid = 0 and gid = 0 and flags = 0 and now = "\<lparr>ts_sec = 300, ts_nsec = 0\<rparr>",
        OF env0_documented ready0,
        of "\<lparr>fs_remote = \<lparr>nt_world = world0, nt_events = [LoseReply]\<rparr>, fs_epoch = 3, fs_bufs = [], fs_slept = []\<rparr>"]
    by auto
qed

section \<open>A COMMIT that fails\<close>

lemma failing_call:
  assumes "h_faults s = Some (FailWith e) # fs"
  shows "sysM k s = (Err e, s\<lparr>h_faults := fs\<rparr>)"
  using assms by (simp add: sysM_def next_fault_def drop_fault_def)

text \<open>
  The copy of the file fails, the first call of COMMIT after the search for the file. The buffer is already
  gone, so a running server is left that has neither the old content changed nor the writes.
\<close>

lemma commit_copy_fails:
  assumes w: "up E w" and f: "is_file_fid (h_disk w) f" and p: "pending w f \<noteq> []" and a: "cm_file a = f"
    and found: "fs_find_by_fid E f (w\<lparr>h_faults := fs\<rparr>) = (Ok (Some q), w2)" "h_faults w2 = [None, Some (FailWith e)]"
  obtains w1 where "handle_commit E a (w\<lparr>h_faults := fs\<rparr>) = (Err (ThriftTransport e), w1)" "up E w1"
    "pending w1 f = []" "w_epoch w1 = w_epoch w" "h_disk w1 = h_disk w"
proof -
  have u: "regex_documented E" "tid_fits E" "ready w" "async_ok w" "no_tmp_dirs (h_disk w)" using w by (simp_all add: up_def)
  note wf = readyD(5) [OF u(3)]
  obtain p bs where t: "write_target (h_disk w) f p bs" using file_target [OF wf f] by metis
  have "finds (fs_find_by_fid E f) (\<lambda>x. x = None \<or> x = fid_path (h_disk w) f) (w\<lparr>h_faults := fs\<rparr>)"
    using find_by_fid_finds [OF u(1), of "w\<lparr>h_faults := fs\<rparr>" f] wf readyD(8) [OF u(3)] by simp
  then obtain fs' c where c: "w2 = w\<lparr>h_faults := fs', w_fid_cache := c\<rparr>" "cache_ok (h_disk w) c" "q = p"
    using found(1) t by (auto simp: finds_def wp_def write_target_def)
  obtain addr where addr: "map_of (w_async_bufs w) f = Some addr" "w_async_heap w addr \<noteq> []"
    using p by (auto simp: pending_def split: option.splits)
  have regular: "is_file_at (h_disk w) p"
    using t by (auto simp: write_target_def content_at_def is_file_at_def)
  define w1 where "w1 = w\<lparr>h_faults := [], w_fid_cache := c, w_async_bufs := AList.delete f (w_async_bufs w)\<rparr>"
  have "copy_sys p tmp (w2\<lparr>w_async_bufs := AList.delete f (w_async_bufs w)\<rparr>) = (Err e, w1)" for tmp
    using regular found(2) c(1)
    by (simp add: copy_sys_def bindM_apply fs_is_file_def call_step failing_call w1_def)
  then have "handle_commit E a (w\<lparr>h_faults := fs\<rparr>) = (Err (ThriftTransport e), w1)"
    using found(1) c addr a
    by (simp add: handle_commit_def Let_def bindM_apply thenM_apply strM_apply ioM_apply async_remove_def async_read_def getsM_apply)
  moreover have "up E w1"
  proof -
    have "ready w1" using u(3) c(2) by (simp add: ready_def server_ok_def w1_def)
    moreover have "async_ok w1" by (rule async_ok_delete [OF u(4)]) (simp_all add: w1_def)
    ultimately show ?thesis using w by (simp add: up_def w1_def)
  qed
  moreover have "pending w1 f = []" by (simp add: pending_def w1_def delete_conv)
  ultimately show thesis using that [of w1] by (simp add: w1_def)
qed

text \<open>
  The failed COMMIT does not change the epoch, so the next \<^verbatim>\<open>flush\<close> of the file succeeds and
  drops what the client still has, without a write reaching the disk.
\<close>

lemma commit_failure_loses_writes:
  assumes "up E w" and "is_file_fid (h_disk w) f" and "pending w f \<noteq> []" and "cm_file a = f"
    and "fs_find_by_fid E f (w\<lparr>h_faults := fs\<rparr>) = (Ok (Some q), w2)" and "h_faults w2 = [None, Some (FailWith e)]"
  shows "\<exists>w1. handle_commit E a (w\<lparr>h_faults := fs\<rparr>) = (Err (ThriftTransport e), w1)
    \<and> (\<forall>s. fs_remote s = \<lparr>nt_world = w1, nt_events = []\<rparr> \<and> fs_epoch s = w_epoch w \<longrightarrow>
        (\<exists>s'. fuse_flush (server_rpc E wire) (Suc n) f s = (Ok (), s') \<and> map_of (fs_bufs s') f = None
          \<and> pending (nt_world (fs_remote s')) f = []
          \<and> view (h_disk (nt_world (fs_remote s'))) = view (h_disk w)))"
proof -
  obtain w1 where w1: "handle_commit E a (w\<lparr>h_faults := fs\<rparr>) = (Err (ThriftTransport e), w1)" "up E w1"
      "pending w1 f = []" "w_epoch w1 = w_epoch w" "h_disk w1 = h_disk w"
    by (rule commit_copy_fails [OF assms])
  have "\<exists>s'. fuse_flush (server_rpc E wire) (Suc n) f s = (Ok (), s') \<and> map_of (fs_bufs s') f = None
      \<and> pending (nt_world (fs_remote s')) f = [] \<and> view (h_disk (nt_world (fs_remote s'))) = view (h_disk w)"
    if s: "fs_remote s = \<lparr>nt_world = w1, nt_events = []\<rparr>" "fs_epoch s = w_epoch w" for s
  proof -
    obtain w' where "commit_retry (server_rpc E wire) (Suc n) (Suc n) f s =
        (Ok (), s\<lparr>fs_remote := \<lparr>nt_world = w', nt_events = []\<rparr>, fs_bufs := AList.delete f (fs_bufs s)\<rparr>)"
        "pending w' = pending w1" "view (h_disk w') = view (h_disk w1)"
      using flush_forgets [where n = n and wire = wire and fuel = "Suc n" and s = s, OF w1(2) _ w1(3) s(1)]
        assms(2) s(2) w1(4,5) by auto
    then show ?thesis using w1(3,5) by (simp add: fuse_flush_def delete_conv del: commit_retry.simps)
  qed
  with w1(1) show ?thesis by blast
qed

section \<open>A flush that fails and is tried again\<close>

lemma all_lost:
  "fs_remote s = \<lparr>nt_world = w, nt_events = replicate n LoseRequest\<rparr> \<Longrightarrow>
    \<exists>t. retry_loop (server_rpc E wire) (netM wire m) n tries s
      = (Err C_EIO, s\<lparr>fs_remote := \<lparr>nt_world = w, nt_events = []\<rparr>, fs_slept := t\<rparr>)"
proof (induction n arbitrary: tries s)
  case 0
  then show ?case by (intro exI [of _ "fs_slept s"]) (simp add: errM_apply)
next
  case (Suc n)
  let ?w = "\<lparr>nt_world = w, nt_events = replicate n LoseRequest\<rparr>"
  have "netM wire m (fs_remote s) = (lost, ?w)" using Suc.prems by (simp add: netM_def)
  note step = retry_step [where R = "server_rpc E wire" and rpc = "netM wire m" and s = s and n = n and tries = tries, OF this]
  let ?s = "s\<lparr>fs_remote := ?w, fs_slept := fs_slept s @ [2 ^ tries]\<rparr>"
  obtain t where "retry_loop (server_rpc E wire) (netM wire m) n (Suc tries) ?s
      = (Err C_EIO, ?s\<lparr>fs_remote := \<lparr>nt_world = w, nt_events = []\<rparr>, fs_slept := t\<rparr>)"
    using Suc.IH [of ?s "Suc tries"] by auto
  then show ?case using step
    by (intro exI [of _ t]) (simp add: cut_off_def lost_def server_rpc_def del: retry_loop.simps)
qed

text \<open>
  After a restart the flush learns the new epoch, and then cannot send the buffered writes: it
  fails. The epoch is kept, so the second flush succeeds without sending them.
\<close>

lemma second_flush_forgets:
  assumes w: "up E w" "unat (ctr_disk (w_counter w)) + 1 < 2 ^ 64 - 4" and f: "is_file_fid (h_disk w) f"
    and s: "fs_remote s = \<lparr>nt_world = w, nt_events = Restart # Deliver # replicate MAX_TRIES LoseRequest\<rparr>"
      "fs_epoch s = w_epoch w" "map_of (fs_bufs s) f = Some ((off, sz, data) # ws)" "unat sz = length data"
  shows "\<exists>s1 s2. fuse_flush (server_rpc E wire) (Suc n) f s = (Err C_EIO, s1)
    \<and> fuse_flush (server_rpc E wire) (Suc n) f s1 = (Ok (), s2) \<and> map_of (fs_bufs s2) f = None
    \<and> pending (nt_world (fs_remote s2)) f = [] \<and> view (h_disk (nt_world (fs_remote s2))) = view (h_disk w)"
proof -
  let ?a = "\<lparr>cm_file = f, cm_count = 0, cm_offset = 0\<rparr>" and ?es = "replicate MAX_TRIES LoseRequest"
  note rb = reboot_up [OF w]
  have f1: "is_file_fid (h_disk (reboot w)) f" and p1: "pending (reboot w) f = []" using f rb(2,3) by simp_all
  obtain w1 where w1: "handle_commit E ?a (reboot w) = (Ok (w_epoch (reboot w)), w1)" "up E w1" "pending w1 = pending (reboot w)"
      "w_epoch w1 = w_epoch (reboot w)" "view (h_disk w1) = view (h_disk (reboot w))"
    using commit_idle [OF rb(1) f1 p1 refl] by blast
  let ?s1 = "s\<lparr>fs_remote := \<lparr>nt_world = w1, nt_events = ?es\<rparr>, fs_epoch := w_epoch w1\<rparr>"
  have "rpc_commit (server_rpc E wire) ?a (fs_remote s) = (Ok (w_epoch w1), \<lparr>nt_world = w1, nt_events = ?es\<rparr>)"
    using w1(1,4) s(1) by (simp add: server_rpc_def netM_def)
  note call = do_with_retry_Ok [where s = s and rpc = "rpc_commit (server_rpc E wire) ?a", OF this]
  have less: "w_epoch w \<le> w_epoch w1" "w_epoch w1 \<noteq> w_epoch w" using rb(4) w1(4) by auto
  obtain t where t: "do_with_retry (server_rpc E wire) (rpc_write (server_rpc E wire) b) ?s1
      = (Err C_EIO, ?s1\<lparr>fs_remote := \<lparr>nt_world = w1, nt_events = []\<rparr>, fs_slept := t\<rparr>)"
    if "b = \<lparr>wa_file = f, wa_offset = off, wa_count = of_nat (min (length data) MAX_BUF_LEN), wa_data = data, wa_stable = UNSTABLE\<rparr>" for b
    using all_lost [where s = ?s1 and w = w1 and n = MAX_TRIES and tries = 0 and E = E and wire = wire
        and m = "handle_write E \<lparr>wa_file = f, wa_offset = off, wa_count = of_nat (min (length data) MAX_BUF_LEN), wa_data = data, wa_stable = UNSTABLE\<rparr>"]
    unfolding do_with_retry_def by (auto simp: server_rpc_def)
  let ?s2 = "?s1\<lparr>fs_remote := \<lparr>nt_world = w1, nt_events = []\<rparr>, fs_slept := t\<rparr>"
  have first: "fuse_flush (server_rpc E wire) (Suc n) f s = (Err C_EIO, ?s2)"
    unfolding fuse_flush_def
    by (subst commit_retry.simps(2))
       (simp add: bindM_apply call getsM_apply thenM_apply assertM_apply modifyM_apply s(2-4) less t write_part_def Let_def
        write_async_handle_epochs_def del: commit_retry.simps)
  have f2: "is_file_fid (h_disk w1) f" "pending w1 f = []"
    using f w1(5) rb(2) p1 w1(3) by (simp_all add: is_file_fid_def)
  obtain w2 where w2: "commit_retry (server_rpc E wire) (Suc n) (Suc n) f ?s2 =
      (Ok (), ?s2\<lparr>fs_remote := \<lparr>nt_world = w2, nt_events = []\<rparr>, fs_bufs := AList.delete f (fs_bufs s)\<rparr>)"
      "pending w2 = pending w1" "view (h_disk w2) = view (h_disk w1)"
    using flush_forgets [where s = ?s2 and n = n and wire = wire and fuel = "Suc n", OF w1(2) f2] by auto
  show ?thesis
    by (rule exI [of _ ?s2], rule exI [of _ "?s2\<lparr>fs_remote := \<lparr>nt_world = w2, nt_events = []\<rparr>, fs_bufs := AList.delete f (fs_bufs s)\<rparr>"])
      (use first w2 f2 w1(5) rb(2) in \<open>simp add: fuse_flush_def delete_conv del: commit_retry.simps\<close>)
qed

section \<open>A RENAME whose second sync fails\<close>

text \<open>
  The file has moved but the cache is not told: the next GETATTR follows the old parent to a file
  that is not there, and panics.
\<close>

lemma rename_leaves_cache_wrong:
  assumes "ready w" and "da_dir (rn_old_loc a) = 1" and "map_of (w_fid_cache w) f = Some 1"
    and moved: "k_rename [''1'', show_u64 f] (nd @ [show_u64 f]) (h_disk w) = Inr ((), d)"
    and held: "(nd, da_filename (rn_new_loc a)) \<in> w_name_lock w"
    and away: "\<not> exists_at d [''1'', show_u64 f]" and f: "f \<noteq> 1"
  shows "\<exists>w'. rename_locked a [''1''] nd f (w\<lparr>h_faults := [None, Some (FailWith e)]\<rparr>) = (Err (ThriftTransport e), w')
    \<and> h_disk w' = d \<and> (\<exists>p. handle_getattr E f w' = (Panic p, w'))"
proof -
  let ?l = "w_name_lock w - {(nd, da_filename (rn_new_loc a))}"
  define w' where "w' = w\<lparr>h_faults := [], h_disk := d, w_name_lock := ?l\<rparr>"
  note live = readyD(3) [OF assms(1)]
  have "rename_sys [''1'', show_u64 f] (nd @ [show_u64 f]) (w\<lparr>h_faults := [None, Some (FailWith e)]\<rparr>)
      = (Ok (), w\<lparr>h_faults := [Some (FailWith e)], h_disk := d\<rparr>)"
    using moved by (simp add: rename_sys_def call_step)
  then have "rename_locked a [''1''] nd f (w\<lparr>h_faults := [None, Some (FailWith e)]\<rparr>) = (Err (ThriftTransport e), w')"
    using live held by (simp add: rename_locked_def Let_def under_cache_lock_def bindM_apply attemptM_apply thenM_apply
        sync_sys_def failing_call unlock_name_def modifyM_apply errM_apply w'_def)
  moreover obtain n where "length (w_fid_cache w) = Suc n" using assms(3) by (cases "w_fid_cache w") auto
  then have "fs_find_by_fid E f w' = (Ok (Some [''1'', show_u64 f]), w')"
    using live assms(3) f by (simp add: fs_find_by_fid_def fs_find_by_fid_cached_def monad_simps cache_get_def
        cache_extend_def w'_def)
  then have "\<exists>p. handle_getattr E f w' = (Panic p, w')"
    using away by (simp add: handle_getattr_def fs_get_attr_def monad_simps metadata_sys_def sysM_calm k_metadata_def
        exists_at_def w'_def)
  ultimately show ?thesis by (auto simp: w'_def)
qed

section \<open>A name that comes back\<close>

text \<open>
  The move of a RENAME leaves the old named file; its removal is the last step, so a crash
  between the two leaves it for good.
\<close>

lemma move_keeps_old_name:
  assumes "k_rename (od @ [show_u64 f]) (nd @ [show_u64 f]) d = Inr (u, d')" and "old \<in> names_at d od (show_u64 f)"
  shows "old \<in> names_at d' od (show_u64 f)"
proof -
  let ?a = "od @ [show_u64 f]" and ?b = "nd @ [show_u64 f]" and ?q = "od @ [show_u64 f @ CHR ''.'' # old]"
  have mem: "map_of e q \<noteq> None \<longleftrightarrow> q \<in> fst ` set e" for e :: disk and q by (simp add: map_of_eq_None_iff)
  have "\<not> prefix ?a ?q" by simp
  then have "move_path ?a ?b ?q = ?q" by (simp add: move_path_def)
  then have rel: "?q \<in> fst ` set (relocate ?a ?b e)" if "?q \<in> fst ` set e" for e
    using that by (force simp: relocate_def image_iff)
  have "?q \<noteq> ?b" using show_u64_digit_set not_digit
    by (metis append_eq_append_conv append_Cons append_self_conv butlast_snoc last_snoc list.distinct(1))
  then have del: "?q \<in> fst ` set (AList.delete ?b e)" if "?q \<in> fst ` set e" for e :: disk
    using that by (auto simp: AList.delete_eq image_iff)
  have "?q \<in> fst ` set d" using assms(2) mem [of d ?q] unfolding in_names_at by simp
  moreover have "d' = d \<or> d' = relocate ?a ?b d \<or> d' = relocate ?a ?b (AList.delete ?b d)"
    using assms(1) by (auto simp: k_rename_def split: option.splits obj.splits if_splits)
  ultimately have "?q \<in> fst ` set d'" using rel del by metis
  then show ?thesis using mem [of d' ?q] unfolding in_names_at by simp
qed

text \<open>A file that is moved to a directory with such a named file has that name again, besides the new one.\<close>

lemma old_name_returns:
  assumes doc: "regex_documented E" and w: "ready w"
    and plain: "plain_name (da_filename (rn_old_loc a))" "plain_name (da_filename (rn_new_loc a))"
    and paths: "fid_path (h_disk w) (da_dir (rn_old_loc a)) = Some od" "fid_path (h_disk w) (da_dir (rn_new_loc a)) = Some nd"
    and dirs: "is_dir_at (h_disk w) od" "is_dir_at (h_disk w) nd" "od \<noteq> nd"
    and free: "rename_error w a = None" and f: "find_name (h_disk w) od (da_filename (rn_old_loc a)) = Some f"
    and move: "can_move (h_disk w) od nd f (da_filename (rn_old_loc a)) (da_filename (rn_new_loc a))"
    and ghost: "ghost \<in> names_at (h_disk w) nd (show_u64 f)"
  shows "\<exists>w' v. handle_rename E a w = (Ok (), w') \<and> view (h_disk w') f = Some v
    \<and> ghost \<in> nf_names v \<and> da_filename (rn_new_loc a) \<in> nf_names v"
proof -
  obtain w' where "handle_rename E a w = (Ok (), w')" "view (h_disk w') = rename_done (h_disk w) od nd f
      (da_filename (rn_old_loc a)) (da_filename (rn_new_loc a))"
    using rename_calm [OF doc w plain] paths dirs free f move by auto
  then show ?thesis using dirs(3) ghost by (auto simp: rename_done_def)
qed

section \<open>The size of a large file\<close>

text \<open>
  GETATTR reports the size of a file modulo \<open>2 ^ 32\<close>; when that is within a block of \<open>2 ^ 32\<close>, a debug
  build panics.
\<close>

lemma size_is_cut:
  assumes "h_faults w = []" and "p \<noteq> []" "last p = show_u64 f" and "map_of (h_disk w) p = Some (RegFile st bs)" "times_ok st"
  shows "if env_overflow_checks E \<and> 2 ^ 32 \<le> length bs mod 2 ^ 32 + 4095
    then \<exists>m. fs_get_attr E p f w = (Panic m, w)
    else \<exists>a. fs_get_attr E p f w = (Ok a, w) \<and> unat (fa_size a) = length bs mod 2 ^ 32"
proof -
  let ?sz = "size_of_obj E (h_disk w) p (RegFile st bs)"
  have sz: "?sz = of_nat (length bs)"
    by (simp add: size_of_obj_def meta_len_def word_unat_eq_iff unat_of_nat unsigned_of_nat take_bit_nat_def mod_mod_cancel)
  then have len: "unat ?sz = length bs mod 2 ^ 32" by (simp add: unat_of_nat)
  show ?thesis
  proof (cases "env_overflow_checks E \<and> 2 ^ 32 \<le> length bs mod 2 ^ 32 + 4095")
    case True
    then have "env_overflow_checks E" "2 ^ 32 \<le> unat (ucast (meta_len E (h_disk w) p (RegFile st bs)) :: u32) + unat (BLOCK_SIZE - 1)"
      using len unfolding size_of_obj_def [symmetric] by (simp_all add: BLOCK_SIZE_def)
    then show ?thesis using True assms by (auto simp: fs_get_attr_def monad_simps calm blocks_of_def)
  next
    case False
    then have "fs_get_attr E p f w = (Ok (attr_of E (h_disk w) p f (RegFile st bs)), w)"
      using assms len by (intro get_attr_calm) auto
    moreover have "unat (fa_size (attr_of E (h_disk w) p f (RegFile st bs))) = length bs mod 2 ^ 32"
      using len by (simp add: attr_of_def unsigned_ucast_eq take_bit_nat_eq_self)
    ultimately show ?thesis using False by auto
  qed
qed

text \<open>The failed COMMIT and the failed RENAME at concrete inputs\<close>

lemma commit_failure_loses_writes_witness:
  "\<exists>w1. handle_commit env0 \<lparr>cm_file = 4, cm_count = 0, cm_offset = 0\<rparr>
      (world1\<lparr>w_fid_cache := [(4, 1)], h_faults := [None, Some (FailWith EIO)]\<rparr>) = (Err (ThriftTransport EIO), w1)"
proof -
  let ?w = "world1\<lparr>w_fid_cache := [(4, 1)]\<rparr>"
  have "entry_ok disk1 4 1"
    by (simp add: entry_ok_def fid_path_def vpath_def vchild_def has_named_def is_numbered_def disk1_def disk0_simps upt_rec)
  then have up: "up env0 ?w" using up1
    by (simp add: up_def ready_def server_ok_def cache_ok_def async_ok_def world1_def)
  have found: "fs_find_by_fid env0 4 (?w\<lparr>h_faults := [None, Some (FailWith EIO)]\<rparr>)
      = (Ok (Some [''1'', ''4'']), ?w\<lparr>h_faults := [None, Some (FailWith EIO)]\<rparr>)"
    by (simp add: fs_find_by_fid_def fs_find_by_fid_cached_def monad_simps cache_get_def cache_extend_def world1_def)
  have "is_file_fid (h_disk ?w) 4" "pending ?w 4 \<noteq> []" using files1 by (simp_all add: pending_def world1_def)
  from commit_failure_loses_writes [where wire = id and n = 0 and e = EIO
      and a = "\<lparr>cm_file = 4, cm_count = 0, cm_offset = 0\<rparr>", OF up this _ found]
  show ?thesis by (auto simp: world1_def)
qed

lemma rename_leaves_cache_wrong_witness:
  "\<exists>w'. rename_locked
      \<lparr>rn_old_loc = \<lparr>da_dir = 1, da_filename = ''def''\<rparr>, rn_new_loc = \<lparr>da_dir = 2, da_filename = ''def''\<rparr>\<rparr>
      [''1''] [''1'', ''2''] 4 (world1\<lparr>w_fid_cache := [(4, 1)], w_name_lock := {([''1'', ''2''], ''def'')},
        h_faults := [None, Some (FailWith EIO)]\<rparr>) = (Err (ThriftTransport EIO), w')
    \<and> (\<exists>p. handle_getattr env0 4 w' = (Panic p, w'))"
proof -
  let ?a = "\<lparr>rn_old_loc = \<lparr>da_dir = 1, da_filename = ''def''\<rparr>, rn_new_loc = \<lparr>da_dir = 2, da_filename = ''def''\<rparr>\<rparr>"
  let ?d = "relocate [''1'', ''4''] [''1'', ''2'', ''4''] disk1"
  let ?w = "world1\<lparr>w_fid_cache := [(4, 1)], w_name_lock := {([''1'', ''2''], ''def'')}\<rparr>"
  have "entry_ok disk1 4 1"
    by (simp add: entry_ok_def fid_path_def vpath_def vchild_def has_named_def is_numbered_def disk1_def disk0_simps upt_rec)
  then have "ready ?w" using up1
    by (simp add: up_def ready_def server_ok_def cache_ok_def world1_def)
  moreover have "k_rename [''1'', ''4''] [''1'', ''2'', ''4''] disk1 = Inr ((), ?d)"
    by (simp add: k_rename_def comp_err_def NAME_MAX_def disk1_def disk0_simps)
  moreover have "\<not> exists_at ?d [''1'', ''4'']"
    by (simp add: exists_at_def relocate_def move_path_def disk1_def disk0_def)
  moreover have "h_disk ?w = disk1" by (simp add: world1_def)
  ultimately have "\<exists>w'. rename_locked ?a [''1''] [''1'', ''2''] 4 (?w\<lparr>h_faults := [None, Some (FailWith EIO)]\<rparr>) = (Err (ThriftTransport EIO), w')
      \<and> h_disk w' = ?d \<and> (\<exists>p. handle_getattr env0 4 w' = (Panic p, w'))"
    by (intro rename_leaves_cache_wrong) simp_all
  then show ?thesis by (auto simp: world1_def)
qed

text \<open>A file that has lost the name \<open>ghost\<close> in the root to a crash, and comes back\<close>

definition haunted0 :: world where
  "haunted0 = world0\<lparr>h_disk := disk0 @ [([''1'', ''3.ghost''], RegFile stamps0 [])]\<rparr>"

lemma old_name_returns_witness:
  "\<exists>w' v. handle_rename env0 \<lparr>rn_old_loc = \<lparr>da_dir = 2, da_filename = ''abc''\<rparr>,
      rn_new_loc = \<lparr>da_dir = 1, da_filename = ''new''\<rparr>\<rparr> haunted0 = (Ok (), w')
    \<and> find_name (h_disk haunted0) [''1''] ''ghost'' = None
    \<and> view (h_disk w') 3 = Some v \<and> ''ghost'' \<in> nf_names v \<and> ''new'' \<in> nf_names v"
proof -
  let ?d = "disk0 @ [([''1'', ''3.ghost''], RegFile stamps0 [])]"
  let ?a = "\<lparr>rn_old_loc = \<lparr>da_dir = 2, da_filename = ''abc''\<rparr>, rn_new_loc = \<lparr>da_dir = 1, da_filename = ''new''\<rparr>\<rparr>"
  have e: "entry_fid ''3.ghost'' = Some 3" using entry_fid_named [of 3 "''ghost''"] by simp
  have "wf_store ?d" "fids_below 4 ?d"
    using e by (simp_all add: wf_store_def wf_disk_def names_ok_def fids_unique_def fids_below_def disk0_def
      is_dir_at_def is_file_at_def under_root_def is_numbered_def)
  then have w: "ready haunted0"
    by (simp add: ready_def server_ok_def haunted0_def world0_def counter0_def ctr_synced_def)
  have paths: "fid_path ?d 2 = Some [''1'', ''2'']" "fid_path ?d 1 = Some [''1'']"
    by (simp_all add: fid_path_def vpath_def vchild_def has_named_def is_numbered_def disk0_simps upt_rec)
  have found: "find_name ?d [''1'', ''2''] ''abc'' = Some 3" "find_name ?d [''1''] ''new'' = None"
      "find_name ?d [''1''] ''ghost'' = None"
    by (simp_all add: find_name_def name_hit_def split_name_def dot_match_def disk0_simps)
  have names: "''ghost'' \<in> names_at ?d [''1''] (show_u64 3)" "''abc'' \<in> names_at ?d [''1'', ''2''] (show_u64 3)"
    by (simp_all add: in_names_at disk0_def)
  have dirs: "is_dir_at ?d [''1'', ''2'']" "is_dir_at ?d [''1'']" by (simp_all add: disk0_simps)
  have fits: "name_fits 3 ''new''" by (simp add: name_fits_def NAME_MAX_def)
  have d: "h_disk haunted0 = ?d" "w_name_lock haunted0 = {}" by (simp_all add: haunted0_def)
  have "rename_error haunted0 ?a = None" using paths found d by (simp add: rename_error_def)
  moreover have "can_move ?d [''1'', ''2''] [''1''] 3 ''abc'' ''new''" using fits names by (simp add: can_move_def)
  ultimately have "\<exists>w' v. handle_rename env0 ?a haunted0 = (Ok (), w') \<and> view (h_disk w') 3 = Some v
      \<and> ''ghost'' \<in> nf_names v \<and> da_filename (rn_new_loc ?a) \<in> nf_names v"
    using paths found names dirs d by (intro old_name_returns [OF env0_documented w]) simp_all
  then show ?thesis using found d by auto
qed

end
