(* ===== verification/Spec2Isabelle.thy ===== *)
theory Spec2Isabelle
  imports Directories Commands Lifetime Threads Failures
begin

text \<open>
  ZippyNFS, a small network file system in Rust: a server that keeps every file system object
  of its clients in the files of a host directory, a FUSE client that turns the calls of the
  kernel into requests, and a command line client. The server is to be crash safe: it
  keeps almost no state of its own, writes with \<^verbatim>\<open>fsync\<close> and renames in a fixed order, and its
  clients find out from an epoch number that it was restarted and send unstable writes again.

  \<^bold>\<open>The program\<close>

  \<^item> The store. The object with file identifier (FID) \<open>f\<close> in the directory \<open>D\<close> is a numbered
  file or directory \<^verbatim>\<open>D/f\<close> and an empty named file \<^verbatim>\<open>D/f.name\<close>. An object is visible when both are
  there; the order of the system calls decides what a crash leaves visible.
  Theory HostFs models the host file system (\<^verbatim>\<open>std::fs\<close>): a map from paths to files and
  directories, the system calls with their errors, and a schedule of faults. Before every call
  the schedule may make it fail or may cut the power. View says what a client can see of a
  store (\<open>view\<close>: parent, names and body of each FID) and what a well formed store is.

  \<^item> The counter (\<^verbatim>\<open>handler/counter.rs\<close>, theory Counter): a memory mapped number, the next
  free FID, which also yields the epoch at every start.

  \<^item> The protocol (\<^verbatim>\<open>protocol/src/errors.rs\<close>, \<^verbatim>\<open>zippynfs.thrift\<close>, theory Protocol): requests,
  results and errors as records and datatypes.

  \<^item> The server (\<^verbatim>\<open>handler/mod.rs\<close>): ServerState (the struct, the constructor, the name lock, the
  FID cache), Lookup (\<^verbatim>\<open>fs_find_by_fid\<close>, \<^verbatim>\<open>fs_find_by_name\<close>), Attr (attributes), Objects (the
  requests on names and attributes), Data (READ, WRITE, COMMIT), ReadDir.

  \<^item> The FUSE client (\<^verbatim>\<open>client_fuse.rs\<close>, theory Fuse): the retry macros, the handlers of the
  \<^verbatim>\<open>Filesystem\<close> trait, and the epoch protocol of unstable writes.

  \<^item> The command line client (\<^verbatim>\<open>client_cli.rs\<close>, theory Cli): the commands, their parser, and the
  requests they send.

  Every Rust function is a definition of the same name in a monad of state and outcome (theory
  Prelude): \<open>Ok\<close>, \<open>Err\<close> for the error of its \<^verbatim>\<open>Result\<close>, \<open>Panic\<close>, \<open>Crash\<close> for a power cut, and \<open>Hang\<close>
  where the model of a loop is out of fuel.

  \<^bold>\<open>What is shown\<close>

  \<^item> Crash defines \<open>survives\<close>, what a request guarantees for every schedule of faults, and rules
  for it. Atomic, AtomicRename, AtomicData and AtomicAttr (with Resize) use them to show that every request is atomic
  and keeps the store well formed; PowerCut shows that with power cuts alone a request is cut
  or behaves as without faults. Counter shows that no FID is given twice.

  \<^item> Search shows that the search of the disk and the cache find the path of a FID. Requests,
  Updates, Moves, Writes and SetAttrs describe each request without faults on each of its branches.
  Guarantees collects the properties of the server, with witnesses on the store of Sample;
  Pitfalls derives sequences in which the server breaks its promises.

  \<^item> Retries is about \<^verbatim>\<open>do_with_retry!\<close>. Overwrite shows that sending writes again, also a part
  of them and more than once, does not change the result. Epochs abstracts the server to what
  the client relies on, the content of a file, the writes pending for it and the epoch, with the
  histories that are possible; Sessions proves the client correct against any such server, in
  the locale \<open>epoch_server\<close>. Frames says which parts of the server's state each request leaves
  alone. Network puts the server behind a network that loses requests and replies and lets it
  restart or lose power at any system call, and shows that it is an \<open>epoch_server\<close>.
  Reads does the same for reads. ClientGuarantees collects the properties of the client;
  ClientPitfalls derives sequences of calls that lose acknowledged writes. Failures shows what single
  failures lead to: a creation reported as failed, a COMMIT that loses the writes, a RENAME
  that leaves the cache wrong, a name that comes back, a flush that forgets, a size that is cut.

  \<^item> Listing computes what READDIR replies, and Browse and Directories show that the kernel reads
  a directory completely through the client and the network. Commands is about the command
  line client: what its parser accepts, that it reads back what is printed, and one command
  from its text to the disk of the server.

  \<^item> Service puts the handlers behind one type of requests and one of replies. Promise specifies
  the server without its store: a map from FIDs to files, the pending writes, the
  epoch and the next number, and the steps that requests, failures and restarts may make. Kept
  shows that the effect of a request is there as a whole after any schedule of faults, Answers
  that a request the host can carry out is answered truthfully and leaves the server ready.
  Node is the machine: a process that serves, dies at any system call, and is
  started again; every step of it is a step of the specification. Lifetime
  collects what follows for a whole run. Guards: names have no special characters of regular
  expressions but dots (\<open>polite\<close>), and a request that is served without faults meets the conditions under
  which no \<^verbatim>\<open>unwrap\<close> of its handler panics (\<open>sane\<close>). After an I/O error a process is not used again, as its cache
  and locks may be wrong (see the properties on the name lock, and RENAME).

  \<^item> Threads interleaves the steps of unstable writes in several threads.

  \<^bold>\<open>Bounds and fuel\<close>

  The search of the disk and the walk along the cache have fuel; the lemmas of Search show
  that the sizes of the disk and of the cache are enough. The loop of \<^verbatim>\<open>read\<close> has one round more than bytes are
  asked for. The loops of the epoch protocol end only if the server stops restarting: their
  fuel is a parameter, and the theorem bounds it by the number of restarts times the number of
  pieces written. Machine integers are words; arithmetic that Rust checks in debug builds
  panics where the model says so and wraps otherwise.

  \<^bold>\<open>Parameters\<close>

  \<open>env\<close> holds what is not in the repository: the regular expression engine (its documented
  behaviour on the two patterns used is the hypothesis \<open>regex_documented\<close>, met by the engine of
  Sample), the text of the thread identifier, the size of a directory entry in memory, the length the host
  reports for a directory, and whether overflow checks are on. The generated Thrift code is the record \<open>rpc\<close>;
  \<open>wire\<close> is what it makes of an error on the way to the client.

  \<^bold>\<open>Not modelled\<close>

  Threads, except for unstable writes: elsewhere a request runs alone. Logging and the text printed by the programs, permissions (the code
  ignores them), the Thrift transport and the generated code, the command line of the server
  and of the FUSE client, the benchmark program \<^verbatim>\<open>bw\<close>, the build scripts and the tests.
\<close>

end
